(* ===== verification/Prelude.thy ===== *)
theory Prelude
  imports Main "HOL-Library.Word"
begin

text \<open>
  Shared vocabulary of the development: the machine integer types of the C++ sources, the byte
  images of integers on the little-endian hosts the plugin is built for, C++ string reads, and the
  lemma collections the component theories extend.
\<close>

unbundle bit_operations_syntax

subsection \<open>Machine integers and error codes\<close>

type_synonym u8 = "8 word"
type_synonym u16 = "16 word"
type_synonym u32 = "32 word"
type_synonym u64 = "64 word"

text \<open>A byte string: \<open>std::string\<close> where the source uses it as a buffer of octets.\<close>

type_synonym bytes = "u8 list"

named_theorems wire_simps \<open>evaluation of header fields and byte images\<close>
named_theorems chunk_simps \<open>splitting a streaming operation over consecutive chunks\<close>
named_theorems inv_intros \<open>preservation of component invariants\<close>

subsection \<open>Exhaustive reasoning over one byte\<close>

lemma all_u8_iff: "(\<forall>b::u8. P b) \<longleftrightarrow> list_all (\<lambda>n. P (of_nat n)) [0..<256]"
proof
  assume "list_all (\<lambda>n. P (of_nat n)) [0..<256]"
  then have small: "P (of_nat n)" if "n < 256" for n
    using that by (simp add: list_all_iff)
  show "\<forall>b::u8. P b"
  proof
    fix b :: u8
    have "unat b < 256" using unsigned_less [of b] by simp
    then have "P (of_nat (unat b))" by (rule small)
    then show "P b" by simp
  qed
qed (simp add: list_all_iff)

lemma u8_less_256 [simp]: "unat (b::u8) < 256"
  using unsigned_less [of b] by simp

lemma unat_of_nat_small: "n < 2 ^ LENGTH('a) \<Longrightarrow> unat (of_nat n :: 'a::len word) = n"
  by (simp add: unat_of_nat)

lemma unat_of_nat_le: "n \<le> unat (w :: 'a::len word) \<Longrightarrow> unat (of_nat n :: 'a word) = n"
  by (rule unat_of_nat_small) (rule le_less_trans [OF _ unsigned_less [of w]])

lemma unat_ucast_small:
  "unat w < 2 ^ LENGTH('b) \<Longrightarrow> unat (ucast (w :: 'a::len word) :: 'b::len word) = unat w"
  by (metis of_nat_unat unat_of_nat_small)

lemma and_exp_eq_exp: 
  assumes "n < LENGTH('a)"
  shows "(w AND 2 ^ n = (2 ^ n :: 'a::len word)) = bit w n"
proof
  assume "w AND 2 ^ n = 2 ^ n"
  then have "bit (w AND 2 ^ n) n" using assms by (simp add: bit_exp_iff)
  then show "bit w n" by (simp add: bit_and_iff)
next
  assume "bit w n"
  then show "w AND 2 ^ n = 2 ^ n" by (auto intro!: bit_word_eqI simp: bit_simps)
qed

lemma bit_word_of_nat: "bit (of_nat n :: 'a::len word) k \<longleftrightarrow> k < LENGTH('a) \<and> bit n k"
  using bit_word_of_int_iff [of "int n" k, where 'a = 'a] by (simp add: bit_of_nat_iff)

lemma rotate_left_word_rotl:
  fixes x :: u32
  assumes "s < 32"
  shows "push_bit s x OR drop_bit (32 - s) x = word_rotl s x"
proof (rule bit_word_eqI)
  fix n assume "n < LENGTH(32)"
  moreover have "32 + n - s = n + 32 - s" by simp
  ultimately show "bit (push_bit s x OR drop_bit (32 - s) x) n = bit (word_rotl s x) n"
    using assms by (cases "s \<le> n") (auto simp: bit_simps le_mod_geq dest: bit_imp_le_length)
qed

lemma unat_eq_of_nat: "unat w = n \<Longrightarrow> w = of_nat n"
  by auto

lemma nat_or_digit:
  fixes x y :: nat
  assumes "x < 2 ^ k"
  shows "x OR push_bit k y = x + y * 2 ^ k"
proof -
  have "x OR push_bit k y = x + push_bit k y"
  proof (rule disjunctive_add [symmetric])
    fix i
    have "x = take_bit k x" using assms by (simp add: take_bit_nat_eq_self)
    then show "\<not> bit x i \<or> \<not> bit (push_bit k y) i"
      by (metis bit_push_bit_iff bit_take_bit_iff not_less)
  qed
  then show ?thesis by (simp add: push_bit_eq_mult)
qed

lemma length_two: "length xs = 2 \<longleftrightarrow> (\<exists>a b. xs = [a, b])"
  by (auto simp: numeral_2_eq_2 length_Suc_conv)

lemma drop_2_Cons [simp]: "drop 2 (a # b # xs) = xs"
  by (simp add: numeral_2_eq_2)

subsection \<open>Little-endian byte images\<close>

text \<open>
  The converter unions of the sources overlay an integer with an array of octets; on the
  little-endian hosts of the plugin the octet at index \<open>i\<close> holds bits \<open>8 * i\<close> upwards.
\<close>

definition le_bytes :: "nat \<Rightarrow> 'a::len word \<Rightarrow> bytes" where
  "le_bytes n w = map (\<lambda>i. ucast (drop_bit (8 * i) w)) [0..<n]"

fun of_le :: "bytes \<Rightarrow> 'a::len word" where
  "of_le [] = 0"
| "of_le (b # bs) = ucast b OR push_bit 8 (of_le bs)"

lemma length_le_bytes [simp]: "length (le_bytes n w) = n"
  by (simp add: le_bytes_def)

lemma nth_le_bytes [simp]: "i < n \<Longrightarrow> le_bytes n w ! i = ucast (drop_bit (8 * i) w)"
  by (simp add: le_bytes_def)

lemma bit_of_le:
  "bit (of_le bs :: 'a::len word) n \<longleftrightarrow>
     n < LENGTH('a) \<and> n div 8 < length bs \<and> bit (bs ! (n div 8)) (n mod 8)"
proof (induction bs arbitrary: n)
  case Nil
  then show ?case by simp
next
  case (Cons b bs)
  show ?case
  proof (cases "n < 8")
    case True
    then show ?thesis by (auto simp: bit_simps)
  next
    case False
    then obtain m where m: "n = m + 8"
      by (metis add.commute le_Suc_ex not_less)
    have "\<not> bit b n" using False by (auto dest: bit_imp_le_length)
    moreover have "n div 8 = Suc (m div 8)" "n mod 8 = m mod 8" by (simp_all add: m)
    ultimately show ?thesis
      using Cons.IH [of m] by (auto simp: m bit_simps)
  qed
qed

lemma bit_le_bytes_nth:
  "i < n \<Longrightarrow> bit (le_bytes n w ! i) j \<longleftrightarrow> j < 8 \<and> bit w (8 * i + j)"
  by (auto simp: bit_simps add.commute)

lemma of_le_le_bytes:
  fixes w :: "'a::len word"
  assumes "LENGTH('a) \<le> 8 * n"
  shows "of_le (le_bytes n w) = w"
proof (rule bit_word_eqI)
  fix k assume k: "k < LENGTH('a)"
  then have d: "k div 8 < n" using assms by auto
  then show "bit (of_le (le_bytes n w) :: 'a word) k = bit w k"
    using k by (simp add: bit_of_le bit_le_bytes_nth del: nth_le_bytes)
qed

lemma le_bytes_of_le:
  assumes "length bs = n" and "8 * n \<le> LENGTH('a::len)"
  shows "le_bytes n (of_le bs :: 'a word) = bs"
proof (rule nth_equalityI)
  show "length (le_bytes n (of_le bs :: 'a word)) = length bs" by (simp add: assms)
  fix i assume "i < length (le_bytes n (of_le bs :: 'a word))"
  then have i: "i < n" by simp
  show "le_bytes n (of_le bs :: 'a word) ! i = bs ! i"
  proof (rule bit_word_eqI)
    fix j assume j: "j < LENGTH(8)"
    then have "(8 * i + j) div 8 = i" "(8 * i + j) mod 8 = j" "8 * i + j < LENGTH('a)"
      using i assms(2) by auto
    then show "bit (le_bytes n (of_le bs :: 'a word) ! i) j = bit (bs ! i) j"
      using i j assms(1) by (simp add: bit_le_bytes_nth bit_of_le del: nth_le_bytes)
  qed
qed

lemma le_bytes_xor:
  "le_bytes n (a XOR b) = map2 (XOR) (le_bytes n a) (le_bytes n b)"
proof (rule nth_equalityI)
  fix i assume "i < length (le_bytes n (a XOR b))"
  then show "le_bytes n (a XOR b) ! i = map2 (XOR) (le_bytes n a) (le_bytes n b) ! i"
    by (auto intro: bit_word_eqI simp: bit_simps)
qed simp

end
