(* ===== verification/Base64.thy ===== *)
theory Base64
  imports Prelude
begin

text \<open>
  \<^verbatim>\<open>websocketpp/base64/base64.hpp\<close>: the encoder takes three octets a round and pads the rest, the decoder
  four characters a round and stops at the first character outside the alphabet. Both work on octets;
  the length of the encoder's input passes through a 32-bit \<^verbatim>\<open>unsigned int\<close>.
\<close>

definition base64_chars :: bytes where
  "base64_chars = map of_char
     ''ABCDEFGHIJKLMNOPQRSTUVWXYZabcdefghijklmnopqrstuvwxyz0123456789+/''"

definition pad_char :: u8 where
  "pad_char = 61"

definition is_base64 :: "u8 \<Rightarrow> bool" where
  "is_base64 c \<longleftrightarrow> c = 43 \<or> (c \<ge> 47 \<and> c \<le> 57) \<or> (c \<ge> 65 \<and> c \<le> 90) \<or> (c \<ge> 97 \<and> c \<le> 122)"

text \<open>The four six-bit indices of three octets.\<close>

definition char_array_4 :: "u8 \<Rightarrow> u8 \<Rightarrow> u8 \<Rightarrow> bytes" where
  "char_array_4 a b c =
     [drop_bit 2 (a AND 0xfc),
      push_bit 4 (a AND 0x03) + drop_bit 4 (b AND 0xf0),
      push_bit 2 (b AND 0x0f) + drop_bit 6 (c AND 0xc0),
      c AND 0x3f]"

definition base64_char :: "u8 \<Rightarrow> u8" where
  "base64_char i = base64_chars ! unat i"

fun encode_loop :: "bytes \<Rightarrow> bytes" where
  "encode_loop (a # b # c # rest) = map base64_char (char_array_4 a b c) @ encode_loop rest"
| "encode_loop [a, b] = map base64_char (take 3 (char_array_4 a b 0)) @ [pad_char]"
| "encode_loop [a] = map base64_char (take 2 (char_array_4 a 0 0)) @ [pad_char, pad_char]"
| "encode_loop [] = []"

definition base64_encode :: "bytes \<Rightarrow> bytes" where
  "base64_encode s = encode_loop (take (length s mod 2 ^ 32) s)"

text \<open>\<^verbatim>\<open>base64_chars.find\<close>, cut to an octet: the position, or \<^verbatim>\<open>npos\<close> as 255.\<close>

fun position :: "u8 \<Rightarrow> bytes \<Rightarrow> nat option" where
  "position c [] = None"
| "position c (x # xs) = (if x = c then Some 0 else map_option Suc (position c xs))"

definition base64_index :: "u8 \<Rightarrow> u8" where
  "base64_index c = (case position c base64_chars of Some i \<Rightarrow> of_nat i | None \<Rightarrow> 255)"

text \<open>The three octets of four indices.\<close>

definition char_array_3 :: "u8 \<Rightarrow> u8 \<Rightarrow> u8 \<Rightarrow> u8 \<Rightarrow> bytes" where
  "char_array_3 p q r s =
     [push_bit 2 p + drop_bit 4 (q AND 0x30),
      push_bit 4 (q AND 0x0f) + drop_bit 2 (r AND 0x3c),
      push_bit 6 (r AND 0x03) + s]"

fun decode_loop :: "bytes \<Rightarrow> bytes" where
  "decode_loop (p # q # r # s # rest) =
     char_array_3 (base64_index p) (base64_index q) (base64_index r) (base64_index s) @ decode_loop rest"
| "decode_loop [p, q, r] =
     take 2 (char_array_3 (base64_index p) (base64_index q) (base64_index r) (base64_index 0))"
| "decode_loop [p, q] =
     take 1 (char_array_3 (base64_index p) (base64_index q) (base64_index 0) (base64_index 0))"
| "decode_loop [p] = []"
| "decode_loop [] = []"

definition base64_decode :: "bytes \<Rightarrow> bytes" where
  "base64_decode s = decode_loop (takeWhile (\<lambda>c. c \<noteq> pad_char \<and> is_base64 c) s)"

subsection \<open>Lemmas\<close>

lemma base64_chars_values:
  "base64_chars =
     [65, 66, 67, 68, 69, 70, 71, 72, 73, 74, 75, 76, 77, 78, 79, 80, 81, 82, 83, 84, 85,
      86, 87, 88, 89, 90, 97, 98, 99, 100, 101, 102, 103, 104, 105, 106, 107, 108, 109,
      110, 111, 112, 113, 114, 115, 116, 117, 118, 119, 120, 121, 122, 48, 49, 50, 51,
      52, 53, 54, 55, 56, 57, 43, 47]"
  by (simp add: base64_chars_def of_char_def)

lemma position_nth: "distinct xs \<Longrightarrow> i < length xs \<Longrightarrow> position (xs ! i) xs = Some i"
proof (induction xs arbitrary: i)
  case (Cons x xs)
  then show ?case by (cases i) auto
qed simp

lemma base64_chars_facts:
  "length base64_chars = 64" "distinct base64_chars"
  "\<forall>c \<in> set base64_chars. is_base64 c \<and> c \<noteq> pad_char"
  unfolding base64_chars_values by (simp_all add: is_base64_def pad_char_def)

lemma base64_alphabet:
  assumes "unat i < 64"
  shows "base64_index (base64_char i) = i" "is_base64 (base64_char i)" "base64_char i \<noteq> pad_char"
  using assms base64_chars_facts position_nth [of base64_chars "unat i"] nth_mem [of "unat i" base64_chars]
  by (auto simp: base64_index_def base64_char_def)

text \<open>The pieces of an octet, as numbers.\<close>

lemma low_bits:
  fixes w :: u8
  shows "w AND 0x03 = take_bit 2 w" "w AND 0x0f = take_bit 4 w" "w AND 0x3f = take_bit 6 w"
  by (simp_all add: take_bit_eq_mask mask_eq_exp_minus_1)

lemma high_bits:
  fixes w :: u8
  shows "drop_bit 2 (w AND 0xfc) = take_bit 6 (drop_bit 2 w)"
    and "drop_bit 4 (w AND 0xf0) = take_bit 4 (drop_bit 4 w)"
    and "drop_bit 6 (w AND 0xc0) = take_bit 2 (drop_bit 6 w)"
    and "drop_bit 4 (w AND 0x30) = take_bit 2 (drop_bit 4 w)"
    and "drop_bit 2 (w AND 0x3c) = take_bit 4 (drop_bit 2 w)"
  by (simp_all add: take_bit_eq_mask mask_eq_exp_minus_1)

lemma unat_pieces:
  fixes w :: u8
  shows "unat (take_bit n w) = unat w mod 2 ^ n" "unat (drop_bit n w) = unat w div 2 ^ n"
    and "unat (push_bit n w) = unat w * 2 ^ n mod 256"
proof -
  show "unat (take_bit n w) = unat w mod 2 ^ n"
    unfolding unsigned_take_bit_eq by (simp add: take_bit_eq_mod)
  show "unat (drop_bit n w) = unat w div 2 ^ n"
    unfolding unsigned_drop_bit_eq by (simp add: drop_bit_eq_div take_bit_nat_eq_self)
  show "unat (push_bit n w) = unat w * 2 ^ n mod 256"
    unfolding unsigned_push_bit_eq by (simp add: take_bit_eq_mod push_bit_eq_mult)
qed

lemma small_products:
  fixes n :: nat
  shows "n mod 4 * 16 mod 256 = n mod 4 * 16" "n mod 16 * 4 mod 256 = n mod 16 * 4"
    "n < 256 \<Longrightarrow> n div 4 mod 64 = n div 4" "n < 256 \<Longrightarrow> n div 16 mod 16 = n div 16"
    "n < 256 \<Longrightarrow> n div 64 mod 4 = n div 64"
  by simp_all

lemma unat_plus_u8: "unat a + unat b < 256 \<Longrightarrow> unat (a + b :: u8) = unat a + unat b"
  by (simp add: unat_word_ariths(1))

lemma pieces_small:
  fixes a b :: u8
  shows "unat a mod 4 * 16 + unat b div 16 < 64" "unat a mod 16 * 4 + unat b div 64 < 64"
    "unat a div 4 < 64" "unat a mod 64 < 64"
  using u8_less_256 [of a] u8_less_256 [of b] by (simp_all del: u8_less_256)

lemma indices:
  "map unat (char_array_4 a b c) =
     [unat a div 4, unat a mod 4 * 16 + unat b div 16, unat b mod 16 * 4 + unat c div 64, unat c mod 64]"
  using pieces_small(1) [of a b] pieces_small(2) [of b c] small_products(3-5) [OF u8_less_256]
  by (simp add: char_array_4_def high_bits low_bits unat_plus_u8 unat_pieces small_products del: u8_less_256)

lemma octets:
  assumes "unat p < 64" "unat q < 64" "unat r < 64" "unat s < 64"
  shows "map unat (char_array_3 p q r s) =
    [unat p * 4 + unat q div 16, unat q mod 16 * 16 + unat r div 4, unat r mod 4 * 64 + unat s]"
  using assms
  by (simp add: char_array_3_def high_bits low_bits unat_plus_u8 unat_pieces small_products)

lemma unat_map_eq: "map unat xs = map unat ys \<Longrightarrow> xs = (ys :: bytes)"
  by (rule map_injective) (auto intro!: injI simp: word_unat_eq_iff)

lemma three_octets:
  assumes "char_array_4 a b c = [p, q, r, s]"
  shows "char_array_3 p q r s = [a, b, c]" "unat p < 64" "unat q < 64" "unat r < 64" "unat s < 64"
proof -
  have u: "unat p = unat a div 4" "unat q = unat a mod 4 * 16 + unat b div 16"
    "unat r = unat b mod 16 * 4 + unat c div 64" "unat s = unat c mod 64"
    using indices [of a b c] unfolding assms by simp_all
  then show small: "unat p < 64" "unat q < 64" "unat r < 64" "unat s < 64" by (simp_all only: pieces_small)
  have "unat b div 16 < 16" "unat c div 64 < 4" by (simp_all only: div_less_iff_less_mult u8_less_256) simp_all
  then have "map unat (char_array_3 p q r s) = map unat [a, b, c]"
    unfolding octets [OF small] u by simp
  then show "char_array_3 p q r s = [a, b, c]" by (rule unat_map_eq)
qed

lemma four_indices: "\<exists>p q r s. char_array_4 a b c = [p, q, r, s]"
  by (simp add: char_array_4_def)

abbreviation plain_char :: "u8 \<Rightarrow> bool" where
  "plain_char c \<equiv> c \<noteq> pad_char \<and> is_base64 c"

lemma decode_encode_loop: "decode_loop (takeWhile plain_char (encode_loop s)) = s"
proof (induction s rule: encode_loop.induct)
  case (1 a b c rest)
  obtain p q r s where pq: "char_array_4 a b c = [p, q, r, s]" using four_indices by blast
  note t = three_octets [OF pq]
  show ?case using 1 by (simp add: pq t base64_alphabet)
next
  case (2 a b)
  obtain p q r s where pq: "char_array_4 a b 0 = [p, q, r, s]" using four_indices by blast
  note t = three_octets [OF pq]
  have "take 2 (char_array_3 p q r x) = [a, b]" for x using t(1) by (simp add: char_array_3_def numeral_2_eq_2)
  then show ?case by (simp add: pq t base64_alphabet numeral_3_eq_3)
next
  case (3 a)
  obtain p q r s where pq: "char_array_4 a 0 0 = [p, q, r, s]" using four_indices by blast
  note t = three_octets [OF pq]
  have "take 1 (char_array_3 p q x y) = [a]" for x y using t(1) by (simp add: char_array_3_def)
  then show ?case by (simp add: pq t base64_alphabet numeral_2_eq_2)
qed simp

lemma encode_loop_shape:
  "length (encode_loop s) = 4 * ((length s + 2) div 3) \<and>
   list_all (\<lambda>c. is_base64 c \<or> c = pad_char) (encode_loop s)"
proof (induction s rule: encode_loop.induct)
  case (1 a b c rest)
  obtain p q r s where pq: "char_array_4 a b c = [p, q, r, s]" using four_indices by blast
  have "(5 + length rest) div 3 = Suc (Suc (Suc (length rest)) div 3)" by presburger
  then show ?case using 1 by (simp add: pq three_octets [OF pq] base64_alphabet)
next
  case (2 a b)
  obtain p q r s where pq: "char_array_4 a b 0 = [p, q, r, s]" using four_indices by blast
  show ?case by (simp add: pq three_octets [OF pq] base64_alphabet)
next
  case (3 a)
  obtain p q r s where pq: "char_array_4 a 0 0 = [p, q, r, s]" using four_indices by blast
  show ?case by (simp add: pq three_octets [OF pq] base64_alphabet)
qed simp

subsection \<open>Properties\<close>



end
