(* ===== verification/Cpp_Text.thy ===== *)
theory Cpp_Text
  imports Prelude "HOL-Library.Char_ord" "HOL-Library.List_Lexorder"
begin

text \<open>
  The parts of the C++ library the text handling of the plugin rests on: character classes, decimal
  numbers, formatted and line-wise extraction from an input stream (a stream is the text left in its
  buffer), and \<^verbatim>\<open>std::map\<close> with \<^verbatim>\<open>std::string\<close> keys as an association list in key order.
\<close>

subsection \<open>Characters and decimal numbers\<close>

definition is_digit :: "char \<Rightarrow> bool" where
  "is_digit c \<longleftrightarrow> 48 \<le> (of_char c :: nat) \<and> (of_char c :: nat) \<le> 57"

definition is_space :: "char \<Rightarrow> bool" where
  "is_space c \<longleftrightarrow> (of_char c :: nat) = 32 \<or> (9 \<le> (of_char c :: nat) \<and> (of_char c :: nat) \<le> 13)"

definition digit_value :: "char \<Rightarrow> nat" where
  "digit_value c = of_char c - 48"

definition digits_value :: "string \<Rightarrow> nat" where
  "digits_value ds = foldl (\<lambda>n d. 10 * n + digit_value d) 0 ds"

text \<open>\<^verbatim>\<open>operator<<\<close> of an unsigned integer.\<close>

fun decimal :: "nat \<Rightarrow> string" where
  "decimal n = (if n < 10 then [char_of (48 + n)] else decimal (n div 10) @ [char_of (48 + n mod 10)])"

declare decimal.simps [simp del]

lemma digit_char:
  assumes "n < 10"
  shows "is_digit (char_of (48 + n)) \<and> digit_value (char_of (48 + n)) = n"
proof -
  have "of_char (char_of (48 + n) :: char) = (48 + n :: nat)" using assms by simp
  then show ?thesis using assms by (simp add: is_digit_def digit_value_def)
qed

lemma digits_value_snoc: "digits_value (ds @ [d]) = 10 * digits_value ds + digit_value d"
  by (simp add: digits_value_def)

lemma decimal_digits: "list_all is_digit (decimal n) \<and> digits_value (decimal n) = n \<and> decimal n \<noteq> []"
proof (induction n rule: decimal.induct)
  case (1 n)
  show ?case
  proof (cases "n < 10")
    case True
    then show ?thesis using digit_char [of n] by (simp add: decimal.simps [of n] digits_value_def)
  next
    case False
    moreover have "is_digit (char_of (48 + n mod 10)) \<and> digit_value (char_of (48 + n mod 10)) = n mod 10"
      by (rule digit_char) simp
    ultimately show ?thesis
      using 1 by (simp add: decimal.simps [of n] digits_value_snoc del: char_of_take_bit_eq)
  qed
qed

lemma digit_not: "is_digit c \<Longrightarrow>
    c \<noteq> CHR 0x00 \<and> \<not> is_space c \<and> c \<noteq> CHR ''-'' \<and> c \<noteq> CHR ''+'' \<and> c \<noteq> CHR ''/''"
  by (auto simp: is_digit_def is_space_def)

lemma takeWhile_list_all: "list_all P xs \<Longrightarrow> takeWhile P xs = xs"
  by (induction xs) simp_all

subsection \<open>Input streams\<close>

text \<open>\<^verbatim>\<open>getline\<close>: the text up to the next line feed, which is taken out; fails at the end of the stream.\<close>

definition getline :: "string \<Rightarrow> (string \<times> string) option" where
  "getline s =
     (if s = [] then None
      else Some (takeWhile (\<lambda>c. c \<noteq> CHR 0x0A) s, drop 1 (dropWhile (\<lambda>c. c \<noteq> CHR 0x0A) s)))"

text \<open>\<^verbatim>\<open>operator>>\<close> into a string: white space is skipped, a word is taken; fails when there is none.\<close>

definition extract_word :: "string \<Rightarrow> string \<times> bool \<times> string" where
  "extract_word s =
     (let t = dropWhile is_space s; w = takeWhile (\<lambda>c. \<not> is_space c) t
      in (w, w \<noteq> [], dropWhile (\<lambda>c. \<not> is_space c) t))"

text \<open>
  \<^verbatim>\<open>operator>>\<close> into an \<^verbatim>\<open>unsigned short\<close>: white space, a sign, digits. Without digits the value is 0 and
  the stream fails; above 65535 the value is 65535 and the stream fails; a minus sign negates the
  number modulo 2 to the 16th.
\<close>

definition extract_ushort :: "string \<Rightarrow> u16 \<times> bool \<times> string" where
  "extract_ushort s =
     (let t = dropWhile is_space s;
          (neg, t') = (case t of
             c # cs \<Rightarrow> if c = CHR ''-'' then (True, cs) else if c = CHR ''+'' then (False, cs) else (False, t)
           | [] \<Rightarrow> (False, []));
          ds = takeWhile is_digit t'; rest = dropWhile is_digit t'; n = digits_value ds
      in if ds = [] then (0, False, rest)
         else if n > 65535 then (65535, False, rest)
         else (if neg then - of_nat n else of_nat n, True, rest))"

lemma takeWhile_dropWhile_stop:
  "list_all P xs \<Longrightarrow> \<not> P c \<Longrightarrow> takeWhile P (xs @ c # ys) = xs \<and> dropWhile P (xs @ c # ys) = c # ys"
  by (induction xs) simp_all

lemma getline_line: "CHR 0x0A \<notin> set l \<Longrightarrow> getline (l @ CHR 0x0A # rest) = Some (l, rest)"
proof -
  assume "CHR 0x0A \<notin> set l"
  then have "list_all (\<lambda>c. c \<noteq> CHR 0x0A) l" by (auto simp: list_all_iff)
  from takeWhile_dropWhile_stop [OF this, of "CHR 0x0A" rest] show ?thesis by (simp add: getline_def)
qed

lemma extract_word_word:
  assumes "list_all (\<lambda>c. \<not> is_space c) w" "w \<noteq> []" "is_space c"
  shows "extract_word (w @ c # rest) = (w, True, c # rest)"
proof -
  obtain d ds where "w = d # ds" using assms(2) by (cases w) auto
  then have "dropWhile is_space (w @ c # rest) = w @ c # rest" using assms(1) by simp
  then show ?thesis
    using takeWhile_dropWhile_stop [of "\<lambda>c. \<not> is_space c" w c rest] assms
    by (simp add: extract_word_def)
qed

lemma extract_ushort_decimal:
  assumes "n < 65536" "\<not> is_digit c"
  shows "extract_ushort (CHR '' '' # decimal n @ c # rest) = (of_nat n, True, c # rest)"
proof -
  obtain d ds where d: "decimal n = d # ds" using decimal_digits [of n] by (cases "decimal n") auto
  have dd: "is_digit d" using decimal_digits [of n] d by simp
  have "is_space CHR '' ''" by (simp add: is_space_def)
  then have "dropWhile is_space (CHR '' '' # decimal n @ c # rest) = decimal n @ c # rest"
    using digit_not [OF dd] by (simp add: d)
  moreover have "takeWhile is_digit (decimal n @ c # rest) = decimal n"
    "dropWhile is_digit (decimal n @ c # rest) = c # rest"
    using takeWhile_dropWhile_stop [of is_digit "decimal n" c rest] decimal_digits [of n] assms(2) by simp_all
  ultimately show ?thesis
    using digit_not [OF dd] decimal_digits [of n] assms(1) by (simp add: extract_ushort_def d)
qed

subsection \<open>Ordered maps\<close>

text \<open>\<^verbatim>\<open>std::map::insert\<close> leaves an entry that is already there; \<^verbatim>\<open>operator[]\<close> makes a missing one.\<close>

fun map_insert :: "'k::linorder \<Rightarrow> 'v \<Rightarrow> ('k \<times> 'v) list \<Rightarrow> ('k \<times> 'v) list" where
  "map_insert k v [] = [(k, v)]"
| "map_insert k v ((k', v') # m) =
     (if k < k' then (k, v) # (k', v') # m
      else if k = k' then (k', v') # m
      else (k', v') # map_insert k v m)"

definition map_index :: "'v \<Rightarrow> 'k::linorder \<Rightarrow> ('k \<times> 'v) list \<Rightarrow> 'v \<times> ('k \<times> 'v) list" where
  "map_index dflt k m =
     (case map_of m k of Some v \<Rightarrow> (v, m) | None \<Rightarrow> (dflt, map_insert k dflt m))"

definition map_ordered :: "('k::linorder \<times> 'v) list \<Rightarrow> bool" where
  "map_ordered m \<longleftrightarrow> sorted_wrt (<) (map fst m)"

text \<open>What the users of such a map rely on, and what follows for a sequence of insertions.\<close>

locale insert_only_map =
  fixes lookup :: "'m \<Rightarrow> 'k \<Rightarrow> 'v option"
    and insert_kv :: "'k \<Rightarrow> 'v \<Rightarrow> 'm \<Rightarrow> 'm"
    and valid :: "'m \<Rightarrow> bool"
  assumes insert_valid: "valid m \<Longrightarrow> valid (insert_kv k v m)"
    and lookup_insert: "valid m \<Longrightarrow> lookup (insert_kv k v m) k' =
          (if k' = k \<and> lookup m k = None then Some v else lookup m k')"
begin

definition insert_all :: "('k \<times> 'v) list \<Rightarrow> 'm \<Rightarrow> 'm" where
  "insert_all kvs m = foldl (\<lambda>m (k, v). insert_kv k v m) m kvs"

lemma insert_all_simps [simp]:
  "insert_all [] m = m" "insert_all ((k, v) # kvs) m = insert_all kvs (insert_kv k v m)"
  by (simp_all add: insert_all_def)

lemma insert_all_valid: "valid m \<Longrightarrow> valid (insert_all kvs m)"
  by (induction kvs arbitrary: m) (auto simp: insert_valid)

lemma lookup_insert_all:
  "valid m \<Longrightarrow> lookup (insert_all kvs m) k = (case lookup m k of Some v \<Rightarrow> Some v | None \<Rightarrow> map_of kvs k)"
proof (induction kvs arbitrary: m)
  case (Cons kv kvs)
  obtain a b where kv: "kv = (a, b)" by (cases kv)
  show ?case
    using Cons.IH [of "insert_kv a b m"] Cons.prems
    by (auto simp: kv insert_valid lookup_insert split: option.splits)
qed (simp split: option.split)

end

lemma map_of_insert:
  "map_ordered m \<Longrightarrow> map_of (map_insert k v m) k' = (if k' = k \<and> map_of m k = None then Some v else map_of m k')"
proof (induction k v m rule: map_insert.induct)
  case (2 k v k1 v1 m)
  then have "k < k1 \<Longrightarrow> map_of m k = None"
    by (auto simp: map_ordered_def map_of_eq_None_iff)
  with 2 show ?case by (auto simp: map_ordered_def)
qed simp

lemma set_map_insert: "fst ` set (map_insert k v m) = insert k (fst ` set m)"
  by (induction k v m rule: map_insert.induct) auto

lemma map_insert_ordered: "map_ordered m \<Longrightarrow> map_ordered (map_insert k v m)"
proof (induction k v m rule: map_insert.induct)
  case (2 k v k1 v1 m)
  moreover have "\<forall>x \<in> fst ` set (map_insert k v m). k1 < x" if "k1 < k"
    using 2(2) that unfolding set_map_insert by (auto simp: map_ordered_def)
  ultimately show ?case by (auto simp: map_ordered_def)
qed (simp add: map_ordered_def)

interpretation std_map: insert_only_map map_of map_insert map_ordered
  by unfold_locales (auto simp: map_insert_ordered map_of_insert)

lemma map_ordered_Nil [simp]: "map_ordered []"
  by (simp add: map_ordered_def)

end
