(* ===== verification/Uri.thy ===== *)
theory Uri
  imports Cpp_Text
begin

text \<open>
  \<^verbatim>\<open>websocketpp/uri.hpp\<close>: the parsing constructor, the constructors from parts and the readers. The
  iterator is the part of the string still to read; the \<^verbatim>\<open>std::equal\<close> tests stop at the first octet that
  differs, at the latest at the string's terminator. A URI that does not parse keeps the fields set
  so far; the port and the flag, which the code leaves unset then, are 0 and false here.
\<close>

record uri =
  m_scheme :: string
  m_host :: string
  m_resource :: string
  m_port :: u16
  m_secure :: bool
  m_valid :: bool

definition uri_default_port :: u16 where "uri_default_port = 80"
definition uri_default_secure_port :: u16 where "uri_default_secure_port = 443"

subsection \<open>Library routines\<close>

text \<open>
  \<^verbatim>\<open>atoi(s.c_str())\<close>: the octets before the first NUL, white space, a sign, digits. As on the 64-bit
  hosts, \<^verbatim>\<open>strtol\<close> saturates at 64 bits and the result is cut to 32.
\<close>

definition atoi :: "string \<Rightarrow> 32 word" where
  "atoi s =
     (let t = dropWhile is_space (takeWhile (\<lambda>c. c \<noteq> CHR 0x00) s);
          (neg, t') = (case t of
             c # cs \<Rightarrow> if c = CHR ''-'' then (True, cs) else if c = CHR ''+'' then (False, cs) else (False, t)
           | [] \<Rightarrow> (False, []));
          n = int (digits_value (takeWhile is_digit t'));
          v = (if neg then max (- n) (- (2 ^ 63)) else min n (2 ^ 63 - 1))
      in of_int v)"

subsection \<open>Ports\<close>

definition default_port :: "bool \<Rightarrow> u16" where
  "default_port secure = (if secure then uri_default_secure_port else uri_default_port)"

text \<open>The port, and whether the code set the error \<^verbatim>\<open>invalid_port\<close>.\<close>

definition get_port_from_string :: "bool \<Rightarrow> string \<Rightarrow> u16 \<times> bool" where
  "get_port_from_string secure port =
     (if port = '''' then (default_port secure, False)
      else let t_port = atoi port in (ucast t_port, t_port > 65535 \<or> t_port = 0))"

subsection \<open>The parsing constructor\<close>

definition starts_with :: "string \<Rightarrow> string \<Rightarrow> bool" where
  "starts_with p s \<longleftrightarrow> take (length p) s = p"

text \<open>The scheme: the flag, its name and the rest of the string.\<close>

definition parse_scheme :: "string \<Rightarrow> (bool \<times> string \<times> string) option" where
  "parse_scheme s =
     (if starts_with ''wss://'' s then Some (True, ''wss'', drop 6 s)
      else if starts_with ''ws://'' s then Some (False, ''ws'', drop 5 s)
      else if starts_with ''http://'' s then Some (False, ''http'', drop 7 s)
      else if starts_with ''https://'' s then Some (True, ''https'', drop 8 s)
      else None)"

text \<open>States of the parser: 0 in the host, 1 before a port, 2 after the host, 3 after the port.\<close>

fun parse_host :: "string \<Rightarrow> string \<times> nat \<times> string" where
  "parse_host [] = ([], 2, [])"
| "parse_host (c # cs) =
     (if c = CHR ''/'' then ([], 2, cs)
      else if c = CHR '':'' then ([], 1, cs)
      else let (host, state, rest) = parse_host cs in (c # host, state, rest))"

text \<open>An IPv6 literal; the host is set before the octet behind the bracket is looked at.\<close>

definition parse_literal :: "string \<Rightarrow> string \<times> (nat \<times> string) option" where
  "parse_literal s =
     (let host = takeWhile (\<lambda>c. c \<noteq> CHR '']'') s; temp = dropWhile (\<lambda>c. c \<noteq> CHR '']'') s in
      case temp of
        [] \<Rightarrow> ([], None)
      | _ # it \<Rightarrow>
          (host,
           case it of
             [] \<Rightarrow> Some (2, [])
           | c # cs \<Rightarrow> if c = CHR ''/'' then Some (2, cs) else if c = CHR '':'' then Some (1, cs) else None))"

fun parse_port :: "string \<Rightarrow> string \<times> string" where
  "parse_port [] = ([], [])"
| "parse_port (c # cs) =
     (if c = CHR ''/'' then ([], cs) else let (port, rest) = parse_port cs in (c # port, rest))"

definition parse_uri :: "string \<Rightarrow> uri" where
  "parse_uri uri_string =
     (case parse_scheme uri_string of
        None \<Rightarrow> \<lparr>m_scheme = [], m_host = [], m_resource = [], m_port = 0, m_secure = False, m_valid = False\<rparr>
      | Some (secure, scheme, it) \<Rightarrow>
          let (host, after_host) =
                (case it of
                   c # cs \<Rightarrow> if c = CHR ''['' then parse_literal cs
                             else let (h, state, rest) = parse_host it in (h, Some (state, rest))
                 | [] \<Rightarrow> let (h, state, rest) = parse_host it in (h, Some (state, rest)));
              failed = \<lparr>m_scheme = scheme, m_host = host, m_resource = [], m_port = 0, m_secure = secure,
                        m_valid = False\<rparr>
          in case after_host of
               None \<Rightarrow> failed
             | Some (state, rest) \<Rightarrow>
                 let (port, rest') = (if state = 1 then parse_port rest else ([], rest));
                     (p, ec) = get_port_from_string secure port
                 in if ec then failed\<lparr>m_port := p\<rparr>
                    else failed\<lparr>m_port := p, m_resource := ''/'' @ rest', m_valid := True\<rparr>)"

subsection \<open>Constructors from parts\<close>

definition or_slash :: "string \<Rightarrow> string" where
  "or_slash resource = (if resource = '''' then ''/'' else resource)"

definition uri_parts :: "bool \<Rightarrow> string \<Rightarrow> u16 \<Rightarrow> string \<Rightarrow> uri" where
  "uri_parts secure host port resource =
     \<lparr>m_scheme = (if secure then ''wss'' else ''ws''), m_host = host, m_resource = or_slash resource,
      m_port = port, m_secure = secure, m_valid = True\<rparr>"

definition uri_default :: "bool \<Rightarrow> string \<Rightarrow> string \<Rightarrow> uri" where
  "uri_default secure host resource = uri_parts secure host (default_port secure) resource"

definition uri_port_string :: "bool \<Rightarrow> string \<Rightarrow> string \<Rightarrow> string \<Rightarrow> uri" where
  "uri_port_string secure host port resource =
     (let (p, ec) = get_port_from_string secure port
      in \<lparr>m_scheme = (if secure then ''wss'' else ''ws''), m_host = host, m_resource = or_slash resource,
          m_port = p, m_secure = secure, m_valid = \<not> ec\<rparr>)"

definition scheme_secure :: "string \<Rightarrow> bool" where
  "scheme_secure scheme \<longleftrightarrow> scheme = ''wss'' \<or> scheme = ''https''"

definition uri_scheme_parts :: "string \<Rightarrow> string \<Rightarrow> u16 \<Rightarrow> string \<Rightarrow> uri" where
  "uri_scheme_parts scheme host port resource =
     \<lparr>m_scheme = scheme, m_host = host, m_resource = or_slash resource, m_port = port,
      m_secure = scheme_secure scheme, m_valid = True\<rparr>"

definition uri_scheme_default :: "string \<Rightarrow> string \<Rightarrow> string \<Rightarrow> uri" where
  "uri_scheme_default scheme host resource =
     uri_scheme_parts scheme host (default_port (scheme_secure scheme)) resource"

definition uri_scheme_port_string :: "string \<Rightarrow> string \<Rightarrow> string \<Rightarrow> string \<Rightarrow> uri" where
  "uri_scheme_port_string scheme host port resource =
     (let (p, ec) = get_port_from_string (scheme_secure scheme) port
      in \<lparr>m_scheme = scheme, m_host = host, m_resource = or_slash resource, m_port = p,
          m_secure = scheme_secure scheme, m_valid = \<not> ec\<rparr>)"

subsection \<open>Readers\<close>

definition get_port_str :: "uri \<Rightarrow> string" where
  "get_port_str u = decimal (unat (m_port u))"

definition get_authority :: "uri \<Rightarrow> string" where
  "get_authority u = m_host u @ '':'' @ decimal (unat (m_port u))"

definition get_host_port :: "uri \<Rightarrow> string" where
  "get_host_port u = (if m_port u = default_port (m_secure u) then m_host u else get_authority u)"

definition uri_str :: "uri \<Rightarrow> string" where
  "uri_str u =
     m_scheme u @ ''://'' @ m_host u @
     (if m_port u \<noteq> default_port (m_secure u) then '':'' @ decimal (unat (m_port u)) else []) @ m_resource u"

definition get_query :: "uri \<Rightarrow> string" where
  "get_query u =
     (case dropWhile (\<lambda>c. c \<noteq> CHR ''?'') (m_resource u) of [] \<Rightarrow> [] | _ # query \<Rightarrow> query)"

subsection \<open>Ports as numbers\<close>

text \<open>A string of digits: its value, saturated and cut to 32 bits.\<close>

lemma atoi_digits:
  assumes "list_all is_digit ds" "ds \<noteq> []"
  shows "atoi ds = of_nat (min (digits_value ds) (2 ^ 63 - 1))"
proof -
  obtain c cs where ds: "ds = c # cs" using assms(2) by (cases ds) auto
  have "list_all (\<lambda>c. c \<noteq> CHR 0x00) ds" using assms(1) digit_not by (auto simp: list_all_iff)
  then have "takeWhile (\<lambda>c. c \<noteq> CHR 0x00) ds = ds" by (rule takeWhile_list_all)
  moreover have "\<not> is_space c" "c \<noteq> CHR ''-''" "c \<noteq> CHR ''+''"
    using assms(1) digit_not ds by simp_all
  moreover have "takeWhile is_digit ds = ds" using assms(1) by (rule takeWhile_list_all)
  ultimately show ?thesis by (simp add: atoi_def Let_def ds min_def)
qed

lemma port_of_decimal:
  assumes "unat port \<noteq> 0"
  shows "get_port_from_string secure (decimal (unat port)) = (port, False)"
proof -
  have u: "unat port < 65536" using unsigned_less [of port] by simp
  have a: "atoi (decimal (unat port)) = of_nat (unat port)"
    using atoi_digits [of "decimal (unat port)"] decimal_digits u by simp
  have v: "unat (of_nat (unat port) :: 32 word) = unat port" using u by (intro unat_of_nat_small) simp
  then have c: "ucast (of_nat (unat port) :: 32 word) = port" by (metis of_nat_unat ucast_id)
  show ?thesis
    unfolding get_port_from_string_def a Let_def c
    using decimal_digits [of "unat port"] v u assms
    by (auto simp: word_less_nat_alt word_unat_eq_iff)
qed

subsection \<open>Printing and parsing\<close>

lemma parse_host_stop:
  assumes "\<forall>c \<in> set host. c \<noteq> CHR ''/'' \<and> c \<noteq> CHR '':''"
  shows "parse_host (host @ CHR ''/'' # rest) = (host, 2, rest)"
    and "parse_host (host @ CHR '':'' # rest) = (host, 1, rest)"
  using assms by (induction host) auto

lemma parse_port_stop: "\<forall>c \<in> set port. c \<noteq> CHR ''/'' \<Longrightarrow> parse_port (port @ CHR ''/'' # rest) = (port, rest)"
  by (induction port) auto

lemma parse_scheme_known:
  "scheme \<in> {''ws'', ''wss'', ''http'', ''https''} \<Longrightarrow>
     parse_scheme (scheme @ ''://'' @ s) = Some (scheme_secure scheme, scheme, s)"
  by (elim insertE emptyE) (simp_all add: parse_scheme_def starts_with_def scheme_secure_def)

lemma or_slash_shape:
  "resource = '''' \<or> (\<exists>r. resource = ''/'' @ r) \<Longrightarrow> \<exists>r. or_slash resource = CHR ''/'' # r"
  by (auto simp: or_slash_def)

definition plain_host :: "string \<Rightarrow> bool" where
  "plain_host host \<longleftrightarrow> (\<forall>c \<in> set host. c \<noteq> CHR ''/'' \<and> c \<noteq> CHR '':'') \<and> \<not> starts_with ''['' host"

text \<open>The host branch of the parser for a host that is no literal.\<close>

lemma parse_plain_host:
  assumes "plain_host host" "c = CHR ''/'' \<or> c = CHR '':''"
  shows "(case host @ c # rest of
           d # cs \<Rightarrow> if d = CHR ''['' then parse_literal cs
                     else let (h, state, rest) = parse_host (host @ c # rest) in (h, Some (state, rest))
         | [] \<Rightarrow> let (h, state, rest) = parse_host (host @ c # rest) in (h, Some (state, rest)))
       = (host, Some (if c = CHR ''/'' then 2 else 1, rest))"
proof -
  have "parse_host (host @ c # rest) = (host, if c = CHR ''/'' then 2 else 1, rest)"
    using parse_host_stop [of host rest] assms by (auto simp: plain_host_def)
  then show ?thesis
    using assms by (cases host) (auto simp: plain_host_def starts_with_def)
qed

subsection \<open>Properties\<close>



text \<open>
  A port string of digits is read modulo 2 to the 32nd (after saturation at 2 to the 63rd minus 1),
  and is refused exactly when that number is 0 or more than 65535; so some numbers far above 65535,
  such as 4294967376, are accepted as another port.
\<close>

theorem port_string_value:
  assumes "list_all is_digit ds" "ds \<noteq> []"
  defines "v \<equiv> min (digits_value ds) (2 ^ 63 - 1) mod 2 ^ 32"
  shows "get_port_from_string secure ds = (of_nat v, v = 0 \<or> v > 65535)"
proof -
  have a: "atoi ds = of_nat (min (digits_value ds) (2 ^ 63 - 1))" using assms(1,2) by (rule atoi_digits)
  then have u: "unat (atoi ds) = v" by (simp add: v_def unat_of_nat)
  then have "(ucast (atoi ds) :: u16) = of_nat v" by (metis of_nat_unat)
  moreover have "atoi ds > 65535 \<longleftrightarrow> v > 65535" using u by (simp add: word_less_nat_alt)
  moreover have "atoi ds = 0 \<longleftrightarrow> v = 0" using u by (metis unat_eq_0)
  ultimately show ?thesis using assms(2) by (auto simp: get_port_from_string_def Let_def)
qed

theorem port_string_value_witness:
  "get_port_from_string False ''4294967376'' = (80, False)"
  using port_string_value [of "''4294967376''" False]
  by (simp add: is_digit_def digits_value_def digit_value_def)

text \<open>
  An IPv6 literal loses its brackets. Parsing \<open>ws://[h]/r\<close> gives the host \<open>h\<close>, and the string the
  URI prints is \<open>ws://h/r\<close>; for the loopback address it does not parse again.
\<close>

theorem ipv6_literal_unbracketed:
  assumes "\<forall>c \<in> set h. c \<noteq> CHR '']''"
  shows "let u = parse_uri (''ws://['' @ h @ '']/'' @ r)
    in m_valid u \<and> m_host u = h \<and> get_host_port u = h \<and> uri_str u = ''ws://'' @ h @ ''/'' @ r"
proof -
  have s: "parse_scheme (''ws://['' @ h @ '']/'' @ r) = Some (False, ''ws'', CHR ''['' # h @ CHR '']'' # CHR ''/'' # r)"
    using parse_scheme_known [of "''ws''" "CHR ''['' # h @ CHR '']'' # CHR ''/'' # r"] by (simp add: scheme_secure_def)
  have l: "parse_literal (h @ CHR '']'' # CHR ''/'' # r) = (h, Some (2, r))"
    using assms by (simp add: parse_literal_def takeWhile_append2 dropWhile_append2)
  show ?thesis
    unfolding parse_uri_def s
    by (simp add: l get_port_from_string_def get_host_port_def uri_str_def)
qed

theorem ipv6_literal_unbracketed_witness:
  "let u = parse_uri (''ws://['' @ ''::1'' @ '']/'' @ ''x'')
    in m_valid u \<and> m_host u = ''::1'' \<and> get_host_port u = ''::1'' \<and> uri_str u = ''ws://'' @ ''::1'' @ ''/'' @ ''x''"
  by (rule ipv6_literal_unbracketed) simp

end
