(* ===== verification/Xml_Http_Request.thy ===== *)
theory Xml_Http_Request
  imports Uri
begin

text \<open>
  \<^verbatim>\<open>FlintXmlHttpRequestAPI\<close>: the object the plugin gives scripts as a replacement for the browser's
  XMLHttpRequest. The state machine runs on completion handlers: every call of the transport
  (\<^verbatim>\<open>boost::asio\<close>) adds an operation to \<open>pending\<close>, and its completion removes it and runs the handler.
  What the transport delivers and what the script's callback does (\<open>notify\<close>, run synchronously) are
  parameters, and so is the base64 encoder of \<^verbatim>\<open>boost::archive\<close>. Log output is left out.

  A handler that steps an iterator out of its range or dereferences the end has no defined result;
  its value is \<open>None\<close>.
\<close>

subsection \<open>State\<close>

datatype xhr_state = Unsent | Opened | HeadersReceived | Loading | Done

fun xhr_state_value :: "xhr_state \<Rightarrow> nat" where
  "xhr_state_value Unsent = 0"
| "xhr_state_value Opened = 1"
| "xhr_state_value HeadersReceived = 2"
| "xhr_state_value Loading = 3"
| "xhr_state_value Done = 4"

datatype io_error = Eof | Failed nat

datatype 'e operation =
    Resolving string string
  | Connecting 'e "'e list"
  | Writing string
  | Reading_status
  | Reading_headers
  | Reading_all
  | Reading_some

record 'e xhr =
  socket_open :: bool
  requestBuf :: string
  responseBuf :: string
  aborted :: bool
  requestHeaders :: "(string \<times> string) list"
  statusCode :: u16
  statusText :: string
  responseHeaders :: "(string \<times> string) list"
  ready_state :: xhr_state
  req_method :: string
  url :: uri
  async :: bool
  callback :: bool
  pending :: "'e operation list"
  notified :: "xhr_state list"

text \<open>The constructor sets neither the state nor \<^verbatim>\<open>aborted_\<close>, \<^verbatim>\<open>statusCode_\<close> and \<^verbatim>\<open>async_\<close>.\<close>

definition make_xhr :: "xhr_state \<Rightarrow> bool \<Rightarrow> u16 \<Rightarrow> bool \<Rightarrow> 'e xhr" where
  "make_xhr state0 aborted0 code0 async0 =
     \<lparr>socket_open = False, requestBuf = [], responseBuf = [], aborted = aborted0, requestHeaders = [],
      statusCode = code0, statusText = [], responseHeaders = [], ready_state = state0, req_method = [],
      url = parse_uri [], async = async0, callback = False, pending = [], notified = []\<rparr>"

definition start_op :: "'e operation \<Rightarrow> 'e xhr \<Rightarrow> 'e xhr" where
  "start_op op x = x\<lparr>pending := pending x @ [op]\<rparr>"

definition change_state :: "('e xhr \<Rightarrow> 'e xhr) \<Rightarrow> xhr_state \<Rightarrow> 'e xhr \<Rightarrow> 'e xhr" where
  "change_state notify s x =
     (if ready_state x \<noteq> s then
        let x' = x\<lparr>ready_state := s\<rparr> in
        if callback x' then notify (x'\<lparr>notified := notified x' @ [s]\<rparr>) else x'
      else x)"

definition abort :: "'e xhr \<Rightarrow> 'e xhr" where
  "abort x = (let x' = (if socket_open x then x\<lparr>socket_open := False\<rparr> else x) in x'\<lparr>aborted := True\<rparr>)"

subsection \<open>Calls from scripts\<close>

definition to_lower_char :: "char \<Rightarrow> char" where
  "to_lower_char c =
     (let n = of_char c :: nat in if 65 \<le> n \<and> n \<le> 90 then char_of (n + 32) else c)"

definition js_open ::
  "('e xhr \<Rightarrow> 'e xhr) \<Rightarrow> string \<Rightarrow> string \<Rightarrow> bool option \<Rightarrow> 'e xhr \<Rightarrow> 'e xhr" where
  "js_open notify verb address asynchronous x =
     (let x1 = (abort x)\<lparr>aborted := False, requestHeaders := [], responseHeaders := []\<rparr>;
          x2 = change_state notify Unsent x1
      in if aborted x2 then x2
         else change_state notify Opened
           (x2\<lparr>req_method := map to_lower_char verb, url := parse_uri address,
              async := (case asynchronous of Some a \<Rightarrow> a | None \<Rightarrow> True)\<rparr>))"

definition crlf :: string where
  "crlf = [CHR 0x0D, CHR 0x0A]"

definition header_lines :: "(string \<times> string) list \<Rightarrow> string" where
  "header_lines hs = concat (map (\<lambda>(k, v). k @ '': '' @ v @ crlf) hs)"

definition request_text :: "'e xhr \<Rightarrow> string \<Rightarrow> string" where
  "request_text x body =
     ''GET '' @ m_resource (url x) @ '' HTTP/1.1'' @ crlf @
     ''Host: '' @ m_host (url x) @ crlf @
     ''User-Agent: Mozilla/5.0 (Macintosh; Intel Mac OS X 10.9; rv:33.0) Gecko/20100101 Firefox/33.0'' @ crlf @
     ''Accept: text/html,application/xhtml+xml,application/xml;q=0.9,*/*;q=0.8'' @ crlf @
     ''Accept-Language: en-US,en;q=0.5'' @ crlf @
     ''Accept-Encoding: gzip, deflate'' @ crlf @
     ''Referer: '' @ uri_str (url x) @ crlf @
     ''If-Modified-Since: Thu, 13 Nov 2014 03:13:09 GMT'' @ crlf @
     ''Cache-Control: max-age=0'' @ crlf @
     header_lines (requestHeaders x) @
     ''Connection: close'' @ crlf @ crlf @
     (if req_method x = ''post'' then body else [])"

definition js_send :: "string \<Rightarrow> 'e xhr \<Rightarrow> 'e xhr" where
  "js_send body x =
     start_op (Resolving (m_host (url x)) (get_port_str (url x)))
       (x\<lparr>aborted := False, requestBuf := requestBuf x @ request_text x body\<rparr>)"

definition js_abort :: "'e xhr \<Rightarrow> 'e xhr" where
  "js_abort x = x"

definition js_set_request_header :: "string \<Rightarrow> string \<Rightarrow> 'e xhr \<Rightarrow> 'e xhr" where
  "js_set_request_header name value x = x\<lparr>requestHeaders := map_insert name value (requestHeaders x)\<rparr>"

definition js_get_all_response_headers :: "'e xhr \<Rightarrow> (string \<times> string) list" where
  "js_get_all_response_headers x = responseHeaders x"

definition js_get_response_header :: "string \<Rightarrow> 'e xhr \<Rightarrow> string \<times> 'e xhr" where
  "js_get_response_header name x =
     (let (v, m) = map_index [] name (responseHeaders x) in (v, x\<lparr>responseHeaders := m\<rparr>))"

definition js_get_ready_state :: "'e xhr \<Rightarrow> nat" where
  "js_get_ready_state x = xhr_state_value (ready_state x)"

definition js_get_callback :: "'e xhr \<Rightarrow> bool" where
  "js_get_callback x = callback x"

definition js_set_callback :: "bool \<Rightarrow> 'e xhr \<Rightarrow> 'e xhr" where
  "js_set_callback present x = x\<lparr>callback := present\<rparr>"

definition js_get_status :: "'e xhr \<Rightarrow> u16" where
  "js_get_status x = statusCode x"

definition js_get_status_text :: "'e xhr \<Rightarrow> string" where
  "js_get_status_text x = statusText x"

text \<open>The stream iterators take the octets they read out of the buffer.\<close>

definition js_get_response_text :: "(string \<Rightarrow> string) \<Rightarrow> 'e xhr \<Rightarrow> string \<times> 'e xhr" where
  "js_get_response_text base64 x = (base64 (responseBuf x), x\<lparr>responseBuf := []\<rparr>)"

subsection \<open>Completion handlers\<close>

definition connect_to :: "'e \<Rightarrow> 'e list \<Rightarrow> 'e xhr \<Rightarrow> 'e xhr" where
  "connect_to ep rest x = start_op (Connecting ep rest) (x\<lparr>socket_open := True\<rparr>)"

definition handle_resolve :: "io_error option \<Rightarrow> 'e list \<Rightarrow> 'e xhr \<Rightarrow> 'e xhr option" where
  "handle_resolve err endpoints x =
     (case err of
        None \<Rightarrow> (case endpoints of ep # rest \<Rightarrow> Some (connect_to ep rest x) | [] \<Rightarrow> None)
      | Some e \<Rightarrow> Some x)"

definition handle_connect :: "io_error option \<Rightarrow> 'e list \<Rightarrow> 'e xhr \<Rightarrow> 'e xhr" where
  "handle_connect err endpoints x =
     (case err of
        None \<Rightarrow> start_op (Writing (requestBuf x)) x
      | Some e \<Rightarrow>
          (case endpoints of
             ep # rest \<Rightarrow> connect_to ep rest (x\<lparr>socket_open := False\<rparr>)
           | [] \<Rightarrow> x))"

definition handle_write_request :: "io_error option \<Rightarrow> 'e xhr \<Rightarrow> 'e xhr" where
  "handle_write_request err x = (case err of None \<Rightarrow> start_op Reading_status x | Some e \<Rightarrow> x)"

text \<open>Once an extraction has failed the stream gives nothing more.\<close>

definition handle_read_status_line :: "io_error option \<Rightarrow> 'e xhr \<Rightarrow> 'e xhr" where
  "handle_read_status_line err x =
     (case err of
        Some e \<Rightarrow> x
      | None \<Rightarrow>
          let (version, ok, s1) = extract_word (responseBuf x) in
          if \<not> ok then x\<lparr>responseBuf := s1\<rparr>
          else let (code, ok, s2) = extract_ushort s1; x1 = x\<lparr>responseBuf := s2, statusCode := code\<rparr> in
          if \<not> ok then x1
          else case getline s2 of
              None \<Rightarrow> x1\<lparr>statusText := []\<rparr>
            | Some (line, s3) \<Rightarrow>
                let x2 = x1\<lparr>responseBuf := s3, statusText := line\<rparr> in
                if take 5 version \<noteq> ''HTTP/'' then x2 else start_op Reading_headers x2)"

text \<open>\<^verbatim>\<open>std::search\<close> for the separator: the text before it, and the text from it on.\<close>

fun search_separator :: "string \<Rightarrow> string \<times> string" where
  "search_separator [] = ([], [])"
| "search_separator (c # cs) =
     (if take 2 (c # cs) = '': '' then ([], c # cs)
      else let (before, from_sep) = search_separator cs in (c # before, from_sep))"

text \<open>
  One header line: cut at the carriage return and split at the separator. Without one the value
  would begin two octets behind the end.
\<close>

definition parse_header :: "string \<Rightarrow> (string \<times> string) option" where
  "parse_header line =
     (let header = takeWhile (\<lambda>c. c \<noteq> CHR 0x0D) line; (key, from_sep) = search_separator header
      in if from_sep = [] then None else Some (key, drop 2 from_sep))"

function read_headers ::
  "string \<Rightarrow> (string \<times> string) list \<Rightarrow> ((string \<times> string) list \<times> string) option" where
  "read_headers s hs =
     (case getline s of
        None \<Rightarrow> Some (hs, s)
      | Some (line, rest) \<Rightarrow>
          if line = [CHR 0x0D] then Some (hs, rest)
          else case parse_header line of
              None \<Rightarrow> None
            | Some (key, value) \<Rightarrow> read_headers rest (map_insert key value hs))"
  by pat_completeness auto
termination
proof (relation "measure (\<lambda>(s, hs). length s)", goal_cases)
  case (2 s hs p line rest q k v)
  then have "s \<noteq> []" "rest = drop 1 (dropWhile (\<lambda>c. c \<noteq> CHR 0x0A) s)"
    by (auto simp: getline_def split: if_splits)
  moreover have "length (dropWhile (\<lambda>c. c \<noteq> CHR 0x0A) s) \<le> length s" by (rule length_dropWhile_le)
  ultimately show ?case by (cases s) auto
qed simp

declare read_headers.simps [simp del]

definition handle_read_headers ::
  "('e xhr \<Rightarrow> 'e xhr) \<Rightarrow> io_error option \<Rightarrow> 'e xhr \<Rightarrow> 'e xhr option" where
  "handle_read_headers notify err x =
     (case err of
        Some e \<Rightarrow> Some x
      | None \<Rightarrow>
          (case read_headers (responseBuf x) (responseHeaders x) of
             None \<Rightarrow> None
           | Some (hs, rest) \<Rightarrow>
               Some (start_op Reading_all
                 (change_state notify HeadersReceived (x\<lparr>responseBuf := rest, responseHeaders := hs\<rparr>)))))"

definition handle_read_content ::
  "('e xhr \<Rightarrow> 'e xhr) \<Rightarrow> io_error option \<Rightarrow> 'e xhr \<Rightarrow> 'e xhr" where
  "handle_read_content notify err x =
     (case err of
        None \<Rightarrow> change_state notify Loading (start_op Reading_some x)
      | Some Eof \<Rightarrow> change_state notify Done x
      | Some (Failed n) \<Rightarrow> x)"

subsection \<open>The object and its transport\<close>

text \<open>What a completion brings: an error or not, endpoints, octets written, octets read.\<close>

datatype 'e completion =
    Resolved "io_error option" "'e list"
  | Connected "io_error option"
  | Written "io_error option" nat
  | Received "io_error option" string

definition receive :: "string \<Rightarrow> 'e xhr \<Rightarrow> 'e xhr" where
  "receive octets x = x\<lparr>responseBuf := responseBuf x @ octets\<rparr>"

text \<open>The handler a completed operation runs; the write consumes what it wrote from the buffer.\<close>

fun complete_op ::
  "('e xhr \<Rightarrow> 'e xhr) \<Rightarrow> 'e operation \<Rightarrow> 'e completion \<Rightarrow> 'e xhr \<Rightarrow> 'e xhr option" where
  "complete_op notify (Resolving host port) (Resolved err eps) x = handle_resolve err eps x"
| "complete_op notify (Connecting ep rest) (Connected err) x = Some (handle_connect err rest x)"
| "complete_op notify (Writing octets) (Written err n) x =
     Some (handle_write_request err (x\<lparr>requestBuf := drop n (requestBuf x)\<rparr>))"
| "complete_op notify Reading_status (Received err octets) x =
     Some (handle_read_status_line err (receive octets x))"
| "complete_op notify Reading_headers (Received err octets) x =
     handle_read_headers notify err (receive octets x)"
| "complete_op notify Reading_all (Received err octets) x =
     Some (handle_read_content notify err (receive octets x))"
| "complete_op notify Reading_some (Received err octets) x =
     Some (handle_read_content notify err (receive octets x))"
| "complete_op notify _ _ x = None"

text \<open>
  What \<^verbatim>\<open>boost::asio\<close> documents: a resolved name has an endpoint, a successful write wrote everything, a
  successful read-until has its delimiter in the buffer, and a read with \<^verbatim>\<open>transfer_all\<close> into a
  buffer without a size limit ends only with an error.
\<close>

definition has_text :: "string \<Rightarrow> string \<Rightarrow> bool" where
  "has_text part s \<longleftrightarrow> (\<exists>a b. s = a @ part @ b)"

fun asio_delivers :: "'e operation \<Rightarrow> 'e completion \<Rightarrow> 'e xhr \<Rightarrow> bool" where
  "asio_delivers (Resolving host port) (Resolved err eps) x = (err = None \<longrightarrow> eps \<noteq> [])"
| "asio_delivers (Connecting ep rest) (Connected err) x = True"
| "asio_delivers (Writing octets) (Written err n) x =
     (n \<le> length octets \<and> (err = None \<longrightarrow> n = length octets))"
| "asio_delivers Reading_status (Received err octets) x = (err = None \<longrightarrow> has_text crlf (responseBuf x @ octets))"
| "asio_delivers Reading_headers (Received err octets) x =
     (err = None \<longrightarrow> has_text (crlf @ crlf) (responseBuf x @ octets))"
| "asio_delivers Reading_all (Received err octets) x = (err \<noteq> None)"
| "asio_delivers Reading_some (Received err octets) x = (err = None \<longrightarrow> octets \<noteq> [])"
| "asio_delivers _ _ x = False"

definition complete_nth ::
  "('e xhr \<Rightarrow> 'e xhr) \<Rightarrow> nat \<Rightarrow> 'e completion \<Rightarrow> 'e xhr \<Rightarrow> 'e xhr option" where
  "complete_nth notify i ev x =
     complete_op notify (pending x ! i) ev (x\<lparr>pending := take i (pending x) @ drop (Suc i) (pending x)\<rparr>)"

text \<open>Scripts whose callback only looks.\<close>

inductive xhr_reachable :: "(string \<Rightarrow> string) \<Rightarrow> 'e xhr \<Rightarrow> bool" for base64 :: "string \<Rightarrow> string" where
  xr_new: "s \<noteq> Loading \<Longrightarrow> xhr_reachable base64 (make_xhr s a c d)"
| xr_open: "xhr_reachable base64 x \<Longrightarrow> xhr_reachable base64 (js_open id m u d x)"
| xr_send: "xhr_reachable base64 x \<Longrightarrow> xhr_reachable base64 (js_send body x)"
| xr_header: "xhr_reachable base64 x \<Longrightarrow> xhr_reachable base64 (js_set_request_header k v x)"
| xr_get_header: "xhr_reachable base64 x \<Longrightarrow> xhr_reachable base64 (snd (js_get_response_header k x))"
| xr_callback: "xhr_reachable base64 x \<Longrightarrow> xhr_reachable base64 (js_set_callback b x)"
| xr_text: "xhr_reachable base64 x \<Longrightarrow> xhr_reachable base64 (snd (js_get_response_text base64 x))"
| xr_complete: "xhr_reachable base64 x \<Longrightarrow> i < length (pending x) \<Longrightarrow> asio_delivers (pending x ! i) ev x \<Longrightarrow>
     complete_nth id i ev x = Some x' \<Longrightarrow> xhr_reachable base64 x'"

inductive_cases xhr_reachableE: "xhr_reachable base64 x"

subsection \<open>Lemmas\<close>

lemma change_state_id [simp]:
  "ready_state (change_state id s x) = s" "pending (change_state id s x) = pending x"
  "responseHeaders (change_state id s x) = responseHeaders x"
  "requestHeaders (change_state id s x) = requestHeaders x"
  "aborted (change_state id s x) = aborted x"
  by (simp_all add: change_state_def Let_def)

lemma start_op_simps [simp]:
  "pending (start_op op x) = pending x @ [op]" "ready_state (start_op op x) = ready_state x"
  "responseHeaders (start_op op x) = responseHeaders x" "requestHeaders (start_op op x) = requestHeaders x"
  by (simp_all add: start_op_def)

lemma search_separator_first:
  "CHR '':'' \<notin> set key \<Longrightarrow> search_separator (key @ CHR '':'' # CHR '' '' # v) = (key, CHR '':'' # CHR '' '' # v)"
  by (induction key) (auto simp: Let_def)

definition header_text_ok :: "string \<times> string \<Rightarrow> bool" where
  "header_text_ok kv \<longleftrightarrow> CHR '':'' \<notin> set (fst kv) \<and>
     list_all (\<lambda>c. c \<noteq> CHR 0x0D \<and> c \<noteq> CHR 0x0A) (fst kv @ snd kv)"

lemma parse_header_line:
  assumes "header_text_ok (k, v)"
  shows "parse_header (k @ '': '' @ v @ [CHR 0x0D]) = Some (k, v)"
proof -
  have "list_all (\<lambda>c. c \<noteq> CHR 0x0D) (k @ '': '' @ v)"
    using assms by (auto simp: header_text_ok_def list_all_iff)
  from takeWhile_dropWhile_stop [OF this, of "CHR 0x0D" "[]"]
  have "takeWhile (\<lambda>c. c \<noteq> CHR 0x0D) (k @ '': '' @ v @ [CHR 0x0D]) = k @ '': '' @ v" by simp
  then show ?thesis
    using search_separator_first [of k v] assms by (simp add: parse_header_def header_text_ok_def)
qed

lemma read_headers_lines:
  "list_all header_text_ok kvs \<Longrightarrow>
     read_headers (header_lines kvs @ crlf @ body) hs = Some (std_map.insert_all kvs hs, body)"
proof (induction kvs arbitrary: hs)
  case Nil
  have "getline (crlf @ body) = Some ([CHR 0x0D], body)"
    using getline_line [of "[CHR 0x0D]" body] by (simp add: crlf_def)
  then show ?case by (simp add: header_lines_def read_headers.simps)
next
  case (Cons kv kvs)
  obtain k v where kv: "kv = (k, v)" by (cases kv)
  let ?rest = "header_lines kvs @ crlf @ body" and ?line = "k @ '': '' @ v @ [CHR 0x0D]"
  have ok: "header_text_ok (k, v)" using Cons.prems kv by simp
  have "CHR 0x0A \<notin> set ?line" using ok by (auto simp: header_text_ok_def list_all_iff)
  from getline_line [OF this, of ?rest]
  have "getline (header_lines (kv # kvs) @ crlf @ body) = Some (?line, ?rest)"
    by (simp add: kv header_lines_def crlf_def)
  moreover have "?line \<noteq> [CHR 0x0D]" by (simp add: append_eq_Cons_conv)
  ultimately show ?case
    using Cons parse_header_line [OF ok] by (subst read_headers.simps) (simp add: kv)
qed

subsection \<open>Properties\<close>

text \<open>
  C39: reading a response. When the buffer holds a status line, header lines and the blank line of a
  well-formed response, the two handlers leave its status code, the headers of the response (the
  first of several lines with one name, and what was there before, win) and exactly the octets of
  the body, and then change the state to HeadersReceived. The status text keeps the blank before it
  and the carriage return behind it.
\<close>

theorem response_received:
  assumes "list_all (\<lambda>c. \<not> is_space c) version" "take 5 version = ''HTTP/''" "n < 65536"
    and "CHR 0x0A \<notin> set reason" "list_all header_text_ok headers" "map_ordered (responseHeaders x)"
    and "responseBuf x = version @ '' '' @ decimal n @ '' '' @ reason @ crlf @ header_lines headers @ crlf @ body"
  shows "\<exists>x'. handle_read_headers notify None (handle_read_status_line None x) =
      Some (start_op Reading_all (change_state notify HeadersReceived x')) \<and>
    statusCode x' = of_nat n \<and> statusText x' = '' '' @ reason @ [CHR 0x0D] \<and> responseBuf x' = body \<and>
    ready_state x' = ready_state x \<and> pending x' = pending x @ [Reading_headers] \<and>
    (\<forall>k. map_of (responseHeaders x') k =
       (case map_of (responseHeaders x) k of Some v \<Rightarrow> Some v | None \<Rightarrow> map_of headers k))"
proof -
  let ?rest = "header_lines headers @ crlf @ body"
  let ?line = "'' '' @ reason @ [CHR 0x0D]"
  have sp: "is_space CHR '' ''" "\<not> is_digit CHR '' ''" by (simp_all add: is_space_def is_digit_def)
  have "version \<noteq> []" using assms(2) by auto
  note w = extract_word_word [OF assms(1) this sp(1), of "decimal n @ '' '' @ reason @ crlf @ ?rest"]
  note u = extract_ushort_decimal [OF assms(3) sp(2), of "reason @ crlf @ ?rest"]
  have "CHR 0x0A \<notin> set ?line" using assms(4) by simp
  note l = getline_line [OF this, of ?rest]
  define x1 where "x1 = x\<lparr>responseBuf := ?rest, statusCode := of_nat n, statusText := ?line,
      pending := pending x @ [Reading_headers]\<rparr>"
  have s: "handle_read_status_line None x = x1"
    using w u l assms(2,7)
    by (simp add: handle_read_status_line_def Let_def crlf_def start_op_def x1_def)
  have h: "handle_read_headers notify None x1 = Some (start_op Reading_all (change_state notify HeadersReceived
      (x1\<lparr>responseBuf := body, responseHeaders := std_map.insert_all headers (responseHeaders x)\<rparr>)))"
    using read_headers_lines [OF assms(5)] by (simp add: handle_read_headers_def x1_def)
  show ?thesis
    unfolding s h using std_map.lookup_insert_all [OF assms(6), of headers]
    by (intro exI [of _ "x1\<lparr>responseBuf := body,
        responseHeaders := std_map.insert_all headers (responseHeaders x)\<rparr>"]) (simp add: x1_def)
qed

definition sample_response :: string where
  "sample_response = ''HTTP/1.1 404 Not Found'' @ crlf @ ''A: 1'' @ crlf @ crlf @ ''gone''"

theorem response_received_witness:
  "\<exists>x'. handle_read_headers id None (handle_read_status_line None
        (receive sample_response (make_xhr Opened False 0 True :: nat xhr))) =
      Some (start_op Reading_all (change_state id HeadersReceived x')) \<and>
    statusCode x' = 404 \<and> statusText x' = '' Not Found'' @ [CHR 0x0D] \<and> responseBuf x' = ''gone''"
proof -
  have d: "decimal 404 = ''404''" by code_simp
  have c: "list_all (\<lambda>c. \<not> is_space c) ''HTTP/1.1''" "CHR 0x0A \<notin> set ''Not Found''"
    "list_all header_text_ok [(''A'', ''1'')]" by code_simp+
  show ?thesis
    using response_received [OF c(1) _ _ c(2,3), of 404
        "receive sample_response (make_xhr Opened False 0 True :: nat xhr)" "''gone''" id]
    by (auto simp: d receive_def make_xhr_def sample_response_def header_lines_def)
qed

text \<open>
  A header line without a colon followed by a blank has no defined behaviour: the value would start two
  octets behind the end of the line.
\<close>

theorem header_without_separator:
  assumes "CHR '':'' \<notin> set line" "CHR 0x0A \<notin> set line" "line \<noteq> [CHR 0x0D]"
    and "responseBuf x = line @ CHR 0x0A # rest"
  shows "handle_read_headers notify None x = None"
proof -
  have "search_separator s = (s, [])" if "CHR '':'' \<notin> set s" for s
    using that by (induction s) (auto simp: Let_def)
  moreover have "CHR '':'' \<notin> set (takeWhile (\<lambda>c. c \<noteq> CHR 0x0D) line)"
    using assms(1) set_takeWhileD by fastforce
  ultimately have "parse_header line = None" by (simp add: parse_header_def)
  then show ?thesis
    using getline_line [OF assms(2), of rest] assms(3,4)
    by (simp add: handle_read_headers_def read_headers.simps)
qed

theorem header_without_separator_witness:
  "handle_read_headers id None (receive (''garbage'' @ CHR 0x0A # crlf) (make_xhr Opened False 0 True :: nat xhr)) = None"
  by (rule header_without_separator [of "''garbage''" _ crlf]) (simp_all add: receive_def make_xhr_def)

text \<open>
  The headers of a request. However often scripts set them after \<^verbatim>\<open>open\<close>, every name is sent once, in
  the order of the names, with the value it was given first.
\<close>

theorem request_headers_first_wins:
  "let x' = foldl (\<lambda>x (k, v). js_set_request_header k v x) (js_open id verb address asynchronous x) kvs
   in map_ordered (requestHeaders x') \<and> distinct (map fst (requestHeaders x')) \<and>
      (\<forall>k. map_of (requestHeaders x') k = map_of kvs k)"
proof -
  have fold: "requestHeaders (foldl (\<lambda>x (k, v). js_set_request_header k v x) y kvs) =
      std_map.insert_all kvs (requestHeaders y)" for y :: "'a xhr"
    by (induction kvs arbitrary: y) (auto simp: js_set_request_header_def)
  have "requestHeaders (js_open id verb address asynchronous x) = []"
    by (simp add: js_open_def Let_def)
  moreover have "map_ordered (std_map.insert_all kvs [])" by (rule std_map.insert_all_valid) simp
  moreover have "distinct (map fst m)" if "map_ordered m" for m :: "(string \<times> string) list"
    using that by (simp add: map_ordered_def strict_sorted_iff)
  ultimately show ?thesis
    using std_map.lookup_insert_all [of "[]" kvs] by (simp add: fold Let_def)
qed

text \<open>
  An error of the transport stops the object without telling the script. Whatever operation fails, unless
  it is a connection attempt with endpoints left or a content read that reached the end, the handler
  changes neither the state nor what the script can read of the response's status and headers, calls
  no callback and starts nothing.
\<close>

theorem failure_is_silent:
  assumes "asio_delivers op ev x"
    and "(\<exists>eps. ev = Resolved (Some e) eps) \<or> (ev = Connected (Some e) \<and> (\<exists>ep. op = Connecting ep [])) \<or>
      (\<exists>n. ev = Written (Some e) n) \<or>
      (\<exists>octets. ev = Received (Some e) octets \<and> (op \<in> {Reading_status, Reading_headers} \<or> e \<noteq> Eof))"
  shows "\<exists>x'. complete_op notify op ev x = Some x' \<and> ready_state x' = ready_state x \<and>
    notified x' = notified x \<and> pending x' = pending x \<and> statusCode x' = statusCode x \<and>
    statusText x' = statusText x \<and> responseHeaders x' = responseHeaders x"
proof -
  obtain n where "e = Eof \<or> e = Failed n" by (cases e) auto
  then show ?thesis
    using assms
    by (cases op; cases ev)
      (auto simp: handle_resolve_def handle_connect_def handle_write_request_def handle_read_status_line_def
        handle_read_headers_def handle_read_content_def receive_def)
qed

theorem failure_is_silent_witness:
  "\<exists>x'. complete_op id Reading_headers (Received (Some Eof) ''HTTP'') (make_xhr Opened False 200 True :: nat xhr) = Some x' \<and>
    ready_state x' = ready_state (make_xhr Opened False 200 True :: nat xhr) \<and>
    notified x' = notified (make_xhr Opened False 200 True :: nat xhr) \<and>
    pending x' = pending (make_xhr Opened False 200 True :: nat xhr) \<and>
    statusCode x' = statusCode (make_xhr Opened False 200 True :: nat xhr) \<and>
    statusText x' = statusText (make_xhr Opened False 200 True :: nat xhr) \<and>
    responseHeaders x' = responseHeaders (make_xhr Opened False 200 True :: nat xhr)"
  by (rule failure_is_silent [where e = Eof]) simp_all

lemma status_line_frame:
  "ready_state (handle_read_status_line err x) = ready_state x"
  "pending (handle_read_status_line err x) \<in> {pending x, pending x @ [Reading_headers]}"
  by (simp_all add: handle_read_status_line_def case_prod_unfold Let_def split: option.split)

definition no_partial :: "'e xhr \<Rightarrow> bool" where
  "no_partial x \<longleftrightarrow> ready_state x \<noteq> Loading \<and> Reading_some \<notin> set (pending x)"

lemma no_partial_start [simp]: "op \<noteq> Reading_some \<Longrightarrow> no_partial (start_op op x) = no_partial x"
  by (simp add: no_partial_def)

lemma no_partial_cong:
  "ready_state x = ready_state y \<Longrightarrow> pending x = pending y \<Longrightarrow> no_partial x = no_partial y"
  by (simp add: no_partial_def)

lemma no_partial_handlers:
  assumes "no_partial x"
  shows "handle_resolve err eps x = Some x' \<Longrightarrow> no_partial x'"
    and "no_partial (handle_connect err eps x)"
    and "no_partial (handle_write_request err x)"
    and "no_partial (handle_read_status_line err x)"
    and "handle_read_headers id err x = Some x' \<Longrightarrow> no_partial x'"
    and "err \<noteq> None \<Longrightarrow> no_partial (handle_read_content id err x)"
  using assms status_line_frame [of err x]
  by (auto simp: handle_resolve_def handle_connect_def connect_to_def handle_write_request_def
      handle_read_headers_def handle_read_content_def no_partial_def split: option.splits list.splits io_error.splits)

lemma no_partial_complete:
  assumes "asio_delivers op ev y" "op \<noteq> Reading_some" "no_partial x" "complete_op id op ev x = Some x'"
  shows "no_partial x'"
proof -
  have r: "no_partial (receive octets x)" "no_partial (x\<lparr>requestBuf := b\<rparr>)" for octets b
    using assms(3) by (simp_all add: no_partial_def receive_def)
  show ?thesis
    using assms no_partial_handlers [OF assms(3)] no_partial_handlers [OF r(1)] no_partial_handlers [OF r(2)]
    by (cases op; cases ev) auto
qed

lemma never_partial: "xhr_reachable base64 x \<Longrightarrow> no_partial x"
proof (induction rule: xhr_reachable.induct)
  case (xr_complete x i ev x')
  let ?y = "x\<lparr>pending := take i (pending x) @ drop (Suc i) (pending x)\<rparr>"
  have "no_partial ?y"
    using xr_complete.IH set_take_subset [of i "pending x"] set_drop_subset [of "Suc i" "pending x"]
    by (auto simp: no_partial_def)
  moreover have "pending x ! i \<noteq> Reading_some"
    using xr_complete.IH nth_mem [OF xr_complete.hyps(2)] by (auto simp: no_partial_def)
  ultimately show ?case
    using no_partial_complete [OF xr_complete.hyps(3)] xr_complete.hyps(4) by (simp add: complete_nth_def)
qed (simp_all add: no_partial_def make_xhr_def js_open_def abort_def Let_def js_send_def js_set_request_header_def
    js_set_callback_def js_get_response_header_def js_get_response_text_def case_prod_unfold)

text \<open>
  The state Loading is never reached. With a transport that behaves as \<^verbatim>\<open>boost::asio\<close> documents, the first
  read of the content asks for everything up to the end and completes only with an error, so no
  object, whatever its scripts do, ever reports partial data or asks for more of it.
\<close>

theorem loading_never_reached:
  assumes "xhr_reachable base64 x"
  shows "ready_state x \<noteq> Loading \<and> js_get_ready_state x \<noteq> 3 \<and> Reading_some \<notin> set (pending x)"
  using never_partial [OF assms] by (cases "ready_state x") (simp_all add: no_partial_def js_get_ready_state_def)

theorem loading_never_reached_witness:
  "ready_state (js_open id ''GET'' ''http://127.0.0.1/'' None (make_xhr Unsent False 0 True) :: nat xhr) \<noteq> Loading"
proof -
  have "xhr_reachable id (js_open id ''GET'' ''http://127.0.0.1/'' None (make_xhr Unsent False 0 True) :: nat xhr)"
    by (intro xr_open xr_new) simp
  then show ?thesis by (rule conjunct1 [OF loading_never_reached])
qed

text \<open>
  The response text can be read once. Reading it takes the octets out of the buffer, so reading it a
  second time, with nothing received in between, gives the encoding of the empty text.
\<close>

theorem response_text_read_once:
  "let (first, x1) = js_get_response_text base64 x; (second, x2) = js_get_response_text base64 x1
   in first = base64 (responseBuf x) \<and> second = base64 [] \<and> responseBuf x2 = []"
  by (simp add: js_get_response_text_def)

text \<open>
  A request that was not sent is sent with the next one. After the name of a first request does not
  resolve, opening and sending a second request connects and writes both, the first one first.
\<close>

theorem stale_request_sent:
  fixes x :: "'e xhr" and m1 u1 b1 m2 u2 b2 :: string and a1 a2 :: "bool option" and e :: io_error
  assumes "requestBuf x = []" "pending x = []"
    and x1: "x1 = js_send b1 (js_open id m1 u1 a1 x)"
    and x2: "complete_nth id 0 (Resolved (Some e) []) x1 = Some x2"
  shows "\<exists>x3 x4. complete_nth id 0 (Resolved None [ep]) (js_send b2 (js_open id m2 u2 a2 x2)) = Some x3 \<and>
    complete_nth id 0 (Connected None) x3 = Some x4 \<and>
    pending x4 = [Writing (request_text (js_open id m1 u1 a1 x) b1 @ request_text (js_open id m2 u2 a2 x2) b2)]"
proof -
  have o: "requestBuf (js_open id m u a y) = requestBuf y" "pending (js_open id m u a y) = pending y"
    "aborted (js_open id m u a y) = False" for m u a and y :: "'e xhr"
    by (simp_all add: js_open_def Let_def change_state_def abort_def)
  have x1': "pending x1 = [Resolving (m_host (url (js_open id m1 u1 a1 x))) (get_port_str (url (js_open id m1 u1 a1 x)))]"
    "requestBuf x1 = request_text (js_open id m1 u1 a1 x) b1"
    using assms(1,2) by (simp_all add: x1 js_send_def start_op_def o)
  then have x2': "requestBuf x2 = requestBuf x1" "pending x2 = []"
    using x2 by (auto simp: complete_nth_def handle_resolve_def)
  show ?thesis
    by (simp add: complete_nth_def handle_resolve_def js_send_def start_op_def o x2' x1'(2) connect_to_def
        handle_connect_def)
qed

definition first_request :: "nat xhr" where
  "first_request = js_send ''a'' (js_open id ''POST'' ''http://h/1'' None (make_xhr Unsent False 0 True))"

theorem stale_request_sent_witness:
  "\<exists>x2 x3 x4 r1 r2. complete_nth id 0 (Resolved (Some (Failed 1)) []) first_request = Some x2 \<and>
    complete_nth id 0 (Resolved None [80]) (js_send ''b'' (js_open id ''POST'' ''http://h/2'' None x2)) = Some x3 \<and>
    complete_nth id 0 (Connected None) x3 = Some x4 \<and> pending x4 = [Writing (r1 @ r2)] \<and> r1 \<noteq> [] \<and> r2 \<noteq> []"
proof -
  obtain x2 where x2: "complete_nth id 0 (Resolved (Some (Failed 1)) []) first_request = Some x2"
    by (simp add: complete_nth_def first_request_def js_send_def handle_resolve_def js_open_def make_xhr_def
        start_op_def change_state_def abort_def Let_def)
  have n: "request_text y b \<noteq> []" for y :: "nat xhr" and b by (simp add: request_text_def)
  have new: "requestBuf (make_xhr Unsent False 0 True :: nat xhr) = []" "pending (make_xhr Unsent False 0 True :: nat xhr) = []"
    by (simp_all add: make_xhr_def)
  show ?thesis
    using stale_request_sent [OF new first_request_def x2, of 80 "''b''" "''POST''" "''http://h/2''" None] x2 n
    by blast
qed

end
