(* ===== verification/Http_Request.thy ===== *)
theory Http_Request
  imports Xml_Http_Request
begin

text \<open>
  \<^verbatim>\<open>FlintHttpRequestAPI\<close>: a GET request whose response goes to the standard output. Like
  \<^verbatim>\<open>FlintXmlHttpRequestAPI\<close> it is driven by completion handlers; its observable effect is what it
  prints, so \<open>printed\<close> collects the text of the response it writes out. The messages about errors
  and endpoints are left out.
\<close>

record 'e http_request =
  hr_open :: bool
  hr_request :: string
  hr_response :: string
  hr_pending :: "'e operation list"
  printed :: string

definition make_http_request :: "'e http_request" where
  "make_http_request = \<lparr>hr_open = False, hr_request = [], hr_response = [], hr_pending = [], printed = []\<rparr>"

definition hr_start :: "'e operation \<Rightarrow> 'e http_request \<Rightarrow> 'e http_request" where
  "hr_start op x = x\<lparr>hr_pending := hr_pending x @ [op]\<rparr>"

definition hr_request_text :: "uri \<Rightarrow> string" where
  "hr_request_text u =
     ''GET '' @ m_resource u @ '' HTTP/1.0'' @ crlf @ ''Host: '' @ m_host u @ crlf @
     ''Accept: */*'' @ crlf @ ''Connection: close'' @ crlf @ crlf"

definition hr_open_url :: "string \<Rightarrow> string \<Rightarrow> 'e http_request \<Rightarrow> 'e http_request" where
  "hr_open_url verb address x =
     (let u = parse_uri address
      in hr_start (Resolving (m_host u) (get_port_str u)) (x\<lparr>hr_request := hr_request x @ hr_request_text u\<rparr>))"

definition hr_connect_to :: "'e \<Rightarrow> 'e list \<Rightarrow> 'e http_request \<Rightarrow> 'e http_request" where
  "hr_connect_to ep rest x = hr_start (Connecting ep rest) (x\<lparr>hr_open := True\<rparr>)"

definition hr_handle_resolve :: "io_error option \<Rightarrow> 'e list \<Rightarrow> 'e http_request \<Rightarrow> 'e http_request option" where
  "hr_handle_resolve err endpoints x =
     (case err of
        None \<Rightarrow> (case endpoints of ep # rest \<Rightarrow> Some (hr_connect_to ep rest x) | [] \<Rightarrow> None)
      | Some e \<Rightarrow> Some x)"

definition hr_handle_connect :: "io_error option \<Rightarrow> 'e list \<Rightarrow> 'e http_request \<Rightarrow> 'e http_request" where
  "hr_handle_connect err endpoints x =
     (case err of
        None \<Rightarrow> hr_start (Writing (hr_request x)) x
      | Some e \<Rightarrow>
          (case endpoints of ep # rest \<Rightarrow> hr_connect_to ep rest (x\<lparr>hr_open := False\<rparr>) | [] \<Rightarrow> x))"

definition hr_handle_write_request :: "io_error option \<Rightarrow> 'e http_request \<Rightarrow> 'e http_request" where
  "hr_handle_write_request err x = (case err of None \<Rightarrow> hr_start Reading_status x | Some e \<Rightarrow> x)"

text \<open>\<^verbatim>\<open>operator>>\<close> into an \<^verbatim>\<open>unsigned int\<close>, as for the 16-bit type.\<close>

definition extract_uint :: "string \<Rightarrow> u32 \<times> bool \<times> string" where
  "extract_uint s =
     (let t = dropWhile is_space s;
          (neg, t') = (case t of
             c # cs \<Rightarrow> if c = CHR ''-'' then (True, cs) else if c = CHR ''+'' then (False, cs) else (False, t)
           | [] \<Rightarrow> (False, []));
          ds = takeWhile is_digit t'; rest = dropWhile is_digit t'; n = digits_value ds
      in if ds = [] then (0, False, rest)
         else if n > 4294967295 then (- 1, False, rest)
         else (if neg then - of_nat n else of_nat n, True, rest))"

definition hr_handle_read_status_line :: "io_error option \<Rightarrow> 'e http_request \<Rightarrow> 'e http_request" where
  "hr_handle_read_status_line err x =
     (case err of
        Some e \<Rightarrow> x
      | None \<Rightarrow>
          let (version, ok1, s1) = extract_word (hr_response x); (code, ok2, s2) = extract_uint s1 in
          if \<not> ok1 then x\<lparr>hr_response := s1\<rparr>
          else if \<not> ok2 then x\<lparr>hr_response := s2\<rparr>
          else case getline s2 of
              None \<Rightarrow> x\<lparr>hr_response := s2\<rparr>
            | Some (status_message, s3) \<Rightarrow>
                let x1 = x\<lparr>hr_response := s3\<rparr> in
                if take 5 version \<noteq> ''HTTP/'' then x1
                else if code \<noteq> 200 then x1
                else hr_start Reading_headers x1)"

text \<open>The header lines up to the blank one, each with a line feed, and what is left.\<close>

function print_headers :: "string \<Rightarrow> string \<times> string" where
  "print_headers s =
     (case getline s of
        None \<Rightarrow> ([], s)
      | Some (line, rest) \<Rightarrow>
          if line = [CHR 0x0D] then ([], rest)
          else let (text, left) = print_headers rest in (line @ [CHR 0x0A] @ text, left))"
  by pat_completeness auto
termination
proof (relation "measure length", goal_cases)
  case (2 s p line rest)
  then have "s \<noteq> []" "rest = drop 1 (dropWhile (\<lambda>c. c \<noteq> CHR 0x0A) s)"
    by (auto simp: getline_def split: if_splits)
  moreover have "length (dropWhile (\<lambda>c. c \<noteq> CHR 0x0A) s) \<le> length s" by (rule length_dropWhile_le)
  ultimately show ?case by (cases s) auto
qed simp

declare print_headers.simps [simp del]

definition hr_handle_read_headers :: "io_error option \<Rightarrow> 'e http_request \<Rightarrow> 'e http_request" where
  "hr_handle_read_headers err x =
     (case err of
        Some e \<Rightarrow> x
      | None \<Rightarrow>
          let (text, left) = print_headers (hr_response x)
          in hr_start Reading_some (x\<lparr>hr_response := [], printed := printed x @ text @ [CHR 0x0A] @ left\<rparr>))"

definition hr_handle_read_content :: "io_error option \<Rightarrow> 'e http_request \<Rightarrow> 'e http_request" where
  "hr_handle_read_content err x =
     (case err of
        None \<Rightarrow> hr_start Reading_some (x\<lparr>printed := printed x @ hr_response x, hr_response := []\<rparr>)
      | Some e \<Rightarrow> x)"

subsection \<open>A whole response\<close>

definition hr_receive :: "string \<Rightarrow> 'e http_request \<Rightarrow> 'e http_request" where
  "hr_receive octets x = x\<lparr>hr_response := hr_response x @ octets\<rparr>"

text \<open>The content arrives in pieces, each read started by the handler before.\<close>

fun read_content :: "string list \<Rightarrow> 'e http_request \<Rightarrow> 'e http_request" where
  "read_content [] x = hr_handle_read_content (Some Eof) x"
| "read_content (octets # pieces) x = read_content pieces (hr_handle_read_content None (hr_receive octets x))"

lemma read_content_prints:
  "hr_response x = [] \<Longrightarrow>
     printed (read_content pieces x) = printed x @ concat pieces \<and> hr_response (read_content pieces x) = []"
  by (induction pieces arbitrary: x) (simp_all add: hr_handle_read_content_def hr_receive_def hr_start_def)

lemma print_headers_lines:
  "list_all header_text_ok kvs \<Longrightarrow>
     print_headers (header_lines kvs @ crlf @ body) =
       (concat (map (\<lambda>(k, v). k @ '': '' @ v @ crlf) kvs), body)"
proof (induction kvs)
  case Nil
  have "getline (crlf @ body) = Some ([CHR 0x0D], body)"
    using getline_line [of "[CHR 0x0D]" body] by (simp add: crlf_def)
  then show ?case by (simp add: header_lines_def print_headers.simps)
next
  case (Cons kv kvs)
  obtain k v where kv: "kv = (k, v)" by (cases kv)
  let ?rest = "header_lines kvs @ crlf @ body" and ?line = "k @ '': '' @ v @ [CHR 0x0D]"
  have ok: "header_text_ok (k, v)" using Cons.prems kv by simp
  have "CHR 0x0A \<notin> set ?line" using ok by (auto simp: header_text_ok_def list_all_iff)
  from getline_line [OF this, of ?rest]
  have g: "getline (header_lines (kv # kvs) @ crlf @ body) = Some (?line, ?rest)"
    by (simp add: kv header_lines_def crlf_def)
  moreover have "?line \<noteq> [CHR 0x0D]" by (simp add: append_eq_Cons_conv)
  ultimately show ?case
    using Cons by (subst print_headers.simps) (simp add: kv crlf_def)
qed

lemma extract_uint_decimal:
  assumes "n < 2 ^ 32" "\<not> is_digit c"
  shows "extract_uint (CHR '' '' # decimal n @ c # rest) = (of_nat n, True, c # rest)"
proof -
  obtain d ds where d: "decimal n = d # ds" using decimal_digits [of n] by (cases "decimal n") auto
  have dd: "is_digit d" using decimal_digits [of n] d by simp
  have "is_space CHR '' ''" by (simp add: is_space_def)
  then have "dropWhile is_space (CHR '' '' # decimal n @ c # rest) = decimal n @ c # rest"
    using digit_not [OF dd] by (simp add: d)
  moreover have "takeWhile is_digit (decimal n @ c # rest) = decimal n"
    "dropWhile is_digit (decimal n @ c # rest) = c # rest"
    using takeWhile_dropWhile_stop [of is_digit "decimal n" c rest] decimal_digits [of n] assms(2) by simp_all
  ultimately show ?thesis
    using digit_not [OF dd] decimal_digits [of n] assms(1) by (simp add: extract_uint_def d)
qed

subsection \<open>Properties\<close>

text \<open>
  What a request prints. When the status line of a well-formed response says 200 its header lines, a
  line feed and its body are printed, however the body is cut into pieces by the transport; for
  every other status code nothing is printed and nothing more is read.
\<close>

theorem http_response_printed:
  assumes "list_all (\<lambda>c. \<not> is_space c) version" "take 5 version = ''HTTP/''" "n < 2 ^ 32"
    and "CHR 0x0A \<notin> set reason" "list_all header_text_ok headers"
    and "hr_response x = version @ '' '' @ decimal n @ '' '' @ reason @ crlf @ header_lines headers @ crlf @ body"
  shows "let x1 = hr_handle_read_status_line None x
    in if n = 200
       then printed (read_content pieces (hr_handle_read_headers None x1)) =
         printed x @ header_lines headers @ [CHR 0x0A] @ body @ concat pieces
       else printed x1 = printed x \<and> hr_pending x1 = hr_pending x"
proof -
  let ?rest = "header_lines headers @ crlf @ body"
  let ?line = "'' '' @ reason @ [CHR 0x0D]"
  have sp: "is_space CHR '' ''" "\<not> is_digit CHR '' ''" by (simp_all add: is_space_def is_digit_def)
  have "version \<noteq> []" using assms(2) by auto
  note w = extract_word_word [OF assms(1) this sp(1), of "decimal n @ '' '' @ reason @ crlf @ ?rest"]
  note u = extract_uint_decimal [OF assms(3) sp(2), of "reason @ crlf @ ?rest"]
  have "CHR 0x0A \<notin> set ?line" using assms(4) by simp
  note l = getline_line [OF this, of ?rest]
  have code: "(of_nat n :: u32) = 200 \<longleftrightarrow> n = 200"
  proof -
    have "unat (of_nat n :: u32) = n" using assms(3) by (intro unat_of_nat_small) simp
    then show ?thesis by (auto simp: word_unat_eq_iff)
  qed
  have s: "hr_handle_read_status_line None x =
      (if n = 200 then hr_start Reading_headers (x\<lparr>hr_response := ?rest\<rparr>) else x\<lparr>hr_response := ?rest\<rparr>)"
    using w u l assms(2,6) code by (simp add: hr_handle_read_status_line_def Let_def crlf_def)
  show ?thesis
  proof (cases "n = 200")
    case True
    have "header_lines headers = concat (map (\<lambda>(k, v). k @ '': '' @ v @ crlf) headers)"
      by (simp add: header_lines_def)
    with True print_headers_lines [OF assms(5), of body] show ?thesis
      by (simp add: s hr_handle_read_headers_def hr_start_def read_content_prints)
  next
    case False
    then show ?thesis by (simp add: s)
  qed
qed

theorem http_response_printed_witness:
  "let x1 = hr_handle_read_status_line None
       (hr_receive (''HTTP/1.0 200 OK'' @ crlf @ ''A: 1'' @ crlf @ crlf @ ''he'') (make_http_request :: nat http_request))
   in printed (read_content [''l'', ''lo''] (hr_handle_read_headers None x1)) =
     ''A: 1'' @ crlf @ [CHR 0x0A] @ ''hello''"
proof -
  have d: "decimal 200 = ''200''" by code_simp
  have c: "list_all (\<lambda>c. \<not> is_space c) ''HTTP/1.0''" "CHR 0x0A \<notin> set ''OK''"
    "list_all header_text_ok [(''A'', ''1'')]" by code_simp+
  show ?thesis
    using http_response_printed [OF c(1) _ _ c(2,3), of 200
        "hr_receive (''HTTP/1.0 200 OK'' @ crlf @ ''A: 1'' @ crlf @ crlf @ ''he'') (make_http_request :: nat http_request)"
        "''he''" "[''l'', ''lo'']"]
    by (simp add: d hr_receive_def make_http_request_def header_lines_def)
qed

end
