(* ===== verification/Byte_Order.thy ===== *)
theory Byte_Order
  imports Prelude
begin

text \<open>
  The network byte order conversions of \<^verbatim>\<open>websocketpp/common/network.hpp\<close> and of the C library, on the
  little-endian hosts of the plugin, and their action on octet sequences.
\<close>

subsection \<open>Byte order\<close>

definition swap_at :: "nat \<Rightarrow> nat \<Rightarrow> 'a list \<Rightarrow> 'a list" where
  "swap_at i j c = c[i := c ! j, j := c ! i]"

text \<open>\<^verbatim>\<open>htonll\<close> on a little-endian host: four swaps in the octet view of the union.\<close>

definition htonll :: "u64 \<Rightarrow> u64" where
  "htonll src =
     of_le (swap_at 3 4 (swap_at 2 5 (swap_at 1 6 (swap_at 0 7 (le_bytes 8 src)))))"

definition ntohll :: "u64 \<Rightarrow> u64" where
  "ntohll src = htonll src"

text \<open>\<^verbatim>\<open>htons\<close> and \<^verbatim>\<open>ntohs\<close> of the C library, on a little-endian host.\<close>

definition ntohs :: "u16 \<Rightarrow> u16" where
  "ntohs x = of_le (rev (le_bytes 2 x))"

subsection \<open>Byte order lemmas\<close>

lemma of_le_le_bytes_ucast:
  fixes w :: "'a::len word"
  assumes "LENGTH('b::len) \<le> 8 * n"
  shows "(of_le (le_bytes n w) :: 'b word) = ucast w"
proof (rule bit_word_eqI)
  fix k assume k: "k < LENGTH('b)"
  then have "k div 8 < n" using assms by auto
  then show "bit (of_le (le_bytes n w) :: 'b word) k = bit (ucast w :: 'b word) k"
    using k by (simp add: bit_of_le bit_le_bytes_nth bit_simps del: nth_le_bytes)
qed

lemma take_le_bytes: "k \<le> n \<Longrightarrow> take k (le_bytes n w) = le_bytes k w"
  by (simp add: le_bytes_def take_map)

lemma swaps_rev:
  "length c = 8 \<Longrightarrow> swap_at 3 4 (swap_at 2 5 (swap_at 1 6 (swap_at 0 7 c))) = rev c"
  by (auto simp: swap_at_def numeral_eq_Suc length_Suc_conv)

lemma le_bytes_htonll: "le_bytes 8 (htonll x) = rev (le_bytes 8 x)"
proof -
  have "htonll x = of_le (rev (le_bytes 8 x))"
    unfolding htonll_def by (subst swaps_rev) simp_all
  then show ?thesis by (simp add: le_bytes_of_le)
qed

lemma ntohll_of_le: "length bs = 8 \<Longrightarrow> ntohll (of_le bs) = of_le (rev bs)"
  unfolding ntohll_def htonll_def by (subst swaps_rev) (simp_all add: le_bytes_of_le)

lemma htonll_involution: "ntohll (htonll x) = x"
proof -
  have "htonll x = of_le (rev (le_bytes 8 x))"
    unfolding htonll_def by (subst swaps_rev) simp_all
  then show ?thesis by (simp add: ntohll_of_le of_le_le_bytes)
qed

lemma ntohs_of_le: "length bs = 2 \<Longrightarrow> ntohs (of_le bs) = of_le (rev bs)"
  by (simp add: ntohs_def le_bytes_of_le)

lemma ntohs_involution: "ntohs (ntohs x) = x"
proof -
  have "length (rev (le_bytes 2 x)) = 2" by simp
  then show ?thesis by (simp only: ntohs_def [of x] ntohs_of_le rev_rev_ident) (simp add: of_le_le_bytes)
qed


lemma unat_of_le_pair: "unat (of_le [a, b] :: u16) = unat a + 256 * unat b"
proof -
  have "(of_le [a, b] :: u16) = of_nat (unat a) OR push_bit 8 (of_nat (unat b))" by simp
  also have "\<dots> = of_nat (unat a OR push_bit 8 (unat b))"
    by (simp only: of_nat_or_eq push_bit_of_nat)
  also have "unat a OR push_bit 8 (unat b) = unat a + unat b * 256"
    using nat_or_digit [of "unat a" 8 "unat b"] by simp
  finally have "(of_le [a, b] :: u16) = of_nat (unat a + unat b * 256)" .
  moreover have "unat a + unat b * 256 < 2 ^ LENGTH(16)"
    using u8_less_256 [of a] u8_less_256 [of b] by (simp del: u8_less_256)
  ultimately show ?thesis by (metis unat_of_nat_small mult.commute)
qed

lemma unat_ntohs_pair: "unat (ntohs (of_le [a, b])) = 256 * unat a + unat b"
  using unat_of_le_pair [of b a] by (simp add: ntohs_of_le del: of_le.simps)

end
