(* ===== verification/Frame.thy ===== *)
theory Frame
  imports Byte_Order
begin

text \<open>
  WebSocket frames as laid out by \<^verbatim>\<open>websocketpp/frame.hpp\<close> (over \<^verbatim>\<open>Byte_Order\<close>): opcodes, the two-byte basic header and the extended header with
  their accessors, header serialisation, and the byte-wise and word-wise masking routines.
  Integers overlaid with octet arrays are read little-endian, the byte order of the plugin's hosts.
\<close>

subsection \<open>Opcodes and limits\<close>

datatype opcode =
    Continuation | Text | Binary | Rsv3 | Rsv4 | Rsv5 | Rsv6 | Rsv7
  | Close | Ping | Pong | Control_rsvb | Control_rsvc | Control_rsvd | Control_rsve | Control_rsvf

definition opcode_table :: "opcode list" where
  "opcode_table = [Continuation, Text, Binary, Rsv3, Rsv4, Rsv5, Rsv6, Rsv7,
     Close, Ping, Pong, Control_rsvb, Control_rsvc, Control_rsvd, Control_rsve, Control_rsvf]"

fun opcode_value :: "opcode \<Rightarrow> nat" where
  "opcode_value Continuation = 0x0"
| "opcode_value Text = 0x1"
| "opcode_value Binary = 0x2"
| "opcode_value Rsv3 = 0x3"
| "opcode_value Rsv4 = 0x4"
| "opcode_value Rsv5 = 0x5"
| "opcode_value Rsv6 = 0x6"
| "opcode_value Rsv7 = 0x7"
| "opcode_value Close = 0x8"
| "opcode_value Ping = 0x9"
| "opcode_value Pong = 0xA"
| "opcode_value Control_rsvb = 0xB"
| "opcode_value Control_rsvc = 0xC"
| "opcode_value Control_rsvd = 0xD"
| "opcode_value Control_rsve = 0xE"
| "opcode_value Control_rsvf = 0xF"

text \<open>The cast \<^verbatim>\<open>opcode::value(n)\<close> of a four-bit number.\<close>

definition opcode_of :: "nat \<Rightarrow> opcode" where
  "opcode_of n = opcode_table ! n"

definition opcode_reserved :: "opcode \<Rightarrow> bool" where
  "opcode_reserved v \<longleftrightarrow>
     (opcode_value v \<ge> opcode_value Rsv3 \<and> opcode_value v \<le> opcode_value Rsv7) \<or>
     (opcode_value v \<ge> opcode_value Control_rsvb \<and> opcode_value v \<le> opcode_value Control_rsvf)"

definition opcode_invalid :: "opcode \<Rightarrow> bool" where
  "opcode_invalid v \<longleftrightarrow> opcode_value v > 0xF \<or> opcode_value v < 0"

definition is_control :: "opcode \<Rightarrow> bool" where
  "is_control v \<longleftrightarrow> opcode_value v \<ge> 0x8"

definition BASIC_HEADER_LENGTH :: nat where "BASIC_HEADER_LENGTH = 2"
definition MAX_HEADER_LENGTH :: nat where "MAX_HEADER_LENGTH = 14"
definition MAX_EXTENDED_HEADER_LENGTH :: nat where "MAX_EXTENDED_HEADER_LENGTH = 12"

definition payload_size_basic :: nat where "payload_size_basic = 125"
definition payload_size_extended :: nat where "payload_size_extended = 0xFFFF"
definition close_reason_size :: nat where "close_reason_size = 123"
definition payload_size_jumbo :: nat where "payload_size_jumbo = 0x7FFFFFFFFFFFFFFF"

definition BHB0_OPCODE :: u8 where "BHB0_OPCODE = 0x0F"
definition BHB0_RSV3 :: u8 where "BHB0_RSV3 = 0x10"
definition BHB0_RSV2 :: u8 where "BHB0_RSV2 = 0x20"
definition BHB0_RSV1 :: u8 where "BHB0_RSV1 = 0x40"
definition BHB0_FIN :: u8 where "BHB0_FIN = 0x80"
definition BHB1_PAYLOAD :: u8 where "BHB1_PAYLOAD = 0x7F"
definition BHB1_MASK :: u8 where "BHB1_MASK = 0x80"
definition payload_size_code_16bit :: u8 where "payload_size_code_16bit = 0x7E"
definition payload_size_code_64bit :: u8 where "payload_size_code_64bit = 0x7F"

lemmas header_consts [wire_simps] = BASIC_HEADER_LENGTH_def MAX_HEADER_LENGTH_def
  MAX_EXTENDED_HEADER_LENGTH_def payload_size_basic_def payload_size_extended_def
  payload_size_jumbo_def BHB0_OPCODE_def BHB0_RSV3_def BHB0_RSV2_def BHB0_RSV1_def BHB0_FIN_def
  BHB1_PAYLOAD_def BHB1_MASK_def payload_size_code_16bit_def payload_size_code_64bit_def

subsection \<open>Headers\<close>

record basic_header =
  b0 :: u8
  b1 :: u8

record extended_header =
  ext_bytes :: bytes

definition size_code :: "u64 \<Rightarrow> u8" where
  "size_code sz =
     (if unat sz \<le> payload_size_basic then ucast sz
      else if unat sz \<le> payload_size_extended then payload_size_code_16bit
      else payload_size_code_64bit)"

definition make_basic_header ::
  "opcode \<Rightarrow> u64 \<Rightarrow> bool \<Rightarrow> bool \<Rightarrow> bool \<Rightarrow> bool \<Rightarrow> bool \<Rightarrow> basic_header" where
  "make_basic_header op sz fin masked rsv1 rsv2 rsv3 =
     (let x0 = (0 :: u8);
          x1 = (if fin then x0 OR BHB0_FIN else x0);
          x2 = (if rsv1 then x1 OR BHB0_RSV1 else x1);
          x3 = (if rsv2 then x2 OR BHB0_RSV2 else x2);
          x4 = (if rsv3 then x3 OR BHB0_RSV3 else x3);
          x5 = x4 OR (of_nat (opcode_value op) AND BHB0_OPCODE);
          y0 = (0 :: u8);
          y1 = (if masked then y0 OR BHB1_MASK else y0)
      in \<lparr>b0 = x5, b1 = y1 OR size_code sz\<rparr>)"

text \<open>\<^verbatim>\<open>std::copy\<close> of \<open>ys\<close> onto \<open>xs\<close> from index \<open>off\<close>.\<close>

definition overwrite :: "'a list \<Rightarrow> nat \<Rightarrow> 'a list \<Rightarrow> 'a list" where
  "overwrite xs off ys = take off xs @ ys @ drop (off + length ys) xs"

definition copy_payload :: "u64 \<Rightarrow> bytes \<Rightarrow> bytes \<times> nat" where
  "copy_payload payload_size bs =
     (let payload_offset = (if unat payload_size \<le> payload_size_basic then 8
                            else if unat payload_size \<le> payload_size_extended then 6 else 0);
          temp = le_bytes 8 (htonll payload_size)
      in (overwrite bs 0 (drop payload_offset temp), 8 - payload_offset))"

definition empty_extended_header :: extended_header where
  "empty_extended_header = \<lparr>ext_bytes = replicate MAX_EXTENDED_HEADER_LENGTH 0\<rparr>"

definition extended_header_sized :: "u64 \<Rightarrow> extended_header" where
  "extended_header_sized payload_size =
     \<lparr>ext_bytes = fst (copy_payload payload_size (replicate MAX_EXTENDED_HEADER_LENGTH 0))\<rparr>"

definition extended_header_masked :: "u64 \<Rightarrow> u32 \<Rightarrow> extended_header" where
  "extended_header_masked payload_size masking_key =
     (let (bs, offset) = copy_payload payload_size (replicate MAX_EXTENDED_HEADER_LENGTH 0)
      in \<lparr>ext_bytes = overwrite bs offset (le_bytes 4 masking_key)\<rparr>)"

definition get_fin :: "basic_header \<Rightarrow> bool" where
  "get_fin h \<longleftrightarrow> b0 h AND BHB0_FIN = BHB0_FIN"

definition set_fin :: "basic_header \<Rightarrow> bool \<Rightarrow> basic_header" where
  "set_fin h value = h\<lparr>b0 := (if value then b0 h OR BHB0_FIN else b0 h AND NOT BHB0_FIN)\<rparr>"

definition get_rsv1 :: "basic_header \<Rightarrow> bool" where
  "get_rsv1 h \<longleftrightarrow> b0 h AND BHB0_RSV1 = BHB0_RSV1"

definition set_rsv1 :: "basic_header \<Rightarrow> bool \<Rightarrow> basic_header" where
  "set_rsv1 h value = h\<lparr>b0 := (if value then b0 h OR BHB0_RSV1 else b0 h AND NOT BHB0_RSV1)\<rparr>"

definition get_rsv2 :: "basic_header \<Rightarrow> bool" where
  "get_rsv2 h \<longleftrightarrow> b0 h AND BHB0_RSV2 = BHB0_RSV2"

definition set_rsv2 :: "basic_header \<Rightarrow> bool \<Rightarrow> basic_header" where
  "set_rsv2 h value = h\<lparr>b0 := (if value then b0 h OR BHB0_RSV2 else b0 h AND NOT BHB0_RSV2)\<rparr>"

definition get_rsv3 :: "basic_header \<Rightarrow> bool" where
  "get_rsv3 h \<longleftrightarrow> b0 h AND BHB0_RSV3 = BHB0_RSV3"

definition set_rsv3 :: "basic_header \<Rightarrow> bool \<Rightarrow> basic_header" where
  "set_rsv3 h value = h\<lparr>b0 := (if value then b0 h OR BHB0_RSV3 else b0 h AND NOT BHB0_RSV3)\<rparr>"

definition get_opcode :: "basic_header \<Rightarrow> opcode" where
  "get_opcode h = opcode_of (unat (b0 h AND BHB0_OPCODE))"

definition get_masked :: "basic_header \<Rightarrow> bool" where
  "get_masked h \<longleftrightarrow> b1 h AND BHB1_MASK = BHB1_MASK"

definition set_masked :: "basic_header \<Rightarrow> bool \<Rightarrow> basic_header" where
  "set_masked h value = h\<lparr>b1 := (if value then b1 h OR BHB1_MASK else b1 h AND NOT BHB1_MASK)\<rparr>"

definition get_basic_size :: "basic_header \<Rightarrow> u8" where
  "get_basic_size h = b1 h AND BHB1_PAYLOAD"

definition get_masking_key_offset :: "basic_header \<Rightarrow> nat" where
  "get_masking_key_offset h =
     (if get_basic_size h = payload_size_code_16bit then 2
      else if get_basic_size h = payload_size_code_64bit then 8 else 0)"

definition get_header_len :: "basic_header \<Rightarrow> nat" where
  "get_header_len h =
     (let sz = BASIC_HEADER_LENGTH + get_masking_key_offset h
      in if get_masked h then sz + 4 else sz)"

text \<open>
  \<^verbatim>\<open>set_size\<close> returns the default (successful) error code on every path; it writes nothing when the
  size is above the jumbo limit.
\<close>

definition set_size :: "basic_header \<Rightarrow> u64 \<Rightarrow> basic_header" where
  "set_size h sz =
     (let upd = (\<lambda>basic_value. h\<lparr>b1 := (basic_value AND BHB1_PAYLOAD) OR (b1 h AND BHB1_MASK)\<rparr>)
      in if unat sz \<le> payload_size_basic then upd (ucast sz)
         else if unat sz \<le> payload_size_extended then upd payload_size_code_16bit
         else if unat sz \<le> payload_size_jumbo then upd payload_size_code_64bit
         else h)"

definition prepare_header :: "basic_header \<Rightarrow> extended_header \<Rightarrow> bytes" where
  "prepare_header h e = [b0 h, b1 h] @ take (get_header_len h - BASIC_HEADER_LENGTH) (ext_bytes e)"

definition get_masking_key :: "basic_header \<Rightarrow> extended_header \<Rightarrow> u32" where
  "get_masking_key h e =
     (if \<not> get_masked h then 0
      else of_le (take 4 (drop (get_masking_key_offset h) (ext_bytes e))))"

definition get_extended_size :: "extended_header \<Rightarrow> u16" where
  "get_extended_size e = ntohs (of_le (take 2 (ext_bytes e)))"

definition get_jumbo_size :: "extended_header \<Rightarrow> u64" where
  "get_jumbo_size e = ntohll (of_le (take 8 (ext_bytes e)))"

definition get_payload_size :: "basic_header \<Rightarrow> extended_header \<Rightarrow> u64" where
  "get_payload_size h e =
     (let val = get_basic_size h
      in if unat val \<le> payload_size_basic then ucast val
         else if val = payload_size_code_16bit then ucast (get_extended_size e)
         else get_jumbo_size e)"

subsection \<open>Masking\<close>

text \<open>
  Variable shift counts are taken modulo the word width, as the 64-bit targets of the plugin do; the
  sources reach the full width once, in \<^verbatim>\<open>circshift_prepared_key\<close> with offset 0, which the language
  leaves undefined.
\<close>

definition shl64 :: "u64 \<Rightarrow> nat \<Rightarrow> u64" where
  "shl64 w n = push_bit (n mod 64) w"

definition shr64 :: "u64 \<Rightarrow> nat \<Rightarrow> u64" where
  "shr64 w n = drop_bit (n mod 64) w"

definition prepare_masking_key :: "u32 \<Rightarrow> u64" where
  "prepare_masking_key key =
     (let low_bits = (ucast key :: u64); high_bits = (ucast key :: u64)
      in shl64 high_bits 32 OR low_bits)"

definition circshift_prepared_key :: "u64 \<Rightarrow> nat \<Rightarrow> u64" where
  "circshift_prepared_key prepared_key offset =
     (let temp = shl64 prepared_key ((8 - offset) * 8)
      in shr64 prepared_key (offset * 8) OR temp)"

fun byte_mask_loop :: "bytes \<Rightarrow> nat \<Rightarrow> bytes \<Rightarrow> bytes" where
  "byte_mask_loop c key_index [] = []"
| "byte_mask_loop c key_index (b # bs) = (b XOR c ! key_index) # byte_mask_loop c (Suc key_index mod 4) bs"

definition byte_mask :: "bytes \<Rightarrow> u32 \<Rightarrow> nat \<Rightarrow> bytes" where
  "byte_mask input key key_offset = byte_mask_loop (le_bytes 4 key) (key_offset mod 4) input"

text \<open>The first loop of the word-wise routines: \<open>n\<close> machine words, each XORed with the prepared key.\<close>

fun mask_words :: "nat \<Rightarrow> u64 \<Rightarrow> bytes \<Rightarrow> bytes" where
  "mask_words 0 prepared_key input = []"
| "mask_words (Suc n) prepared_key input =
     le_bytes 8 (of_le (take 8 input) XOR prepared_key) @ mask_words n prepared_key (drop 8 input)"

definition word_mask_exact :: "bytes \<Rightarrow> nat \<Rightarrow> u32 \<Rightarrow> bytes" where
  "word_mask_exact input len key =
     (let prepared_key = prepare_masking_key key; n = len div 8
      in mask_words n prepared_key input @
         map (\<lambda>i. input ! i XOR le_bytes 4 key ! (i mod 4)) [n * 8..<len])"

definition word_mask_circ :: "bytes \<Rightarrow> nat \<Rightarrow> u64 \<Rightarrow> bytes \<times> u64" where
  "word_mask_circ input len prepared_key =
     (let n = len div 8; l = len - n * 8; start = len - l; byte_key = le_bytes 8 prepared_key
      in (mask_words n prepared_key input @ map (\<lambda>i. input ! (start + i) XOR byte_key ! i) [0..<l],
          circshift_prepared_key prepared_key l))"

definition byte_mask_circ :: "bytes \<Rightarrow> nat \<Rightarrow> u64 \<Rightarrow> bytes \<times> u64" where
  "byte_mask_circ input len prepared_key =
     (let key = (ucast prepared_key :: u32)
      in (map (\<lambda>i. input ! i XOR le_bytes 4 key ! (i mod 4)) [0..<len],
          circshift_prepared_key prepared_key (len mod 4)))"

subsection \<open>Opcode and flag lemmas\<close>

lemma opcode_value_less: "opcode_value op < 16"
  by (cases op) simp_all

lemma opcode_of_value [simp]: "opcode_of (opcode_value op) = op"
  by (cases op) (simp_all add: opcode_of_def opcode_table_def)

lemma opcode_value_of [simp]: "n < 16 \<Longrightarrow> opcode_value (opcode_of n) = n"
proof -
  have "list_all (\<lambda>n. opcode_value (opcode_of n) = n) [0..<16]" by code_simp
  then show "n < 16 \<Longrightarrow> opcode_value (opcode_of n) = n" by (simp add: list_all_iff)
qed

lemma opcode_never_invalid: "\<not> opcode_invalid op"
  by (cases op) (simp_all add: opcode_invalid_def)

text \<open>Fields of a byte assembled by the constructor: one exhaustive evaluation over flags and opcode.\<close>

lemma opcode_nibble: "(of_nat (opcode_value op) AND 0x0F :: u8) = of_nat (opcode_value op)"
  by (cases op) simp_all

lemma flag_eq_bit [wire_simps]:
  "(w AND 0x80 = (0x80::u8)) = bit w 7" "(w AND 0x40 = (0x40::u8)) = bit w 6"
  "(w AND 0x20 = (0x20::u8)) = bit w 5" "(w AND 0x10 = (0x10::u8)) = bit w 4"
  using and_exp_eq_exp [of 7 w] and_exp_eq_exp [of 6 w] and_exp_eq_exp [of 5 w] and_exp_eq_exp [of 4 w]
  by simp_all

text \<open>Fields of the two bytes assembled by the constructor.\<close>

lemma get_make_b0 [simp]:
  "get_fin (make_basic_header op sz fin m r1 r2 r3) = fin"
  "get_rsv1 (make_basic_header op sz fin m r1 r2 r3) = r1"
  "get_rsv2 (make_basic_header op sz fin m r1 r2 r3) = r2"
  "get_rsv3 (make_basic_header op sz fin m r1 r2 r3) = r3"
  by (cases op; cases fin; cases r1; cases r2; cases r3;
      simp add: make_basic_header_def get_fin_def get_rsv1_def get_rsv2_def get_rsv3_def
        BHB0_OPCODE_def BHB0_RSV3_def BHB0_RSV2_def BHB0_RSV1_def BHB0_FIN_def Let_def)+

lemma get_opcode_make [simp]: "get_opcode (make_basic_header op sz fin m r1 r2 r3) = op"
proof -
  have "b0 (make_basic_header op sz fin m r1 r2 r3) AND BHB0_OPCODE = of_nat (opcode_value op)"
    by (cases op; cases fin; cases r1; cases r2; cases r3;
        simp add: make_basic_header_def BHB0_OPCODE_def BHB0_RSV3_def BHB0_RSV2_def BHB0_RSV1_def
          BHB0_FIN_def Let_def)
  moreover have "unat (of_nat (opcode_value op) :: u8) = opcode_value op"
    using opcode_value_less [of op] by (simp add: unat_of_nat_small)
  ultimately show ?thesis by (simp add: get_opcode_def)
qed

lemma size_code_less: "unat (size_code sz) < 128"
proof (cases "unat sz \<le> payload_size_basic")
  case True
  then have "unat (ucast sz :: u8) = unat sz" by (simp add: unat_ucast_small wire_simps)
  with True show ?thesis by (simp add: size_code_def wire_simps)
next
  case False
  then show ?thesis by (simp add: size_code_def wire_simps)
qed

lemma low7_bits:
  assumes "unat (c::u8) < 128"
  shows "(0x80 OR c) AND 0x7F = c" "c AND 0x7F = c" "bit (0x80 OR c) 7" "\<not> bit c 7"
proof -
  have all: "list_all (\<lambda>n. (0x80 OR of_nat n) AND 0x7F = (of_nat n :: u8) \<and> of_nat n AND 0x7F = (of_nat n :: u8) \<and>
      bit (0x80 OR of_nat n :: u8) 7 \<and> \<not> bit (of_nat n :: u8) 7) [0..<128]"
    by code_simp
  then have "(0x80 OR of_nat (unat c)) AND 0x7F = (of_nat (unat c) :: u8) \<and> of_nat (unat c) AND 0x7F = (of_nat (unat c) :: u8) \<and>
      bit (0x80 OR of_nat (unat c) :: u8) 7 \<and> \<not> bit (of_nat (unat c) :: u8) 7"
    using assms by (simp only: list_all_iff set_upt) (drule bspec [where x = "unat c"], simp_all)
  then show "(0x80 OR c) AND 0x7F = c" "c AND 0x7F = c" "bit (0x80 OR c) 7" "\<not> bit c 7"
    by simp_all
qed

lemma get_make_b1 [simp]:
  "get_masked (make_basic_header op sz fin m r1 r2 r3) = m"
  "get_basic_size (make_basic_header op sz fin m r1 r2 r3) = size_code sz"
  using low7_bits [OF size_code_less, of sz]
  by (simp_all add: make_basic_header_def get_masked_def get_basic_size_def BHB1_MASK_def
      BHB1_PAYLOAD_def Let_def flag_eq_bit)

subsection \<open>The extended header\<close>

definition size_bytes :: "u64 \<Rightarrow> bytes" where
  "size_bytes sz =
     (if unat sz \<le> payload_size_basic then [] 
      else if unat sz \<le> payload_size_extended then rev (le_bytes 2 sz) else rev (le_bytes 8 sz))"

lemma length_size_bytes: "length (size_bytes sz) \<le> 8"
  by (simp add: size_bytes_def)

lemma copy_payload_eq:
  "copy_payload sz bs = (size_bytes sz @ drop (length (size_bytes sz)) bs, length (size_bytes sz))"
proof -
  have "drop 6 (rev (le_bytes 8 sz)) = rev (le_bytes 2 sz)"
    by (simp add: drop_rev take_le_bytes)
  then show ?thesis
    by (simp add: copy_payload_def Let_def overwrite_def le_bytes_htonll size_bytes_def wire_simps)
qed

lemma ext_bytes_sized:
  "ext_bytes (extended_header_sized sz) = size_bytes sz @ replicate (12 - length (size_bytes sz)) 0"
  by (simp add: extended_header_sized_def copy_payload_eq MAX_EXTENDED_HEADER_LENGTH_def)

lemma ext_bytes_masked:
  "ext_bytes (extended_header_masked sz key) =
     size_bytes sz @ le_bytes 4 key @ replicate (8 - length (size_bytes sz)) 0"
  by (simp add: extended_header_masked_def copy_payload_eq MAX_EXTENDED_HEADER_LENGTH_def overwrite_def)

lemma size_code_16 [simp]:
  "(size_code sz = payload_size_code_16bit) = (length (size_bytes sz) = 2)"
  "(size_code sz = payload_size_code_64bit) = (length (size_bytes sz) = 8)"
proof -
  have small: "unat (ucast sz :: u8) = unat sz" if "unat sz \<le> 125"
    using that by (simp add: unat_ucast_small)
  show "(size_code sz = payload_size_code_16bit) = (length (size_bytes sz) = 2)"
    "(size_code sz = payload_size_code_64bit) = (length (size_bytes sz) = 8)"
    using small by (auto simp: size_code_def size_bytes_def wire_simps word_unat_eq_iff)
qed

lemma get_masking_key_offset_make [simp]:
  "get_masking_key_offset (make_basic_header op sz fin m r1 r2 r3) = length (size_bytes sz)"
  by (auto simp: get_masking_key_offset_def size_bytes_def)

lemma get_header_len_make [simp]:
  "get_header_len (make_basic_header op sz fin m r1 r2 r3) =
     2 + length (size_bytes sz) + (if m then 4 else 0)"
  by (simp add: get_header_len_def BASIC_HEADER_LENGTH_def Let_def)

lemma get_payload_size_make:
  assumes "take (length (size_bytes sz)) (ext_bytes e) = size_bytes sz"
  shows "get_payload_size (make_basic_header op sz fin m r1 r2 r3) e = sz"
proof -
  consider (basic) "unat sz \<le> 125" | (ext) "125 < unat sz" "unat sz \<le> 0xFFFF" | (jumbo) "0xFFFF < unat sz"
    by linarith
  then show ?thesis
  proof cases
    case basic
    then have "unat (ucast sz :: u8) = unat sz" by (simp add: unat_ucast_small)
    moreover have "(ucast (ucast sz :: u8) :: u64) = sz"
      using calculation by (metis of_nat_unat ucast_id)
    ultimately show ?thesis using basic by (simp add: get_payload_size_def size_code_def wire_simps Let_def)
  next
    case ext
    then have len: "length (size_bytes sz) = 2" and sb: "size_bytes sz = rev (le_bytes 2 sz)"
      by (simp_all add: size_bytes_def wire_simps)
    have "get_extended_size e = ucast sz"
      using assms unfolding len sb by (simp add: get_extended_size_def ntohs_of_le of_le_le_bytes_ucast)
    moreover have "unat (ucast sz :: u16) = unat sz" using ext by (simp add: unat_ucast_small)
    then have "(ucast (ucast sz :: u16) :: u64) = sz" by (metis of_nat_unat ucast_id)
    ultimately show ?thesis
      using ext len by (simp add: get_payload_size_def Let_def size_code_def wire_simps)
  next
    case jumbo
    then have len: "length (size_bytes sz) = 8" and sb: "size_bytes sz = rev (le_bytes 8 sz)"
      by (simp_all add: size_bytes_def wire_simps)
    have "get_jumbo_size e = sz"
      using assms unfolding len sb by (simp add: get_jumbo_size_def ntohll_of_le of_le_le_bytes_ucast)
    then show ?thesis
      using jumbo by (simp add: get_payload_size_def Let_def size_code_def wire_simps)
  qed
qed

lemma get_masking_key_make:
  assumes "take 4 (drop (length (size_bytes sz)) (ext_bytes e)) = le_bytes 4 key"
  shows "get_masking_key (make_basic_header op sz fin True r1 r2 r3) e = key"
  using assms by (simp add: get_masking_key_def of_le_le_bytes)

lemma prepare_header_sized:
  "prepare_header (make_basic_header op sz fin False r1 r2 r3) (extended_header_sized sz) =
     b0 (make_basic_header op sz fin False r1 r2 r3) # b1 (make_basic_header op sz fin False r1 r2 r3) # size_bytes sz"
  by (simp add: prepare_header_def ext_bytes_sized BASIC_HEADER_LENGTH_def)

lemma prepare_header_masked:
  "prepare_header (make_basic_header op sz fin True r1 r2 r3) (extended_header_masked sz key) =
     b0 (make_basic_header op sz fin True r1 r2 r3) # b1 (make_basic_header op sz fin True r1 r2 r3) #
     size_bytes sz @ le_bytes 4 key"
  by (simp add: prepare_header_def ext_bytes_masked BASIC_HEADER_LENGTH_def)

subsection \<open>Masking lemmas\<close>

text \<open>
  The key stream of a four-octet key \<open>c\<close> from phase \<open>off\<close>, and the eight octets a prepared key
  holds at that phase. Both masking routines are the byte-wise loop over this stream.
\<close>

definition phased_key :: "u32 \<Rightarrow> nat \<Rightarrow> u64" where
  "phased_key key off = of_le (map (\<lambda>j. le_bytes 4 key ! ((off + j) mod 4)) [0..<8])"

lemma le_bytes_phased_key:
  "le_bytes 8 (phased_key key off) = map (\<lambda>j. le_bytes 4 key ! ((off + j) mod 4)) [0..<8]"
  by (simp add: phased_key_def le_bytes_of_le)

lemma eq_le_bytes_8: "le_bytes 8 (a :: u64) = le_bytes 8 b \<Longrightarrow> a = b"
proof -
  assume eq: "le_bytes 8 a = le_bytes 8 b"
  have "a = of_le (le_bytes 8 a)" by (rule of_le_le_bytes [symmetric]) simp
  also have "\<dots> = of_le (le_bytes 8 b)" by (simp only: eq)
  also have "\<dots> = b" by (rule of_le_le_bytes) simp
  finally show "a = b" .
qed

lemma bit_shl64: "bit (shl64 w n) k \<longleftrightarrow> k < 64 \<and> n mod 64 \<le> k \<and> bit w (k - n mod 64)"
  by (auto simp: shl64_def bit_simps)

lemma bit_shr64: "bit (shr64 w n) k \<longleftrightarrow> bit w (n mod 64 + k)"
  by (simp add: shr64_def bit_simps)

lemma prepare_masking_key_bytes:
  "prepare_masking_key key = phased_key key 0"
proof (rule eq_le_bytes_8, rule nth_equalityI)
  fix i assume "i < length (le_bytes 8 (prepare_masking_key key))"
  then have i: "i < 8" by simp
  show "le_bytes 8 (prepare_masking_key key) ! i = le_bytes 8 (phased_key key 0) ! i"
  proof (rule bit_word_eqI)
    fix j assume j: "j < LENGTH(8)"
    have "bit (le_bytes 8 (prepare_masking_key key) ! i) j = bit key (8 * (i mod 4) + j)"
    proof (cases "i < 4")
      case True
      then show ?thesis using j
        by (auto simp: prepare_masking_key_def bit_shl64 bit_simps Let_def add.commute)
    next
      case False
      then obtain k where "i = 4 + k" "k < 4" using i by (metis add_less_cancel_left le_Suc_ex not_less numeral_Bit0)
      then show ?thesis using j
        by (auto simp: prepare_masking_key_def bit_shl64 bit_simps Let_def algebra_simps dest: bit_imp_le_length)
    qed
    also have "\<dots> = bit (le_bytes 8 (phased_key key 0) ! i) j"
      using i j by (simp add: le_bytes_phased_key bit_simps add.commute del: nth_le_bytes) (simp add: bit_simps add.commute)
    finally show "bit (le_bytes 8 (prepare_masking_key key) ! i) j = bit (le_bytes 8 (phased_key key 0) ! i) j" .
  qed
qed simp

lemma circshift_bytes:
  assumes "l < 8"
  shows "le_bytes 8 (circshift_prepared_key w l) = rotate l (le_bytes 8 w)"
proof (rule nth_equalityI)
  fix i assume "i < length (le_bytes 8 (circshift_prepared_key w l))"
  then have i: "i < 8" by simp
  have rot: "rotate l (le_bytes 8 w) ! i = le_bytes 8 w ! ((l + i) mod 8)"
    using i by (simp add: nth_rotate del: nth_le_bytes)
  show "le_bytes 8 (circshift_prepared_key w l) ! i = rotate l (le_bytes 8 w) ! i"
  proof (rule bit_word_eqI)
    fix j assume j: "j < LENGTH(8)"
    show "bit (le_bytes 8 (circshift_prepared_key w l) ! i) j = bit (rotate l (le_bytes 8 w) ! i) j"
    proof (cases "l = 0")
      case True
      then show ?thesis using i j unfolding rot
        by (simp add: circshift_prepared_key_def shl64_def shr64_def)
    next
      case l0: False
      show ?thesis
      proof (cases "l + i < 8")
        case True
        then show ?thesis using i j assms l0 unfolding rot
          by (auto simp: circshift_prepared_key_def bit_shl64 bit_shr64 bit_simps Let_def algebra_simps)
      next
        case False
        then obtain k where k: "l + i = 8 + k" "k < l" using i assms by (metis add_less_cancel_left le_Suc_ex not_less add.commute)
        have e: "j + (i * 8 + l * 8) - 64 = j + k * 8" "64 \<le> i * 8 + l * 8" using k(1) by simp_all
        from k show ?thesis using i j assms l0 e unfolding rot
          by (auto simp: circshift_prepared_key_def bit_shl64 bit_shr64 bit_simps Let_def algebra_simps dest: bit_imp_le_length)
      qed
    qed
  qed
qed simp

lemma length_byte_mask_loop [simp]: "length (byte_mask_loop c i bs) = length bs"
  by (induction c i bs rule: byte_mask_loop.induct) simp_all

lemma nth_byte_mask_loop:
  "n < length bs \<Longrightarrow> i < 4 \<Longrightarrow> byte_mask_loop c i bs ! n = bs ! n XOR c ! ((i + n) mod 4)"
proof (induction c i bs arbitrary: n rule: byte_mask_loop.induct)
  case (2 c i b bs)
  show ?case
  proof (cases n)
    case 0
    with 2 show ?thesis by simp
  next
    case (Suc m)
    then have "(Suc i mod 4 + m) mod 4 = (i + n) mod 4" by (simp add: mod_add_left_eq)
    with 2 Suc show ?thesis by simp
  qed
qed simp

lemma length_byte_mask [simp]: "length (byte_mask bs key off) = length bs"
  by (simp add: byte_mask_def)

lemma nth_byte_mask:
  "n < length bs \<Longrightarrow> byte_mask bs key off ! n = bs ! n XOR le_bytes 4 key ! ((off + n) mod 4)"
  by (simp add: byte_mask_def nth_byte_mask_loop mod_add_left_eq del: nth_le_bytes)

lemma byte_mask_append:
  "byte_mask (xs @ ys) key off = byte_mask xs key off @ byte_mask ys key (off + length xs)"
  by (rule nth_equalityI)
    (auto simp: nth_append nth_byte_mask simp del: nth_le_bytes)

lemma byte_mask_mod4: "off mod 4 = off' mod 4 \<Longrightarrow> byte_mask bs key off = byte_mask bs key off'"
  by (simp add: byte_mask_def)

lemma byte_mask_Nil [simp]: "byte_mask [] key off = []"
  by (simp add: byte_mask_def)

lemma byte_mask_add8 [simp]: "byte_mask bs key (off + 8) = byte_mask bs key off"
  by (rule byte_mask_mod4) presburger

lemma byte_mask_involution: "byte_mask (byte_mask bs key off) key off = bs"
  by (rule nth_equalityI) (simp_all add: nth_byte_mask xor.assoc del: nth_le_bytes)

lemma phased_key_mod4: "off mod 4 = off' mod 4 \<Longrightarrow> phased_key key off = phased_key key off'"
  unfolding phased_key_def by (metis (no_types, lifting) mod_add_left_eq)

lemma circshift_phased:
  assumes "l < 8"
  shows "circshift_prepared_key (phased_key key off) l = phased_key key (off + l)"
proof (rule eq_le_bytes_8, rule nth_equalityI)
  fix i assume "i < length (le_bytes 8 (circshift_prepared_key (phased_key key off) l))"
  then have i: "i < 8" by simp
  have "(off + (l + i) mod 8) mod 4 = (off + l + i) mod 4"
    by (metis add.assoc mod_add_right_eq mod_mod_cancel dvd_def numeral_Bit0 mult_2_right)
  then show "le_bytes 8 (circshift_prepared_key (phased_key key off) l) ! i =
      le_bytes 8 (phased_key key (off + l)) ! i"
    using i assms by (simp add: circshift_bytes le_bytes_phased_key nth_rotate del: nth_le_bytes)
qed simp

lemma mask_word_phased:
  assumes "length w = 8"
  shows "le_bytes 8 (of_le w XOR phased_key key off) = byte_mask w key off"
  by (rule nth_equalityI)
    (simp_all add: assms le_bytes_xor le_bytes_of_le le_bytes_phased_key nth_byte_mask del: nth_le_bytes)

lemma mask_words_phased:
  "8 * n \<le> length input \<Longrightarrow> mask_words n (phased_key key off) input = byte_mask (take (8 * n) input) key off"
proof (induction n arbitrary: input)
  case (Suc n)
  have "byte_mask (take (8 * Suc n) input) key off =
      byte_mask (take 8 input) key off @ byte_mask (take (8 * n) (drop 8 input)) key off"
    using Suc.prems by (simp add: take_add byte_mask_append min_def)
  then show ?case using Suc by (simp add: mask_word_phased)
qed (simp add: byte_mask_def)

lemma byte_mask_map:
  "byte_mask bs key off = map (\<lambda>i. bs ! i XOR le_bytes 4 key ! ((off + i) mod 4)) [0..<length bs]"
  by (rule nth_equalityI) (simp_all add: nth_byte_mask del: nth_le_bytes)

lemma word_mask_exact_eq: "word_mask_exact input (length input) key = byte_mask input key 0"
proof -
  let ?n = "length input div 8"
  have "byte_mask input key 0 = byte_mask (take (8 * ?n) input) key 0 @ byte_mask (drop (8 * ?n) input) key (8 * ?n)"
    using byte_mask_append [of "take (8 * ?n) input" "drop (8 * ?n) input" key 0] by (simp add: min_def)
  moreover have "byte_mask (drop (8 * ?n) input) key (8 * ?n) =
      map (\<lambda>i. input ! i XOR le_bytes 4 key ! (i mod 4)) [?n * 8..<length input]"
    by (rule nth_equalityI) (simp_all add: nth_byte_mask mult.commute del: nth_le_bytes)
  ultimately show ?thesis
    by (simp add: word_mask_exact_def Let_def prepare_masking_key_bytes mask_words_phased)
qed

lemma word_mask_circ_eq:
  "word_mask_circ input (length input) (phased_key key off) =
     (byte_mask input key off, phased_key key (off + length input))"
proof -
  let ?n = "length input div 8" and ?l = "length input mod 8"
  have len: "length input = 8 * ?n + ?l" by simp
  have l: "length input - ?n * 8 = ?l" "length input - ?l = 8 * ?n"
    by (simp_all add: minus_div_mult_eq_mod minus_mod_eq_mult_div)
  have m8: "(x + (8 * q + i)) mod 4 = (x + i) mod 4" for x q i :: nat by presburger
  have m4: "(off + ?l) mod 4 = (off + length input) mod 4"
    by (metis mod_add_right_eq mod_mod_cancel dvd_def numeral_Bit0 mult_2_right)
  have "byte_mask input key off = byte_mask (take (8 * ?n) input) key off @ byte_mask (drop (8 * ?n) input) key (off + 8 * ?n)"
    using byte_mask_append [of "take (8 * ?n) input" "drop (8 * ?n) input" key off] by (simp add: min_def)
  moreover have "byte_mask (drop (8 * ?n) input) key (off + 8 * ?n) =
      map (\<lambda>i. input ! (8 * ?n + i) XOR le_bytes 8 (phased_key key off) ! i) [0..<?l]"
    by (rule nth_equalityI)
      (use l in \<open>auto simp: nth_byte_mask le_bytes_phased_key minus_mult_div_eq_mod add.assoc m8
        simp del: nth_le_bytes intro!: arg_cong [where f = "\<lambda>i. _ XOR le_bytes 4 key ! i"]\<close>)
  ultimately show ?thesis
    using circshift_phased [of ?l key off] phased_key_mod4 [OF m4, of key]
    unfolding word_mask_circ_def Let_def l by (simp add: mask_words_phased del: nth_le_bytes)
qed

lemma byte_mask_circ_eq:
  "byte_mask_circ input (length input) (phased_key key off) =
     (byte_mask input key off, phased_key key (off + length input))"
proof -
  have pre: "le_bytes 4 (ucast (phased_key key off) :: u32) = take 4 (le_bytes 8 (phased_key key off))"
    by (rule nth_equalityI) (auto simp: take_le_bytes intro!: bit_word_eqI simp: bit_simps)
  have "le_bytes 4 (ucast (phased_key key off) :: u32) ! (i mod 4) = le_bytes 4 key ! ((off + i) mod 4)" for i
  proof -
    have "i mod 4 < 4" by simp
    then have "i mod 4 < 8" by linarith
    then show ?thesis
      using pre by (simp add: le_bytes_phased_key mod_add_right_eq del: nth_le_bytes)
  qed
  moreover have "(off + length input mod 4) mod 4 = (off + length input) mod 4"
    by (rule mod_add_right_eq)
  moreover have "length input mod 4 < 8" by (rule less_trans [OF mod_less_divisor]) simp_all
  ultimately show ?thesis
    using circshift_phased [of "length input mod 4" key off] phased_key_mod4 [of "off + length input mod 4" "off + length input" key]
    by (simp add: byte_mask_circ_def Let_def byte_mask_map)
qed

subsection \<open>Streaming interface of the unmasking routines\<close>

text \<open>
  What the payload reader relies on: masking a payload that arrives in chunks, with the key state
  carried from one call to the next, is masking the whole payload, and masking twice from the same
  key state gives the payload back. Both circular routines provide it on the key states that
  \<^verbatim>\<open>prepare_masking_key\<close> and the routines themselves produce.
\<close>

locale chunk_masker =
  fixes mask_chunk :: "'k \<Rightarrow> bytes \<Rightarrow> bytes \<times> 'k"
    and valid_key :: "'k \<Rightarrow> bool"
  assumes key_valid: "valid_key k \<Longrightarrow> valid_key (snd (mask_chunk k xs))"
    and mask_Nil: "valid_key k \<Longrightarrow> mask_chunk k [] = ([], k)"
    and mask_append: "valid_key k \<Longrightarrow> mask_chunk k (xs @ ys) =
          (fst (mask_chunk k xs) @ fst (mask_chunk (snd (mask_chunk k xs)) ys),
           snd (mask_chunk (snd (mask_chunk k xs)) ys))"
    and mask_twice: "valid_key k \<Longrightarrow> fst (mask_chunk k (fst (mask_chunk k xs))) = xs"
begin

fun mask_chunks :: "'k \<Rightarrow> bytes list \<Rightarrow> bytes \<times> 'k" where
  "mask_chunks k [] = ([], k)"
| "mask_chunks k (xs # xss) =
     (let (ys, k') = mask_chunk k xs; (zs, k'') = mask_chunks k' xss in (ys @ zs, k''))"

lemma mask_chunks_concat: "valid_key k \<Longrightarrow> mask_chunks k xss = mask_chunk k (concat xss)"
proof (induction xss arbitrary: k)
  case (Cons xs xss)
  then have "mask_chunks (snd (mask_chunk k xs)) xss = mask_chunk (snd (mask_chunk k xs)) (concat xss)"
    using key_valid by blast
  with Cons.prems show ?case by (simp add: mask_append Let_def case_prod_unfold)
qed (simp add: mask_Nil)

lemma unmask_chunks:
  "valid_key k \<Longrightarrow> concat xss = fst (mask_chunk k xs) \<Longrightarrow> fst (mask_chunks k xss) = xs"
  by (simp add: mask_chunks_concat mask_twice)

end

definition is_phased :: "u64 \<Rightarrow> bool" where
  "is_phased k \<longleftrightarrow> (\<exists>key off. k = phased_key key off)"

definition word_mask_step :: "u64 \<Rightarrow> bytes \<Rightarrow> bytes \<times> u64" where
  "word_mask_step k bs = word_mask_circ bs (length bs) k"

definition byte_mask_step :: "u64 \<Rightarrow> bytes \<Rightarrow> bytes \<times> u64" where
  "byte_mask_step k bs = byte_mask_circ bs (length bs) k"

lemma word_mask_step_phased:
  "word_mask_step (phased_key key off) bs = (byte_mask bs key off, phased_key key (off + length bs))"
  by (simp add: word_mask_step_def word_mask_circ_eq)

lemma byte_mask_step_phased:
  "byte_mask_step (phased_key key off) bs = (byte_mask bs key off, phased_key key (off + length bs))"
  by (simp add: byte_mask_step_def byte_mask_circ_eq)

interpretation word_masker: chunk_masker word_mask_step is_phased
  by unfold_locales
    (fastforce simp: is_phased_def word_mask_step_phased byte_mask_append byte_mask_involution add.assoc)+

interpretation byte_masker: chunk_masker byte_mask_step is_phased
  by unfold_locales
    (fastforce simp: is_phased_def byte_mask_step_phased byte_mask_append byte_mask_involution add.assoc)+

lemma is_phased_prepare: "is_phased (prepare_masking_key key)"
  by (auto simp: is_phased_def prepare_masking_key_bytes)

subsection \<open>Properties\<close>

text \<open>
  C26: the word-wise \<^verbatim>\<open>word_mask_exact\<close>, which masks eight octets at a time through the doubled key and
  the rest octet by octet, computes the octet-by-octet \<^verbatim>\<open>byte_mask\<close> on every payload and key.
\<close>

theorem word_mask_exact_is_byte_mask:
  "word_mask_exact input (length input) key = byte_mask input key 0"
  by (rule word_mask_exact_eq)

text \<open>
  C27: a payload masked in one go with \<^verbatim>\<open>word_mask_exact\<close> and delivered in arbitrary chunks is restored
  by unmasking the chunks one after another with \<^verbatim>\<open>word_mask_circ\<close>, each call starting from the key
  the previous one returned and the first from \<^verbatim>\<open>prepare_masking_key\<close>; so is it by the octet-wise
  \<^verbatim>\<open>byte_mask_circ\<close>.
\<close>

theorem chunked_unmasking_restores_payload:
  assumes "concat chunks = word_mask_exact payload (length payload) key"
  shows "fst (word_masker.mask_chunks (prepare_masking_key key) chunks) = payload \<and>
    fst (byte_masker.mask_chunks (prepare_masking_key key) chunks) = payload"
proof -
  have "concat chunks = fst (word_mask_step (prepare_masking_key key) payload)"
    "concat chunks = fst (byte_mask_step (prepare_masking_key key) payload)"
    using assms by (simp_all add: word_mask_exact_eq word_mask_step_phased byte_mask_step_phased
        prepare_masking_key_bytes)
  then show ?thesis
    by (simp_all add: word_masker.unmask_chunks byte_masker.unmask_chunks is_phased_prepare)
qed

theorem chunked_unmasking_restores_payload_witness:
  "fst (word_masker.mask_chunks (prepare_masking_key 0x0D0C0B0A) [[0x42, 0x6E, 0x60], [0x61]]) = [0x48, 0x65, 0x6C, 0x6C]"
proof -
  have "concat [[0x42, 0x6E, 0x60], [0x61]] =
      word_mask_exact [0x48, 0x65, 0x6C, 0x6C] (length [0x48, 0x65, 0x6C, 0x6C :: u8]) 0x0D0C0B0A"
    by code_simp
  from chunked_unmasking_restores_payload [OF this] show ?thesis by blast
qed

text \<open>
  C25: reading a header back. A header built for an opcode, a payload size and flags, serialised with
  its extended part, has the length \<^verbatim>\<open>get_header_len\<close> announces, at most the 14 octets reserved for it,
  and every accessor returns what the constructors were given, the masking key included.
\<close>

theorem header_round_trip:
  "let h = make_basic_header op sz fin m r1 r2 r3;
       e = (if m then extended_header_masked sz key else extended_header_sized sz)
   in length (prepare_header h e) = get_header_len h \<and> get_header_len h \<le> MAX_HEADER_LENGTH \<and>
    get_opcode h = op \<and> get_fin h = fin \<and> get_rsv1 h = r1 \<and> get_rsv2 h = r2 \<and> get_rsv3 h = r3 \<and>
    get_masked h = m \<and> get_payload_size h e = sz \<and> get_masking_key h e = (if m then key else 0)"
proof -
  define h where "h = make_basic_header op sz fin m r1 r2 r3"
  define e where "e = (if m then extended_header_masked sz key else extended_header_sized sz)"
  have "get_payload_size h e = sz"
    unfolding h_def e_def by (rule get_payload_size_make) (simp add: ext_bytes_masked ext_bytes_sized)
  moreover have "get_masking_key h e = (if m then key else 0)"
    unfolding h_def e_def
    by (cases m) (simp_all add: get_masking_key_make ext_bytes_masked, simp add: get_masking_key_def)
  moreover have "length (prepare_header h e) = get_header_len h"
    unfolding h_def e_def by (cases m) (simp_all add: prepare_header_masked prepare_header_sized)
  moreover have "get_header_len h \<le> MAX_HEADER_LENGTH"
    unfolding h_def using length_size_bytes [of sz] by (simp add: MAX_HEADER_LENGTH_def)
  ultimately show ?thesis unfolding Let_def h_def e_def by simp
qed

end
