(* ===== verification/Utf8.thy ===== *)
theory Utf8
  imports Prelude
begin

text \<open>
  The streaming UTF-8 validator of \<^verbatim>\<open>websocketpp/utf8_validator.hpp\<close>: the class and transition table,
  the byte decoder, the validator object and \<^verbatim>\<open>validate\<close>. The reference it is proved against is
  the set of byte strings that are concatenations of encoded Unicode scalar values.
\<close>

subsection \<open>The table and the byte decoder\<close>

definition utf8_accept :: u32 where
  "utf8_accept = 0"

definition utf8_reject :: u32 where
  "utf8_reject = 1"

definition utf8d :: "u8 list" where
  "utf8d = [
  0,0,0,0,0,0,0,0,0,0,0,0,0,0,0,0,0,0,0,0,0,0,0,0,0,0,0,0,0,0,0,0,
  0,0,0,0,0,0,0,0,0,0,0,0,0,0,0,0,0,0,0,0,0,0,0,0,0,0,0,0,0,0,0,0,
  0,0,0,0,0,0,0,0,0,0,0,0,0,0,0,0,0,0,0,0,0,0,0,0,0,0,0,0,0,0,0,0,
  0,0,0,0,0,0,0,0,0,0,0,0,0,0,0,0,0,0,0,0,0,0,0,0,0,0,0,0,0,0,0,0,
  1,1,1,1,1,1,1,1,1,1,1,1,1,1,1,1,9,9,9,9,9,9,9,9,9,9,9,9,9,9,9,9,
  7,7,7,7,7,7,7,7,7,7,7,7,7,7,7,7,7,7,7,7,7,7,7,7,7,7,7,7,7,7,7,7,
  8,8,2,2,2,2,2,2,2,2,2,2,2,2,2,2,2,2,2,2,2,2,2,2,2,2,2,2,2,2,2,2,
  0xa,0x3,0x3,0x3,0x3,0x3,0x3,0x3,0x3,0x3,0x3,0x3,0x3,0x4,0x3,0x3,
  0xb,0x6,0x6,0x6,0x5,0x8,0x8,0x8,0x8,0x8,0x8,0x8,0x8,0x8,0x8,0x8,
  0x0,0x1,0x2,0x3,0x5,0x8,0x7,0x1,0x1,0x1,0x4,0x6,0x1,0x1,0x1,0x1,
  1,1,1,1,1,1,1,1,1,1,1,1,1,1,1,1,1,0,1,1,1,1,1,0,1,0,1,1,1,1,1,1,
  1,2,1,1,1,1,1,2,1,2,1,1,1,1,1,1,1,1,1,1,1,1,1,2,1,1,1,1,1,1,1,1,
  1,2,1,1,1,1,1,1,1,2,1,1,1,1,1,1,1,1,1,1,1,1,1,3,1,3,1,1,1,1,1,1,
  1,3,1,1,1,1,1,3,1,3,1,1,1,1,1,1,1,3,1,1,1,1,1,1,1,1,1,1,1,1,1,1]"

definition decode :: "u32 \<Rightarrow> u32 \<Rightarrow> u8 \<Rightarrow> u32 \<times> u32" where
  "decode state codep byte =
     (let type = (ucast (utf8d ! unat byte) :: u32);
          codep' = (if state \<noteq> utf8_accept
                    then (ucast byte AND 0x3f) OR push_bit 6 codep
                    else drop_bit (unat type) 0xff AND ucast byte)
      in (ucast (utf8d ! unat (256 + state * 16 + type)), codep'))"

subsection \<open>The validator object\<close>

record validator =
  m_state :: u32
  m_codepoint :: u32

definition validator_init :: validator where
  "validator_init = \<lparr>m_state = utf8_accept, m_codepoint = 0\<rparr>"

definition consume_byte :: "validator \<Rightarrow> u8 \<Rightarrow> bool \<times> validator" where
  "consume_byte v byte =
     (let (s, c) = decode (m_state v) (m_codepoint v) byte
      in (s \<noteq> utf8_reject, v\<lparr>m_state := s, m_codepoint := c\<rparr>))"

fun validator_decode :: "validator \<Rightarrow> bytes \<Rightarrow> bool \<times> validator" where
  "validator_decode v [] = (True, v)"
| "validator_decode v (b # bs) =
     (let (s, c) = decode (m_state v) (m_codepoint v) b;
          v' = v\<lparr>m_state := s, m_codepoint := c\<rparr>
      in if s = utf8_reject then (False, v') else validator_decode v' bs)"

definition complete :: "validator \<Rightarrow> bool" where
  "complete v \<longleftrightarrow> m_state v = utf8_accept"

definition reset :: "validator \<Rightarrow> validator" where
  "reset v = v\<lparr>m_state := utf8_accept, m_codepoint := 0\<rparr>"

definition validate :: "bytes \<Rightarrow> bool" where
  "validate s = (let (ok, v) = validator_decode validator_init s in ok \<and> complete v)"

subsection \<open>Streaming interface\<close>

text \<open>
  What a client of a streaming validator relies on: feeding a buffer is feeding its bytes in order
  and stopping at the first refused one. The payload reader of the frame processor is such a client.
\<close>

locale stream_validator =
  fixes step :: "'v \<Rightarrow> u8 \<Rightarrow> bool \<times> 'v"
    and feed :: "'v \<Rightarrow> bytes \<Rightarrow> bool \<times> 'v"
  assumes feed_Nil: "feed v [] = (True, v)"
    and feed_Cons: "feed v (b # bs) = (if fst (step v b) then feed (snd (step v b)) bs else (False, snd (step v b)))"
begin

lemma feed_append:
  "feed v (xs @ ys) = (if fst (feed v xs) then feed (snd (feed v xs)) ys else feed v xs)"
  by (induction xs arbitrary: v) (auto simp: feed_Nil feed_Cons)

lemma feed_concat:
  "fst (feed v (concat xss)) \<longleftrightarrow>
     (case xss of [] \<Rightarrow> True | xs # rest \<Rightarrow> fst (feed v xs) \<and> fst (feed (snd (feed v xs)) (concat rest)))"
  by (cases xss) (auto simp: feed_Nil feed_append)

lemma feed_prefix_ok: "fst (feed v (xs @ ys)) \<Longrightarrow> fst (feed v xs)"
  by (auto simp: feed_append split: if_splits)

end

interpretation utf8_stream: stream_validator consume_byte validator_decode
  by unfold_locales (auto simp: consume_byte_def Let_def split: prod.splits)

lemmas validator_decode_append [chunk_simps] = utf8_stream.feed_append

subsection \<open>The transition table, state by state\<close>

abbreviation is_tail :: "u8 \<Rightarrow> bool" where
  "is_tail b \<equiv> 0x80 \<le> unat b \<and> unat b < 0xc0"

definition next_state :: "u32 \<Rightarrow> u8 \<Rightarrow> u32" where
  "next_state s b = fst (decode s 0 b)"

lemma fst_decode: "fst (decode s c b) = next_state s b"
  by (simp add: decode_def next_state_def Let_def)

text \<open>The first 256 entries classify a byte; each later row of 16 is the successor row of one state.\<close>

definition byte_class :: "nat \<Rightarrow> nat" where
  "byte_class b = (if b < 0x80 then 0 else if b < 0x90 then 1 else if b < 0xa0 then 9
    else if b < 0xc0 then 7 else if b < 0xc2 then 8 else if b < 0xe0 then 2
    else if b = 0xe0 then 10 else if b = 0xed then 4 else if b < 0xf0 then 3
    else if b = 0xf0 then 11 else if b < 0xf4 then 6 else if b = 0xf4 then 5 else 8)"

definition successor_row :: "nat \<Rightarrow> nat list" where
  "successor_row s =
     [[0,1,2,3,5,8,7,1,1,1,4,6], [1,1,1,1,1,1,1,1,1,1,1,1],
      [1,0,1,1,1,1,1,0,1,0,1,1], [1,2,1,1,1,1,1,2,1,2,1,1],
      [1,1,1,1,1,1,1,2,1,1,1,1], [1,2,1,1,1,1,1,1,1,2,1,1],
      [1,1,1,1,1,1,1,3,1,3,1,1], [1,3,1,1,1,1,1,3,1,3,1,1],
      [1,3,1,1,1,1,1,1,1,1,1,1]] ! s"

lemma utf8d_class: "unat (utf8d ! unat (b::u8)) = byte_class (unat b)"
proof -
  have "list_all (\<lambda>n. unat (utf8d ! n) = byte_class n) [0..<256]" by code_simp
  then show ?thesis by (simp add: list_all_iff)
qed

lemma utf8d_rows:
  "list_all (\<lambda>s. list_all (\<lambda>t. unat (utf8d ! (256 + s * 16 + t)) = successor_row s ! t) [0..<12]) [0..<9]"
  by code_simp

lemma byte_class_less: "byte_class n < 12"
  by (simp add: byte_class_def)

lemma utf8d_class_word: "(ucast (utf8d ! unat (b::u8)) :: u32) = of_nat (byte_class (unat b))"
  using arg_cong [OF utf8d_class [of b], of "of_nat :: nat \<Rightarrow> u32"] by simp

lemma next_state_row:
  assumes "s < 9"
  shows "next_state (of_nat s) b = of_nat (successor_row s ! byte_class (unat b))"
proof -
  have idx: "unat (256 + (of_nat s :: u32) * 16 + of_nat (byte_class (unat b))) = 256 + s * 16 + byte_class (unat b)"
  proof -
    have "256 + s * 16 + byte_class (unat b) < 2 ^ LENGTH(32)"
      using assms byte_class_less [of "unat b"] by simp
    then have "unat (of_nat (256 + s * 16 + byte_class (unat b)) :: u32) = 256 + s * 16 + byte_class (unat b)"
      by (rule unat_of_nat_small)
    then show ?thesis by simp
  qed
  let ?e = "utf8d ! (256 + s * 16 + byte_class (unat b))"
  have row: "unat ?e = successor_row s ! byte_class (unat b)"
    using utf8d_rows assms byte_class_less [of "unat b"] by (auto simp: list_all_iff)
  have "next_state (of_nat s) b = ucast ?e"
    by (simp only: next_state_def decode_def Let_def fst_conv utf8d_class_word idx)
  also have "\<dots> = of_nat (unat ?e)" by simp
  finally show ?thesis by (simp only: row)
qed

lemma next_state_accept:
  "next_state 0 b =
     (if unat b < 0x80 then 0 else if unat b < 0xc2 then 1 else if unat b < 0xe0 then 2
      else if unat b = 0xe0 then 4 else if unat b = 0xed then 5 else if unat b < 0xf0 then 3
      else if unat b = 0xf0 then 6 else if unat b < 0xf4 then 7 else if unat b = 0xf4 then 8 else 1)"
  using next_state_row [of 0 b] by (auto simp: successor_row_def byte_class_def)

lemma next_state_1: "next_state 1 b = 1"
  using next_state_row [of 1 b] by (auto simp: successor_row_def byte_class_def)

lemma next_state_2: "next_state 2 b = (if is_tail b then 0 else 1)"
  using next_state_row [of 2 b] by (auto simp: successor_row_def byte_class_def)

lemma next_state_3: "next_state 3 b = (if is_tail b then 2 else 1)"
  using next_state_row [of 3 b] by (auto simp: successor_row_def byte_class_def)

lemma next_state_4: "next_state 4 b = (if 0xa0 \<le> unat b \<and> unat b < 0xc0 then 2 else 1)"
  using next_state_row [of 4 b] by (auto simp: successor_row_def byte_class_def)

lemma next_state_5: "next_state 5 b = (if 0x80 \<le> unat b \<and> unat b < 0xa0 then 2 else 1)"
  using next_state_row [of 5 b] by (auto simp: successor_row_def byte_class_def)

lemma next_state_6: "next_state 6 b = (if 0x90 \<le> unat b \<and> unat b < 0xc0 then 3 else 1)"
  using next_state_row [of 6 b] by (auto simp: successor_row_def byte_class_def)

lemma next_state_7: "next_state 7 b = (if is_tail b then 3 else 1)"
  using next_state_row [of 7 b] by (auto simp: successor_row_def byte_class_def)

lemma next_state_8: "next_state 8 b = (if 0x80 \<le> unat b \<and> unat b < 0x90 then 3 else 1)"
  using next_state_row [of 8 b] by (auto simp: successor_row_def byte_class_def)

lemmas next_state_simps = next_state_accept next_state_1 next_state_2 next_state_3 next_state_4
  next_state_5 next_state_6 next_state_7 next_state_8

subsection \<open>The reference: concatenations of encoded scalar values\<close>

definition is_scalar :: "nat \<Rightarrow> bool" where
  "is_scalar c \<longleftrightarrow> c < 0xD800 \<or> 0xE000 \<le> c \<and> c < 0x110000"

definition tail_byte :: "nat \<Rightarrow> u8" where
  "tail_byte n = of_nat (0x80 + n mod 64)"

definition utf8_encode :: "nat \<Rightarrow> bytes" where
  "utf8_encode c =
     (if c < 0x80 then [of_nat c]
      else if c < 0x800 then [of_nat (0xC0 + c div 64), tail_byte c]
      else if c < 0x10000 then [of_nat (0xE0 + c div 4096), tail_byte (c div 64), tail_byte c]
      else [of_nat (0xF0 + c div 262144), tail_byte (c div 4096), tail_byte (c div 64), tail_byte c])"

text \<open>The run of the automaton, without the code point it accumulates.\<close>

fun runs :: "u32 \<Rightarrow> bytes \<Rightarrow> bool" where
  "runs s [] \<longleftrightarrow> s = 0"
| "runs s (b # bs) \<longleftrightarrow> next_state s b \<noteq> 1 \<and> runs (next_state s b) bs"

lemma validator_decode_runs:
  "(fst (validator_decode v bs) \<and> complete (snd (validator_decode v bs))) = runs (m_state v) bs"
proof (induction bs arbitrary: v)
  case Nil
  then show ?case by (simp add: complete_def utf8_accept_def)
next
  case (Cons b bs)
  have "fst (decode (m_state v) (m_codepoint v) b) = next_state (m_state v) b" by (rule fst_decode)
  then show ?case
    using Cons.IH by (auto simp: utf8_reject_def Let_def split: prod.splits)
qed

lemma validate_runs: "validate s = runs 0 s"
  using validator_decode_runs [of validator_init s]
  by (auto simp: validate_def validator_init_def utf8_accept_def split: prod.splits)

lemma runs_2: "runs 2 bs \<longleftrightarrow> (\<exists>t r. bs = t # r \<and> is_tail t \<and> runs 0 r)"
  by (cases bs) (auto simp: next_state_2)

lemma runs_3: "runs 3 bs \<longleftrightarrow> (\<exists>t r. bs = t # r \<and> is_tail t \<and> runs 2 r)"
  by (cases bs) (auto simp: next_state_3)

lemma runs_4: "runs 4 bs \<longleftrightarrow> (\<exists>t r. bs = t # r \<and> 0xa0 \<le> unat t \<and> unat t < 0xc0 \<and> runs 2 r)"
  by (cases bs) (auto simp: next_state_4)

lemma runs_5: "runs 5 bs \<longleftrightarrow> (\<exists>t r. bs = t # r \<and> 0x80 \<le> unat t \<and> unat t < 0xa0 \<and> runs 2 r)"
  by (cases bs) (auto simp: next_state_5)

lemma runs_6: "runs 6 bs \<longleftrightarrow> (\<exists>t r. bs = t # r \<and> 0x90 \<le> unat t \<and> unat t < 0xc0 \<and> runs 3 r)"
  by (cases bs) (auto simp: next_state_6)

lemma runs_7: "runs 7 bs \<longleftrightarrow> (\<exists>t r. bs = t # r \<and> is_tail t \<and> runs 3 r)"
  by (cases bs) (auto simp: next_state_7)

lemma runs_8: "runs 8 bs \<longleftrightarrow> (\<exists>t r. bs = t # r \<and> 0x80 \<le> unat t \<and> unat t < 0x90 \<and> runs 3 r)"
  by (cases bs) (auto simp: next_state_8)

lemmas runs_rows = runs_2 runs_3 runs_4 runs_5 runs_6 runs_7 runs_8

lemma unat_tail_byte: "unat (tail_byte n) = 0x80 + n mod 64"
  unfolding tail_byte_def by (rule unat_of_nat_small) (simp add: less_imp_le)

lemma is_tail_tail_byte: "is_tail (tail_byte n)"
  by (simp add: unat_tail_byte)

lemma digit64: "x < 64 \<Longrightarrow> (k * 64 + x) div 64 = k" "x < 64 \<Longrightarrow> (k * 64 + x) mod 64 = x"
  for k x :: nat
  by (simp_all only: div_mult_self3 mod_mult_self3) simp_all

lemma runs_scalar:
  assumes "is_scalar c"
  shows "runs 0 (utf8_encode c @ bs) = runs 0 bs"
proof -
  consider "c < 0x80" | "0x80 \<le> c" "c < 0x800" | "0x800 \<le> c" "c < 0x10000"
    | "0x10000 \<le> c" "c < 0x110000"
    using assms by (fastforce simp: is_scalar_def)
  then show ?thesis
  proof cases
    case 1
    then have "unat (of_nat c :: u8) = c" by (simp add: unat_of_nat_small)
    with 1 show ?thesis by (simp add: utf8_encode_def next_state_accept)
  next
    case 2
    then have "unat (of_nat (0xC0 + c div 64) :: u8) = 0xC0 + c div 64" "2 \<le> c div 64" "c div 64 < 32"
      by (simp_all add: unat_of_nat_small del: of_nat_add of_nat_numeral)
    with 2 show ?thesis
      by (simp add: utf8_encode_def next_state_accept next_state_2 unat_tail_byte del: of_nat_add)
  next
    case 3
    then have f: "unat (of_nat (0xE0 + c div 4096) :: u8) = 0xE0 + c div 4096" "c div 4096 < 16"
      by (simp_all add: unat_of_nat_small del: of_nat_add of_nat_numeral)
    have q: "c div 4096 = c div 64 div 64" by (simp add: div_mult2_eq [symmetric])
    have "32 \<le> c div 64" "c div 64 < 864 \<or> 896 \<le> c div 64"
      using 3 assms by (auto simp: is_scalar_def)
    then have g: "c div 4096 = 0 \<Longrightarrow> 32 \<le> c div 64 mod 64"
      "c div 4096 = 13 \<Longrightarrow> c div 64 mod 64 < 32"
      unfolding q using mult_div_mod_eq [of 64 "c div 64"] by auto
    show ?thesis
      using 3 f g by (auto simp add: utf8_encode_def next_state_simps unat_tail_byte simp del: of_nat_add)
  next
    case 4
    then have f: "unat (of_nat (0xF0 + c div 262144) :: u8) = 0xF0 + c div 262144" "c div 262144 < 5"
      by (simp_all add: unat_of_nat_small del: of_nat_add of_nat_numeral)
    have q: "c div 262144 = c div 4096 div 64" by (simp add: div_mult2_eq [symmetric])
    have "16 \<le> c div 4096" "c div 4096 < 272" using 4 by auto
    then have g: "c div 262144 = 0 \<Longrightarrow> 16 \<le> c div 4096 mod 64"
      "c div 262144 = 4 \<Longrightarrow> c div 4096 mod 64 < 16"
      unfolding q using mult_div_mod_eq [of 64 "c div 4096"] by auto
    show ?thesis
      using 4 f g by (auto simp add: utf8_encode_def next_state_simps unat_tail_byte simp del: of_nat_add)
  qed
qed

lemma tail_cases:
  assumes "is_tail t"
  obtains x where "unat t = 0x80 + x" "x < 64" "t = of_nat (0x80 + x)"
proof (rule that [of "unat t - 0x80"])
  show "unat t = 0x80 + (unat t - 0x80)" "unat t - 0x80 < 64" using assms by auto
  then show "t = of_nat (0x80 + (unat t - 0x80))" by (intro unat_eq_of_nat)
qed

lemma encode2:
  assumes "unat b = 0xC0 + y" "2 \<le> y" "y < 32" "is_tail t"
  shows "\<exists>c. is_scalar c \<and> [b, t] = utf8_encode c"
proof -
  obtain x where x: "x < 64" "t = of_nat (0x80 + x)" using assms(4) by (rule tail_cases)
  have b: "b = of_nat (0xC0 + y)" by (rule unat_eq_of_nat) (rule assms(1))
  have d: "(y * 64 + x) div 64 = y" "(y * 64 + x) mod 64 = x" using x(1) by simp_all
  have "utf8_encode (y * 64 + x) = [b, t]"
    using assms(2,3) x(1) by (simp add: utf8_encode_def tail_byte_def d b x(2))
  then show ?thesis
    using assms(2,3) x(1) by (intro exI [of _ "y * 64 + x"]) (auto simp: is_scalar_def)
qed

lemma encode3:
  assumes "unat b = 0xE0 + z" "z < 16" "unat t = 0x80 + y" "y < 64" "is_tail u"
    and "z = 0 \<longrightarrow> 32 \<le> y" "z = 13 \<longrightarrow> y < 32"
  shows "\<exists>c. is_scalar c \<and> [b, t, u] = utf8_encode c"
proof -
  obtain x where x: "x < 64" "u = of_nat (0x80 + x)" using assms(5) by (rule tail_cases)
  have b: "b = of_nat (0xE0 + z)" by (rule unat_eq_of_nat) (rule assms(1))
  have t: "t = of_nat (0x80 + y)" by (rule unat_eq_of_nat) (rule assms(3))
  define c where "c = (z * 64 + y) * 64 + x"
  have c64: "c div 64 = z * 64 + y" "c mod 64 = x" unfolding c_def using x(1) by (rule digit64)+
  have d: "c div 4096 = z" "c div 64 mod 64 = y"
    using assms(4) div_mult2_eq [of c 64 64] by (simp_all add: c64)
  have q1: "32 \<le> z * 64 + y" using assms(6) by (cases "z = 0") auto
  have q2: "z * 64 + y < 1024" using assms(2,4) by linarith
  have q3: "z * 64 + y < 864 \<or> 896 \<le> z * 64 + y"
    using assms(4,7) by (cases "z < 13"; cases "z = 13") auto
  have r: "0x800 \<le> c" "c < 0x10000" using q1 q2 x(1) unfolding c_def by (simp_all add: algebra_simps)
  have sc: "is_scalar c" using q2 q3 x(1) unfolding c_def is_scalar_def by (auto simp: algebra_simps)
  from r have "utf8_encode c = [b, t, u]"
    by (simp add: utf8_encode_def tail_byte_def d c64(2) b t x(2))
  with sc show ?thesis by metis
qed

lemma encode4:
  assumes "unat b = 0xF0 + w" "w < 5" "unat t = 0x80 + z" "z < 64" "is_tail u" "is_tail v"
    and "w = 0 \<longrightarrow> 16 \<le> z" "w = 4 \<longrightarrow> z < 16"
  shows "\<exists>c. is_scalar c \<and> [b, t, u, v] = utf8_encode c"
proof -
  obtain y where y: "y < 64" "u = of_nat (0x80 + y)" using assms(5) by (rule tail_cases)
  obtain x where x: "x < 64" "v = of_nat (0x80 + x)" using assms(6) by (rule tail_cases)
  have b: "b = of_nat (0xF0 + w)" by (rule unat_eq_of_nat) (rule assms(1))
  have t: "t = of_nat (0x80 + z)" by (rule unat_eq_of_nat) (rule assms(3))
  define c where "c = ((w * 64 + z) * 64 + y) * 64 + x"
  have c64: "c div 64 = (w * 64 + z) * 64 + y" "c mod 64 = x" unfolding c_def using x(1) by (rule digit64)+
  have c4096: "c div 4096 = w * 64 + z"
    using y(1) div_mult2_eq [of c 64 64] by (simp add: c64)
  have d: "c div 262144 = w" "c div 4096 mod 64 = z" "c div 64 mod 64 = y"
    using div_mult2_eq [of c 4096 64] digit64 [OF assms(4)] digit64 [OF y(1)]
    by (simp_all only: c64 c4096) simp
  have q1: "16 \<le> w * 64 + z" using assms(7) by (cases "w = 0") auto
  have q2: "w * 64 + z < 272" using assms(2,4,8) by (cases "w = 4") auto
  have r: "0x10000 \<le> c" using q1 unfolding c_def by (simp add: algebra_simps)
  have sc: "is_scalar c" using q1 q2 x(1) y(1) unfolding c_def is_scalar_def by (simp add: algebra_simps)
  from r have "utf8_encode c = [b, t, u, v]"
    by (simp add: utf8_encode_def tail_byte_def d c64(2) b t x(2) y(2))
  with sc show ?thesis by metis
qed

lemma runs_first_scalar:
  assumes "runs 0 (b # bs)"
  shows "\<exists>c rest. is_scalar c \<and> b # bs = utf8_encode c @ rest \<and> runs 0 rest"
proof -
  have ns: "next_state 0 b \<noteq> 1" "runs (next_state 0 b) bs" using assms by simp_all
  have glue: "\<exists>c rest. is_scalar c \<and> b # pre @ rs = utf8_encode c @ rest \<and> runs 0 rest"
    if "\<exists>c. is_scalar c \<and> b # pre = utf8_encode c" "runs 0 rs" for pre rs
    using that by (metis append_Cons)
  consider "unat b < 0x80" | "0xC2 \<le> unat b" "unat b < 0xE0" | "unat b = 0xE0" | "unat b = 0xED"
    | "0xE0 < unat b" "unat b < 0xF0" "unat b \<noteq> 0xED" | "unat b = 0xF0"
    | "0xF0 < unat b" "unat b < 0xF4" | "unat b = 0xF4"
    using ns(1) by (auto simp: next_state_accept split: if_splits)
  then show ?thesis
  proof cases
    case 1
    then have "[b] = utf8_encode (unat b)" "is_scalar (unat b)"
      by (simp_all add: utf8_encode_def is_scalar_def)
    with glue [of "[]" bs] ns(2) 1 show ?thesis by (auto simp: next_state_accept)
  next
    case 2
    then obtain t r where t: "bs = t # r" "is_tail t" "runs 0 r"
      using ns(2) by (auto simp: next_state_accept runs_2 split: if_splits)
    have "\<exists>c. is_scalar c \<and> [b, t] = utf8_encode c"
      by (rule encode2 [of b "unat b - 0xC0"]) (use 2 t in auto)
    with glue [of "[t]" r] t show ?thesis by simp
  next
    case 3
    then obtain t u r where t: "bs = t # u # r" "0xa0 \<le> unat t" "unat t < 0xc0" "is_tail u" "runs 0 r"
      using ns(2) by (auto simp: next_state_accept runs_2 runs_4)
    have "\<exists>c. is_scalar c \<and> [b, t, u] = utf8_encode c"
      by (rule encode3 [of b "unat b - 0xE0" t "unat t - 0x80"]) (use 3 t in auto)
    with glue [of "[t, u]" r] t show ?thesis by simp
  next
    case 4
    then obtain t u r where t: "bs = t # u # r" "0x80 \<le> unat t" "unat t < 0xa0" "is_tail u" "runs 0 r"
      using ns(2) by (auto simp: next_state_accept runs_2 runs_5)
    have "\<exists>c. is_scalar c \<and> [b, t, u] = utf8_encode c"
      by (rule encode3 [of b "unat b - 0xE0" t "unat t - 0x80"]) (use 4 t in auto)
    with glue [of "[t, u]" r] t show ?thesis by simp
  next
    case 5
    then obtain t u r where t: "bs = t # u # r" "is_tail t" "is_tail u" "runs 0 r"
      using ns(2) by (auto simp: next_state_accept runs_2 runs_3 split: if_splits)
    have "\<exists>c. is_scalar c \<and> [b, t, u] = utf8_encode c"
      by (rule encode3 [of b "unat b - 0xE0" t "unat t - 0x80"]) (use 5 t in auto)
    with glue [of "[t, u]" r] t show ?thesis by simp
  next
    case 6
    then obtain t u v r where t: "bs = t # u # v # r" "0x90 \<le> unat t" "unat t < 0xc0"
        "is_tail u" "is_tail v" "runs 0 r"
      using ns(2) by (auto simp: next_state_accept runs_2 runs_3 runs_6)
    have "\<exists>c. is_scalar c \<and> [b, t, u, v] = utf8_encode c"
      by (rule encode4 [of b "unat b - 0xF0" t "unat t - 0x80"]) (use 6 t in auto)
    with glue [of "[t, u, v]" r] t show ?thesis by simp
  next
    case 7
    then obtain t u v r where t: "bs = t # u # v # r" "is_tail t" "is_tail u" "is_tail v" "runs 0 r"
      using ns(2) by (auto simp: next_state_accept runs_2 runs_3 runs_7 split: if_splits)
    have "\<exists>c. is_scalar c \<and> [b, t, u, v] = utf8_encode c"
      by (rule encode4 [of b "unat b - 0xF0" t "unat t - 0x80"]) (use 7 t in auto)
    with glue [of "[t, u, v]" r] t show ?thesis by simp
  next
    case 8
    then obtain t u v r where t: "bs = t # u # v # r" "0x80 \<le> unat t" "unat t < 0x90"
        "is_tail u" "is_tail v" "runs 0 r"
      using ns(2) by (auto simp: next_state_accept runs_2 runs_3 runs_8)
    have "\<exists>c. is_scalar c \<and> [b, t, u, v] = utf8_encode c"
      by (rule encode4 [of b "unat b - 0xF0" t "unat t - 0x80"]) (use 8 t in auto)
    with glue [of "[t, u, v]" r] t show ?thesis by simp
  qed
qed

lemma length_utf8_encode_pos: "0 < length (utf8_encode c)"
  by (simp add: utf8_encode_def)

lemma runs_language:
  "runs 0 bs \<longleftrightarrow> (\<exists>cs. list_all is_scalar cs \<and> bs = concat (map utf8_encode cs))"
proof
  show "\<exists>cs. list_all is_scalar cs \<and> bs = concat (map utf8_encode cs)" if "runs 0 bs"
    using that
  proof (induction "length bs" arbitrary: bs rule: less_induct)
    case less
    show ?case
    proof (cases bs)
      case Nil
      then show ?thesis by (intro exI [of _ "[]"]) simp
    next
      case (Cons b bs')
      obtain c rest where c: "is_scalar c" "bs = utf8_encode c @ rest" "runs 0 rest"
        using runs_first_scalar less.prems Cons by blast
      then have "length rest < length bs" using length_utf8_encode_pos [of c] by simp
      then obtain cs where "list_all is_scalar cs" "rest = concat (map utf8_encode cs)"
        using less.hyps c(3) by blast
      with c show ?thesis by (intro exI [of _ "c # cs"]) simp
    qed
  qed
next
  assume "\<exists>cs. list_all is_scalar cs \<and> bs = concat (map utf8_encode cs)"
  then obtain cs where cs: "list_all is_scalar cs" "bs = concat (map utf8_encode cs)" by blast
  have "runs 0 (concat (map utf8_encode cs))"
    using cs(1) by (induction cs) (simp_all add: runs_scalar)
  then show "runs 0 bs" by (simp add: cs(2))
qed

subsection \<open>The accumulated code point\<close>

definition lead_value :: "nat \<Rightarrow> nat" where
  "lead_value n = (if n < 0x80 then n else if n < 0xE0 then n - 0xC0 else if n < 0xF0 then n - 0xE0 else n - 0xF0)"

lemma utf8d_class_unat: "unat (ucast (utf8d ! unat (b::u8)) :: u32) = byte_class (unat b)"
proof -
  have "byte_class (unat b) < 2 ^ LENGTH(32)" using byte_class_less [of "unat b"] by simp
  then show ?thesis unfolding utf8d_class_word by (rule unat_of_nat_small)
qed

lemma lead_bits:
  assumes "unat b < 0x80 \<or> 0xC2 \<le> unat b \<and> unat b < 0xF5"
  shows "snd (decode 0 k b) = of_nat (lead_value (unat b))"
proof -
  have "list_all (\<lambda>n. n < 0x80 \<or> 0xC2 \<le> n \<and> n < 0xF5 \<longrightarrow>
          drop_bit (byte_class n) 0xff AND (of_nat n :: u32) = of_nat (lead_value n)) [0..<256]"
    by code_simp
  then have "\<forall>n\<in>{0..<256}. n < 0x80 \<or> 0xC2 \<le> n \<and> n < 0xF5 \<longrightarrow>
          drop_bit (byte_class n) 0xff AND (of_nat n :: u32) = of_nat (lead_value n)"
    by (simp only: list_all_iff set_upt)
  from bspec [OF this, of "unat b"] assms
  have "drop_bit (byte_class (unat b)) 0xff AND (of_nat (unat b) :: u32) = of_nat (lead_value (unat b))"
    by simp
  then show ?thesis
    by (simp add: decode_def Let_def utf8_accept_def utf8d_class_unat)
qed

lemma tail_bits:
  assumes "s \<noteq> 0"
  shows "snd (decode s (of_nat k) (tail_byte n)) = of_nat (k * 64 + n mod 64)"
proof -
  have "list_all (\<lambda>m. (of_nat (0x80 + m) :: u32) AND 0x3f = of_nat m) [0..<64]" by code_simp
  then have low: "(of_nat (0x80 + n mod 64) :: u32) AND 0x3f = of_nat (n mod 64)"
    by (simp only: list_all_iff set_upt) simp
  have "(ucast (tail_byte n) :: u32) = of_nat (unat (tail_byte n))" by simp
  also have "\<dots> = of_nat (0x80 + n mod 64)" by (simp only: unat_tail_byte)
  finally have "snd (decode s (of_nat k) (tail_byte n)) = of_nat (n mod 64) OR push_bit 6 (of_nat k)"
    using assms low by (simp add: decode_def Let_def utf8_accept_def del: of_nat_add)
  also have "\<dots> = of_nat (n mod 64 OR push_bit 6 k)"
    by (simp only: of_nat_or_eq push_bit_of_nat)
  also have "n mod 64 OR push_bit 6 k = n mod 64 + k * 2 ^ 6"
    by (rule nat_or_digit) simp
  finally show ?thesis by (simp add: add.commute)
qed

lemma decode_pair: "decode s k b = (next_state s b, snd (decode s k b))"
  by (rule prod_eqI) (simp_all add: fst_decode)

lemma validator_decode_step:
  "validator_decode \<lparr>m_state = s, m_codepoint = k\<rparr> (b # bs) =
     (if next_state s b = 1 then (False, \<lparr>m_state = next_state s b, m_codepoint = snd (decode s k b)\<rparr>)
      else validator_decode \<lparr>m_state = next_state s b, m_codepoint = snd (decode s k b)\<rparr> bs)"
  by (simp add: utf8_reject_def Let_def case_prod_unfold fst_decode)

declare validator_decode.simps(2) [simp del]

lemma lead_step:
  assumes "n < 0xF5" "n < 0x80 \<or> 0xC2 \<le> n"
  shows "snd (decode 0 k (of_nat n)) = of_nat (lead_value n)"
proof -
  have "unat (of_nat n :: u8) = n" using assms(1) by (simp add: unat_of_nat_small)
  with lead_bits [of "of_nat n" k] assms show ?thesis by simp
qed

lemma next_state_mid: "s \<in> {3, 4, 5} \<Longrightarrow> next_state s t \<noteq> 1 \<Longrightarrow> next_state s t = 2"
  by (auto simp: next_state_simps split: if_splits)

lemma next_state_high: "s \<in> {6, 7, 8} \<Longrightarrow> next_state s t \<noteq> 1 \<Longrightarrow> next_state s t = 3"
  by (auto simp: next_state_simps split: if_splits)

lemma decode_last:
  "validator_decode \<lparr>m_state = 2, m_codepoint = of_nat l\<rparr> [tail_byte x] =
     (True, \<lparr>m_state = 0, m_codepoint = of_nat (l * 64 + x mod 64)\<rparr>)"
  by (simp add: validator_decode_step tail_bits next_state_2 unat_tail_byte del: of_nat_add of_nat_mult)

lemma decode_mid:
  assumes "s \<in> {3, 4, 5}" "next_state s (tail_byte x) \<noteq> 1"
  shows "validator_decode \<lparr>m_state = s, m_codepoint = of_nat l\<rparr> [tail_byte x, tail_byte y] =
     (True, \<lparr>m_state = 0, m_codepoint = of_nat ((l * 64 + x mod 64) * 64 + y mod 64)\<rparr>)"
proof -
  have "s \<noteq> 0" using assms(1) by auto
  then show ?thesis
    using next_state_mid [OF assms] decode_last [of "l * 64 + x mod 64" y]
    by (simp add: validator_decode_step [of s] tail_bits del: of_nat_add of_nat_mult)
qed

lemma decode_high:
  assumes "s \<in> {6, 7, 8}" "next_state s (tail_byte w) \<noteq> 1"
  shows "validator_decode \<lparr>m_state = s, m_codepoint = of_nat l\<rparr> [tail_byte w, tail_byte x, tail_byte y] =
     (True, \<lparr>m_state = 0, m_codepoint = of_nat (((l * 64 + w mod 64) * 64 + x mod 64) * 64 + y mod 64)\<rparr>)"
proof -
  have "s \<noteq> 0" using assms(1) by auto
  moreover have "next_state 3 (tail_byte x) \<noteq> 1" by (simp add: next_state_3 unat_tail_byte)
  ultimately show ?thesis
    using next_state_high [OF assms] decode_mid [of 3 x "l * 64 + w mod 64" y]
    by (simp add: validator_decode_step [of s] tail_bits del: of_nat_add of_nat_mult)
qed

lemma validator_decode_scalar:
  assumes "is_scalar c"
  shows "validator_decode \<lparr>m_state = 0, m_codepoint = k\<rparr> (utf8_encode c) =
    (True, \<lparr>m_state = 0, m_codepoint = of_nat c\<rparr>)"
proof -
  have acc: "runs 0 (utf8_encode c)" using runs_scalar [OF assms, of "[]"] by simp
  have split64: "x div 64 * 64 + x mod 64 = x" for x :: nat by (rule div_mult_mod_eq)
  have d1: "c div 4096 = c div 64 div 64" "c div 262144 = c div 4096 div 64"
    by (simp_all add: div_mult2_eq [symmetric])
  consider "c < 0x80" | "0x80 \<le> c" "c < 0x800" | "0x800 \<le> c" "c < 0x10000"
    | "0x10000 \<le> c" "c < 0x110000"
    using assms by (fastforce simp: is_scalar_def)
  then show ?thesis
  proof cases
    case 1
    then show ?thesis
      using acc lead_step [of c k] by (simp add: utf8_encode_def validator_decode_step lead_value_def)
  next
    case 2
    let ?b = "of_nat (0xC0 + c div 64) :: u8"
    have q: "2 \<le> c div 64" "c div 64 < 32" using 2 by simp_all
    then have lead: "snd (decode 0 k ?b) = of_nat (c div 64)"
      using lead_step [of "0xC0 + c div 64" k] by (simp add: lead_value_def del: of_nat_add)
    have st: "next_state 0 ?b = 2"
      using q by (simp add: next_state_accept unat_of_nat_small del: of_nat_add of_nat_numeral)
    show ?thesis
      using 2 decode_last [of "c div 64" c] unfolding split64
      by (simp add: utf8_encode_def validator_decode_step [of 0] lead st del: of_nat_add)
  next
    case 3
    let ?b = "of_nat (0xE0 + c div 4096) :: u8"
    have "c div 4096 < 16" using 3 by simp
    then have lead: "snd (decode 0 k ?b) = of_nat (c div 4096)"
      using lead_step [of "0xE0 + c div 4096" k] by (simp add: lead_value_def del: of_nat_add)
    have st: "next_state 0 ?b \<in> {3, 4, 5}" "next_state 0 ?b \<noteq> 1"
      using \<open>c div 4096 < 16\<close> by (simp_all add: next_state_accept unat_of_nat_small del: of_nat_add of_nat_numeral)
    moreover have "next_state (next_state 0 ?b) (tail_byte (c div 64)) \<noteq> 1"
      using acc 3 by (simp add: utf8_encode_def del: of_nat_add)
    ultimately show ?thesis
      using 3 decode_mid [of "next_state 0 ?b" "c div 64" "c div 4096" c] unfolding d1 split64
      by (simp add: utf8_encode_def validator_decode_step [of 0] lead [unfolded d1] d1 del: of_nat_add)
  next
    case 4
    let ?b = "of_nat (0xF0 + c div 262144) :: u8"
    have "c div 262144 < 5" using 4 by simp
    then have lead: "snd (decode 0 k ?b) = of_nat (c div 262144)"
      using lead_step [of "0xF0 + c div 262144" k] by (simp add: lead_value_def del: of_nat_add)
    have st: "next_state 0 ?b \<in> {6, 7, 8}" "next_state 0 ?b \<noteq> 1"
      using \<open>c div 262144 < 5\<close> by (simp_all add: next_state_accept unat_of_nat_small del: of_nat_add of_nat_numeral)
    moreover have "next_state (next_state 0 ?b) (tail_byte (c div 4096)) \<noteq> 1"
      using acc 4 by (simp add: utf8_encode_def del: of_nat_add)
    ultimately show ?thesis
      using 4 decode_high [of "next_state 0 ?b" "c div 4096" "c div 262144" "c div 64" c] unfolding d1 split64
      by (simp add: utf8_encode_def validator_decode_step [of 0] lead [unfolded d1] d1 del: of_nat_add)
  qed
qed

subsection \<open>Properties\<close>

text \<open>
  C17: a byte string is accepted by \<^verbatim>\<open>validate\<close> exactly when it is the concatenation of the UTF-8
  encodings of a list of Unicode scalar values; no overlong form, surrogate, value above U+10FFFF
  or truncated sequence is accepted, and none of the encodings is refused.
\<close>

theorem validate_iff_encoded_scalars:
  "validate s \<longleftrightarrow> (\<exists>cs. list_all is_scalar cs \<and> s = concat (map utf8_encode cs))"
  by (simp add: validate_runs runs_language)

text \<open>
  Decoding the encoding of a scalar value, from any validator that is at a code point boundary,
  succeeds, ends at a boundary again and leaves exactly that value in \<^verbatim>\<open>m_codepoint\<close>.
\<close>

theorem decode_encoded_scalar:
  assumes "is_scalar c" and "complete v"
  shows "validator_decode v (utf8_encode c) = (True, v\<lparr>m_codepoint := of_nat c\<rparr>)"
  using validator_decode_scalar [OF assms(1), of "m_codepoint v"] assms(2)
  by (cases v) (simp add: complete_def utf8_accept_def)

theorem decode_encoded_scalar_witness:
  "validator_decode validator_init (utf8_encode 0x20AC) = (True, validator_init\<lparr>m_codepoint := 0x20AC\<rparr>)"
proof -
  have "is_scalar 0x20AC" "complete validator_init"
    by (simp_all add: is_scalar_def complete_def validator_init_def)
  from decode_encoded_scalar [OF this] show ?thesis by simp
qed

end
