(* ===== verification/Close_Status.thy ===== *)
theory Close_Status
  imports Utf8 Byte_Order
begin

text \<open>
  The error categories of \<^verbatim>\<open>websocketpp/error.hpp\<close> and \<^verbatim>\<open>websocketpp/processors/base.hpp\<close>, and the
  close codes of \<^verbatim>\<open>websocketpp/close.hpp\<close>: which codes are reserved, invalid on the wire or terminal,
  and how a code and a reason are read from a close payload. A \<^verbatim>\<open>lib::error_code\<close> is an optional error:
  None is the default, successful code.
\<close>

subsection \<open>Error codes\<close>

datatype lib_error =
    E_general | E_send_queue_full | E_payload_violation | E_endpoint_not_secure
  | E_endpoint_unavailable | E_invalid_uri | E_no_outgoing_buffers | E_no_incoming_buffers
  | E_invalid_state | E_bad_close_code | E_reserved_close_code | E_invalid_close_code
  | E_invalid_utf8 | E_invalid_subprotocol | E_bad_connection | E_test | E_con_creation_failed
  | E_unrequested_subprotocol | E_client_only | E_server_only | E_http_connection_ended
  | E_open_handshake_timeout | E_close_handshake_timeout | E_invalid_port
  | E_async_accept_not_listening | E_operation_canceled

fun lib_error_value :: "lib_error \<Rightarrow> nat" where
  "lib_error_value E_general = 1"
| "lib_error_value E_send_queue_full = 2"
| "lib_error_value E_payload_violation = 3"
| "lib_error_value E_endpoint_not_secure = 4"
| "lib_error_value E_endpoint_unavailable = 5"
| "lib_error_value E_invalid_uri = 6"
| "lib_error_value E_no_outgoing_buffers = 7"
| "lib_error_value E_no_incoming_buffers = 8"
| "lib_error_value E_invalid_state = 9"
| "lib_error_value E_bad_close_code = 10"
| "lib_error_value E_reserved_close_code = 11"
| "lib_error_value E_invalid_close_code = 12"
| "lib_error_value E_invalid_utf8 = 13"
| "lib_error_value E_invalid_subprotocol = 14"
| "lib_error_value E_bad_connection = 15"
| "lib_error_value E_test = 16"
| "lib_error_value E_con_creation_failed = 17"
| "lib_error_value E_unrequested_subprotocol = 18"
| "lib_error_value E_client_only = 19"
| "lib_error_value E_server_only = 20"
| "lib_error_value E_http_connection_ended = 21"
| "lib_error_value E_open_handshake_timeout = 22"
| "lib_error_value E_close_handshake_timeout = 23"
| "lib_error_value E_invalid_port = 24"
| "lib_error_value E_async_accept_not_listening = 25"
| "lib_error_value E_operation_canceled = 26"

fun lib_message :: "lib_error \<Rightarrow> string" where
  "lib_message E_general = ''Generic error''"
| "lib_message E_send_queue_full = ''send queue full''"
| "lib_message E_payload_violation = ''payload violation''"
| "lib_message E_endpoint_not_secure = ''endpoint not secure''"
| "lib_message E_endpoint_unavailable = ''endpoint not available''"
| "lib_message E_invalid_uri = ''invalid uri''"
| "lib_message E_no_outgoing_buffers = ''no outgoing message buffers''"
| "lib_message E_no_incoming_buffers = ''no incoming message buffers''"
| "lib_message E_invalid_state = ''invalid state''"
| "lib_message E_bad_close_code = ''Unable to extract close code''"
| "lib_message E_reserved_close_code = ''Extracted close code is in a reserved range''"
| "lib_message E_invalid_close_code = ''Extracted close code is in an invalid range''"
| "lib_message E_invalid_utf8 = ''Invalid UTF-8''"
| "lib_message E_invalid_subprotocol = ''Invalid subprotocol''"
| "lib_message E_bad_connection = ''Bad Connection''"
| "lib_message E_test = ''Test Error''"
| "lib_message E_con_creation_failed = ''Connection creation attempt failed''"
| "lib_message E_unrequested_subprotocol = ''Selected subprotocol was not requested by the client''"
| "lib_message E_client_only = ''Feature not available on server endpoints''"
| "lib_message E_server_only = ''Feature not available on client endpoints''"
| "lib_message E_http_connection_ended = ''HTTP connection ended''"
| "lib_message E_open_handshake_timeout = ''The opening handshake timed out''"
| "lib_message E_close_handshake_timeout = ''The closing handshake timed out''"
| "lib_message E_invalid_port = ''Invalid URI port''"
| "lib_message E_async_accept_not_listening = ''Async Accept not listening''"
| "lib_message E_operation_canceled = ''Operation canceled''"

datatype processor_error =
    P_general | P_bad_request | P_protocol_violation | P_message_too_big | P_invalid_payload
  | P_invalid_arguments | P_invalid_opcode | P_control_too_big | P_invalid_rsv_bit
  | P_fragmented_control | P_invalid_continuation | P_masking_required | P_masking_forbidden
  | P_non_minimal_encoding | P_requires_64bit | P_invalid_utf8 | P_not_implemented
  | P_invalid_http_method | P_invalid_http_version | P_invalid_http_status
  | P_missing_required_header | P_sha1_library | P_no_protocol_support | P_reserved_close_code
  | P_invalid_close_code | P_reason_requires_code | P_subprotocol_parse_error
  | P_extension_parse_error | P_extensions_disabled

fun processor_error_value :: "processor_error \<Rightarrow> nat" where
  "processor_error_value P_general = 1"
| "processor_error_value P_bad_request = 2"
| "processor_error_value P_protocol_violation = 3"
| "processor_error_value P_message_too_big = 4"
| "processor_error_value P_invalid_payload = 5"
| "processor_error_value P_invalid_arguments = 6"
| "processor_error_value P_invalid_opcode = 7"
| "processor_error_value P_control_too_big = 8"
| "processor_error_value P_invalid_rsv_bit = 9"
| "processor_error_value P_fragmented_control = 10"
| "processor_error_value P_invalid_continuation = 11"
| "processor_error_value P_masking_required = 12"
| "processor_error_value P_masking_forbidden = 13"
| "processor_error_value P_non_minimal_encoding = 14"
| "processor_error_value P_requires_64bit = 15"
| "processor_error_value P_invalid_utf8 = 16"
| "processor_error_value P_not_implemented = 17"
| "processor_error_value P_invalid_http_method = 18"
| "processor_error_value P_invalid_http_version = 19"
| "processor_error_value P_invalid_http_status = 20"
| "processor_error_value P_missing_required_header = 21"
| "processor_error_value P_sha1_library = 22"
| "processor_error_value P_no_protocol_support = 23"
| "processor_error_value P_reserved_close_code = 24"
| "processor_error_value P_invalid_close_code = 25"
| "processor_error_value P_reason_requires_code = 26"
| "processor_error_value P_subprotocol_parse_error = 27"
| "processor_error_value P_extension_parse_error = 28"
| "processor_error_value P_extensions_disabled = 29"

fun processor_message :: "processor_error \<Rightarrow> string" where
  "processor_message P_general = ''Generic processor error''"
| "processor_message P_bad_request = ''invalid user input''"
| "processor_message P_protocol_violation = ''Generic protocol violation''"
| "processor_message P_message_too_big = ''A message was too large''"
| "processor_message P_invalid_payload = ''A payload contained invalid data''"
| "processor_message P_invalid_arguments = ''invalid function arguments''"
| "processor_message P_invalid_opcode = ''invalid opcode''"
| "processor_message P_control_too_big = ''Control messages are limited to fewer than 125 characters''"
| "processor_message P_invalid_rsv_bit = ''Invalid use of reserved bits''"
| "processor_message P_fragmented_control = ''Control messages cannot be fragmented''"
| "processor_message P_invalid_continuation = ''Invalid message continuation''"
| "processor_message P_masking_required = ''Clients may not send unmasked frames''"
| "processor_message P_masking_forbidden = ''Servers may not send masked frames''"
| "processor_message P_non_minimal_encoding = ''Payload length was not minimally encoded''"
| "processor_message P_requires_64bit = ''64 bit frames are not supported on 32 bit systems''"
| "processor_message P_invalid_utf8 = ''Invalid UTF8 encoding''"
| "processor_message P_not_implemented = ''Operation required not implemented functionality''"
| "processor_message P_invalid_http_method = ''Invalid HTTP method.''"
| "processor_message P_invalid_http_version = ''Invalid HTTP version.''"
| "processor_message P_invalid_http_status = ''Invalid HTTP status.''"
| "processor_message P_missing_required_header = ''A required HTTP header is missing''"
| "processor_message P_sha1_library = ''SHA-1 library error''"
| "processor_message P_no_protocol_support = ''The WebSocket protocol version in use does not support this feature''"
| "processor_message P_reserved_close_code = ''Reserved close code used''"
| "processor_message P_invalid_close_code = ''Invalid close code used''"
| "processor_message P_reason_requires_code = ''Using a close reason requires a valid close code''"
| "processor_message P_subprotocol_parse_error = ''Error parsing subprotocol header''"
| "processor_message P_extension_parse_error = ''Error parsing extension header''"
| "processor_message P_extensions_disabled = ''Extensions are disabled''"

text \<open>The errors a transport reports (\<^verbatim>\<open>transport/base/connection.hpp\<close>).\<close>

datatype transport_error =
    T_general | T_pass_through | T_invalid_num_bytes | T_double_read | T_operation_aborted
  | T_operation_not_supported | T_eof | T_tls_short_read | T_timeout | T_action_after_shutdown | T_tls_error

fun transport_error_value :: "transport_error \<Rightarrow> nat" where
  "transport_error_value T_general = 1"
| "transport_error_value T_pass_through = 2"
| "transport_error_value T_invalid_num_bytes = 3"
| "transport_error_value T_double_read = 4"
| "transport_error_value T_operation_aborted = 5"
| "transport_error_value T_operation_not_supported = 6"
| "transport_error_value T_eof = 7"
| "transport_error_value T_tls_short_read = 8"
| "transport_error_value T_timeout = 9"
| "transport_error_value T_action_after_shutdown = 10"
| "transport_error_value T_tls_error = 11"

fun transport_message :: "transport_error \<Rightarrow> string" where
  "transport_message T_general = ''Generic transport policy error''"
| "transport_message T_pass_through = ''Underlying Transport Error''"
| "transport_message T_invalid_num_bytes = ''async_read_at_least call requested more bytes than buffer can store''"
| "transport_message T_double_read = ''Unknown''"
| "transport_message T_operation_aborted = ''The operation was aborted''"
| "transport_message T_operation_not_supported = ''The operation is not supported by this transport''"
| "transport_message T_eof = ''End of File''"
| "transport_message T_tls_short_read = ''TLS Short Read''"
| "transport_message T_timeout = ''Timer Expired''"
| "transport_message T_action_after_shutdown = ''A transport action was requested after shutdown''"
| "transport_message T_tls_error = ''Generic TLS related error''"

datatype error_code = Lib lib_error | Processor processor_error | Transport transport_error

text \<open>\<^verbatim>\<open>error_code\<close> values are compared as pairs of category and number.\<close>

fun error_code_pair :: "error_code \<Rightarrow> string \<times> nat" where
  "error_code_pair (Lib e) = (''websocketpp'', lib_error_value e)"
| "error_code_pair (Processor e) = (''websocketpp.processor'', processor_error_value e)"
| "error_code_pair (Transport e) = (''websocketpp.transport'', transport_error_value e)"

fun error_message :: "error_code \<Rightarrow> string" where
  "error_message (Lib e) = lib_message e"
| "error_message (Processor e) = processor_message e"
| "error_message (Transport e) = transport_message e"

type_synonym ec = "error_code option"

subsection \<open>Close codes\<close>

definition status_blank :: u16 where "status_blank = 0"
definition status_omit_handshake :: u16 where "status_omit_handshake = 1"
definition status_force_tcp_drop :: u16 where "status_force_tcp_drop = 2"
definition status_normal :: u16 where "status_normal = 1000"
definition status_going_away :: u16 where "status_going_away = 1001"
definition status_protocol_error :: u16 where "status_protocol_error = 1002"
definition status_unsupported_data :: u16 where "status_unsupported_data = 1003"
definition status_no_status :: u16 where "status_no_status = 1005"
definition status_abnormal_close :: u16 where "status_abnormal_close = 1006"
definition status_invalid_payload :: u16 where "status_invalid_payload = 1007"
definition status_policy_violation :: u16 where "status_policy_violation = 1008"
definition status_message_too_big :: u16 where "status_message_too_big = 1009"
definition status_extension_required :: u16 where "status_extension_required = 1010"
definition status_internal_endpoint_error :: u16 where "status_internal_endpoint_error = 1011"
definition status_service_restart :: u16 where "status_service_restart = 1012"
definition status_try_again_later :: u16 where "status_try_again_later = 1013"
definition status_tls_handshake :: u16 where "status_tls_handshake = 1015"
definition status_rsv_start :: u16 where "status_rsv_start = 1016"
definition status_rsv_end :: u16 where "status_rsv_end = 2999"
definition status_invalid_low :: u16 where "status_invalid_low = 999"
definition status_invalid_high :: u16 where "status_invalid_high = 5000"

lemmas status_defs [wire_simps] = status_blank_def status_omit_handshake_def
  status_force_tcp_drop_def status_normal_def status_going_away_def status_protocol_error_def
  status_unsupported_data_def status_no_status_def status_abnormal_close_def
  status_invalid_payload_def status_policy_violation_def status_message_too_big_def
  status_extension_required_def status_internal_endpoint_error_def status_service_restart_def
  status_try_again_later_def status_tls_handshake_def status_rsv_start_def status_rsv_end_def
  status_invalid_low_def status_invalid_high_def

definition status_reserved :: "u16 \<Rightarrow> bool" where
  "status_reserved code \<longleftrightarrow>
     (code \<ge> status_rsv_start \<and> code \<le> status_rsv_end) \<or> code = 1004 \<or> code = 1014"

definition status_invalid :: "u16 \<Rightarrow> bool" where
  "status_invalid code \<longleftrightarrow>
     code \<le> status_invalid_low \<or> code \<ge> status_invalid_high \<or>
     code = status_no_status \<or> code = status_abnormal_close \<or> code = status_tls_handshake"

definition status_terminal :: "u16 \<Rightarrow> bool" where
  "status_terminal code \<longleftrightarrow>
     code = status_protocol_error \<or> code = status_invalid_payload \<or>
     code = status_policy_violation \<or> code = status_message_too_big \<or>
     code = status_internal_endpoint_error"

definition status_get_string :: "u16 \<Rightarrow> string" where
  "status_get_string code =
     (if code = status_normal then ''Normal close''
      else if code = status_going_away then ''Going away''
      else if code = status_protocol_error then ''Protocol error''
      else if code = status_unsupported_data then ''Unsupported data''
      else if code = status_no_status then ''No status set''
      else if code = status_abnormal_close then ''Abnormal close''
      else if code = status_invalid_payload then ''Invalid payload''
      else if code = status_policy_violation then ''Policy violoation''
      else if code = status_message_too_big then ''Message too big''
      else if code = status_extension_required then ''Extension required''
      else if code = status_internal_endpoint_error then ''Internal endpoint error''
      else if code = status_tls_handshake then ''TLS handshake failure''
      else ''Unknown'')"

text \<open>The close code sent for a processor error; other errors have none.\<close>

fun to_ws :: "error_code \<Rightarrow> u16" where
  "to_ws (Lib e) = status_blank"
| "to_ws (Transport e) = status_blank"
| "to_ws (Processor e) =
     (case e of
        P_protocol_violation \<Rightarrow> status_protocol_error
      | P_control_too_big \<Rightarrow> status_protocol_error
      | P_invalid_opcode \<Rightarrow> status_protocol_error
      | P_invalid_rsv_bit \<Rightarrow> status_protocol_error
      | P_fragmented_control \<Rightarrow> status_protocol_error
      | P_invalid_continuation \<Rightarrow> status_protocol_error
      | P_masking_required \<Rightarrow> status_protocol_error
      | P_masking_forbidden \<Rightarrow> status_protocol_error
      | P_reserved_close_code \<Rightarrow> status_protocol_error
      | P_invalid_close_code \<Rightarrow> status_protocol_error
      | P_invalid_payload \<Rightarrow> status_invalid_payload
      | P_invalid_utf8 \<Rightarrow> status_invalid_payload
      | P_message_too_big \<Rightarrow> status_message_too_big
      | _ \<Rightarrow> status_internal_endpoint_error)"

subsection \<open>Close payloads\<close>

definition extract_code :: "bytes \<Rightarrow> u16 \<times> ec" where
  "extract_code payload =
     (if length payload = 0 then (status_no_status, None)
      else if length payload = 1 then (status_protocol_error, Some (Lib E_bad_close_code))
      else
        let code = ntohs (of_le [payload ! 0, payload ! 1]);
            ec1 = (if status_invalid code then Some (Lib E_invalid_close_code) else None);
            ec2 = (if status_reserved code then Some (Lib E_reserved_close_code) else ec1)
        in (code, ec2))"

definition extract_reason :: "bytes \<Rightarrow> bytes \<times> ec" where
  "extract_reason payload =
     (let reason = (if length payload > 2 then drop 2 payload else [])
      in (reason, if \<not> validate reason then Some (Lib E_invalid_utf8) else None))"

subsection \<open>Lemmas\<close>

lemma status_classes_disjoint: "\<not> (status_reserved code \<and> status_invalid code)"
  by (auto simp: status_reserved_def status_invalid_def status_defs word_le_nat_alt word_less_nat_alt)

lemma error_code_pair_inject [simp]: "error_code_pair a = error_code_pair b \<longleftrightarrow> a = b"
proof -
  have lib: "lib_error_value e = lib_error_value f \<longleftrightarrow> e = f" for e f by (cases e; cases f) simp_all
  have pro: "processor_error_value e = processor_error_value f \<longleftrightarrow> e = f" for e f
    by (cases e; cases f) simp_all
  have tra: "transport_error_value e = transport_error_value f \<longleftrightarrow> e = f" for e f by (cases e; cases f) simp_all
  show ?thesis by (cases a; cases b) (auto simp: lib pro tra)
qed

lemma extract_code_pair:
  "fst (extract_code (a # b # rest)) = ntohs (of_le [a, b])"
  "snd (extract_code (a # b # rest)) =
     (if status_reserved (ntohs (of_le [a, b])) then Some (Lib E_reserved_close_code)
      else if status_invalid (ntohs (of_le [a, b])) then Some (Lib E_invalid_close_code) else None)"
  by (simp_all add: extract_code_def Let_def del: of_le.simps)

subsection \<open>Properties\<close>

text \<open>
  C30: a close payload of at least two octets carries the code whose big-endian image they are, and
  it is accepted without error exactly for the codes that may appear on the wire: 1000 to 1003,
  1007 to 1013 and 3000 to 4999.
\<close>

theorem extract_code_accepts_wire_codes:
  "let n = 256 * unat a + unat b; r = extract_code (a # b # rest)
   in unat (fst r) = n \<and>
      (snd r = None) = (1000 \<le> n \<and> n \<le> 1003 \<or> 1007 \<le> n \<and> n \<le> 1013 \<or> 3000 \<le> n \<and> n \<le> 4999)"
proof -
  define w where "w = ntohs (of_le [a, b])"
  have n: "unat w = 256 * unat a + unat b" unfolding w_def by (rule unat_ntohs_pair)
  have "(\<not> status_reserved w \<and> \<not> status_invalid w) =
      (1000 \<le> unat w \<and> unat w \<le> 1003 \<or> 1007 \<le> unat w \<and> unat w \<le> 1013 \<or> 3000 \<le> unat w \<and> unat w \<le> 4999)"
    by (auto simp: status_reserved_def status_invalid_def status_defs word_le_nat_alt word_unat_eq_iff)
  then show ?thesis
    unfolding Let_def extract_code_pair w_def [symmetric] n [symmetric] by auto
qed

end
