(* ===== verification/Flint_Objects.thy ===== *)
theory Flint_Objects
  imports Xml_Http_Request Frame Close_Status
begin

text \<open>
  The other objects of the plugin: the web socket object (\<^verbatim>\<open>FlintWebSocketAPI\<close>), the SSDP object
  (\<^verbatim>\<open>FlintSSDPResponderAPI\<close>), the root object (\<^verbatim>\<open>FlintPluginAPI\<close>) and the plugin with its i/o thread
  (\<^verbatim>\<open>FlintPlugin\<close>). FireBreath, which delivers events and variants, and \<^verbatim>\<open>boost::asio\<close> are outside.
\<close>

subsection \<open>FlintWebSocketAPI\<close>

datatype ws_task = Close_task u16 string | Send_task string

datatype ws_event = Event_open | Event_close | Event_error | Event_message string

text \<open>
  The client has an io_service once \<^verbatim>\<open>init_asio\<close> was called, which throws on a second call; the handle
  names a connection once \<^verbatim>\<open>open\<close> has made one. Tasks wait in the io_service, events went to scripts.
\<close>

record web_socket =
  ws_url :: string
  asio_ready :: bool
  ws_connected :: bool
  thread_running :: bool
  ws_tasks :: "ws_task list"
  ws_events :: "ws_event list"

definition make_web_socket :: "string \<Rightarrow> web_socket" where
  "make_web_socket address =
     \<lparr>ws_url = address, asio_ready = False, ws_connected = False, thread_running = False, ws_tasks = [], ws_events = []\<rparr>"

definition ws_get_url :: "web_socket \<Rightarrow> string" where
  "ws_get_url w = ws_url w"

text \<open>
  \<^verbatim>\<open>client::get_connection\<close> returns no connection for a URL that does not parse, for a secure one on a
  transport that is not, and when the connection cannot be made (\<open>can_create\<close>); its error is in \<^verbatim>\<open>ec\<close>.
\<close>

definition get_connection :: "bool \<Rightarrow> bool \<Rightarrow> string \<Rightarrow> ec" where
  "get_connection transport_secure can_create address =
     (let location = parse_uri address in
      if \<not> m_valid location then Some (Lib E_invalid_uri)
      else if m_secure location \<and> \<not> transport_secure then Some (Lib E_endpoint_not_secure)
      else if \<not> can_create then Some (Lib E_con_creation_failed)
      else None)"

datatype 'a call_result = Returns 'a | Throws | Undefined

text \<open>\<^verbatim>\<open>open\<close> does not look at \<^verbatim>\<open>ec\<close> before it asks the connection for its handle.\<close>

definition ws_open :: "bool \<Rightarrow> bool \<Rightarrow> web_socket \<Rightarrow> web_socket call_result" where
  "ws_open transport_secure can_create w =
     (if asio_ready w then Throws
      else if get_connection transport_secure can_create (ws_url w) \<noteq> None then Undefined
      else Returns (w\<lparr>asio_ready := True, ws_connected := True, thread_running := True\<rparr>))"

text \<open>Without an io_service there is nothing to post to.\<close>

definition post_task :: "ws_task \<Rightarrow> web_socket \<Rightarrow> web_socket call_result" where
  "post_task t w = (if asio_ready w then Returns (w\<lparr>ws_tasks := ws_tasks w @ [t]\<rparr>) else Undefined)"

definition close_impl :: ws_task where
  "close_impl = Close_task status_normal ''NORMAL CLOSE''"

definition ws_close :: "web_socket \<Rightarrow> web_socket call_result" where
  "ws_close w = post_task close_impl w"

definition send_impl :: "string \<Rightarrow> ws_task" where
  "send_impl m = Send_task m"

definition ws_send :: "string \<Rightarrow> web_socket \<Rightarrow> web_socket call_result" where
  "ws_send m w = post_task (send_impl m) w"

definition on_open :: "web_socket \<Rightarrow> web_socket" where
  "on_open w = w\<lparr>ws_events := ws_events w @ [Event_open]\<rparr>"

definition on_close :: "web_socket \<Rightarrow> web_socket" where
  "on_close w = w\<lparr>ws_events := ws_events w @ [Event_close]\<rparr>"

definition on_fail :: "web_socket \<Rightarrow> web_socket" where
  "on_fail w = w\<lparr>ws_events := ws_events w @ [Event_error]\<rparr>"

definition on_message :: "string \<Rightarrow> web_socket \<Rightarrow> web_socket" where
  "on_message payload w = w\<lparr>ws_events := ws_events w @ [Event_message payload]\<rparr>"

subsection \<open>FlintSSDPResponderAPI\<close>

definition UPNP_MAX_PACKET_LEN :: nat where "UPNP_MAX_PACKET_LEN = 1500"
definition UPNP_GROUP :: string where "UPNP_GROUP = ''239.255.255.250''"
definition UPNP_PORT :: nat where "UPNP_PORT = 1900"

text \<open>
  A stream buffer shows what was committed; the space \<^verbatim>\<open>prepare\<close> hands out for a reception is not part
  of it until then. The object logs text and has receptions under way.
\<close>

record ssdp =
  committed :: string
  prepared_space :: string
  ssdp_log :: "string list"
  datagrams :: "string list"
  receiving :: nat

definition make_ssdp :: ssdp where
  "make_ssdp = \<lparr>committed = [], prepared_space = [], ssdp_log = [], datagrams = [], receiving = 0\<rparr>"

definition search_text :: "string \<Rightarrow> string" where
  "search_text target =
     ''M-SEARCH * HTTP/1.1'' @ crlf @ ''HOST: '' @ UPNP_GROUP @ '':'' @ decimal UPNP_PORT @ crlf @
     ''ST:'' @ target @ crlf @ ''MAN:'' @ [CHR 0x22] @ ''ssdp:discover'' @ [CHR 0x22] @ crlf @
     ''MX:3'' @ crlf @ crlf @ crlf"

definition ssdp_search :: "string \<Rightarrow> ssdp \<Rightarrow> ssdp" where
  "ssdp_search target s =
     s\<lparr>datagrams := datagrams s @ [search_text target], prepared_space := replicate UPNP_MAX_PACKET_LEN (CHR 0x00),
       receiving := receiving s + 1\<rparr>"

text \<open>The transport fills the prepared space and calls the handler.\<close>

definition dashes :: string where
  "dashes = ''-------------------------- ''"

definition handle_received_from :: "nat \<Rightarrow> ssdp \<Rightarrow> ssdp" where
  "handle_received_from bytesTransferred s =
     s\<lparr>ssdp_log := ssdp_log s @
         [dashes @ decimal bytesTransferred, dashes @ committed s, ''--------------------------'']\<rparr>"

definition ssdp_receive :: "string \<Rightarrow> ssdp \<Rightarrow> ssdp" where
  "ssdp_receive datagram s =
     handle_received_from (length datagram)
       (s\<lparr>prepared_space := overwrite (prepared_space s) 0 datagram, receiving := receiving s - 1\<rparr>)"

definition set_max_response_time :: "int \<Rightarrow> ssdp \<Rightarrow> ssdp" where
  "set_max_response_time seconds s = s"

definition ssdp_start :: "ssdp \<Rightarrow> ssdp" where
  "ssdp_start s = s"

definition ssdp_stop :: "ssdp \<Rightarrow> ssdp" where
  "ssdp_stop s = s"

subsection \<open>FlintPluginAPI\<close>

datatype fb_variant = Text_value string | List_value "string list"

text \<open>
  The response headers for a script: a name that occurs once gets its value, one that occurs more
  often a list. \<open>push\<close> is what \<^verbatim>\<open>cast<VariantList>().push_back\<close> makes of the stored entry.
\<close>

fun collect_headers ::
  "(fb_variant \<Rightarrow> string \<Rightarrow> fb_variant) \<Rightarrow> (string \<times> string) list \<Rightarrow> (string \<times> string) list \<Rightarrow>
     (string \<rightharpoonup> fb_variant) \<Rightarrow> (string \<rightharpoonup> fb_variant)" where
  "collect_headers push headers [] out = out"
| "collect_headers push headers ((k, v) # rest) out =
     collect_headers push headers rest
       (if length (filter (\<lambda>h. fst h = k) headers) > 1
        then (case out k of
                Some old \<Rightarrow> out(k \<mapsto> push old v)
              | None \<Rightarrow> out(k \<mapsto> List_value [v]))
        else out(k \<mapsto> Text_value v))"

datatype callback_args = Failure_args | Success_args "string \<rightharpoonup> fb_variant" string

definition http_callback ::
  "(fb_variant \<Rightarrow> string \<Rightarrow> fb_variant) \<Rightarrow> bool \<Rightarrow> (string \<times> string) list \<Rightarrow> string \<Rightarrow> nat \<Rightarrow> callback_args" where
  "http_callback push success headers data n =
     (let out = collect_headers push headers headers (\<lambda>k. None)
      in if success then Success_args out (take n data) else Failure_args)"

text \<open>The counter of \<^verbatim>\<open>echo\<close> is shared by all objects.\<close>

definition echo :: "'v \<Rightarrow> int \<Rightarrow> 'v \<times> (string \<times> int) \<times> int" where
  "echo msg n = (msg, (''So far, you clicked this many times: '', n), n + 1)"

record plugin_api =
  api_plugin_alive :: bool
  m_testString :: string

definition get_plugin :: "plugin_api \<Rightarrow> unit call_result" where
  "get_plugin a = (if api_plugin_alive a then Returns () else Throws)"

definition get_testString :: "plugin_api \<Rightarrow> string" where
  "get_testString a = m_testString a"

definition set_testString :: "string \<Rightarrow> plugin_api \<Rightarrow> plugin_api" where
  "set_testString val a = a\<lparr>m_testString := val\<rparr>"

subsection \<open>FlintPlugin and its i/o thread\<close>

text \<open>
  The io_service is a member of the plugin; \<^verbatim>\<open>holderWork_\<close> keeps \<^verbatim>\<open>run\<close> from returning, and so does
  every operation that is not complete. The thread that runs it is detached.
\<close>

record flint_plugin =
  holder_work :: bool
  io_thread :: bool
  operations :: nat
  shut_down :: bool
  destroyed :: bool

definition make_plugin :: flint_plugin where
  "make_plugin = \<lparr>holder_work = False, io_thread = False, operations = 0, shut_down = False, destroyed = False\<rparr>"

definition on_plugin_ready :: "flint_plugin \<Rightarrow> flint_plugin" where
  "on_plugin_ready p = p\<lparr>holder_work := True, io_thread := True\<rparr>"

definition plugin_shutdown :: "flint_plugin \<Rightarrow> flint_plugin" where
  "plugin_shutdown p = p\<lparr>holder_work := False, shut_down := True\<rparr>"

definition destroy_plugin :: "flint_plugin \<Rightarrow> flint_plugin" where
  "destroy_plugin p = p\<lparr>destroyed := True\<rparr>"

inductive plugin_step :: "flint_plugin \<Rightarrow> flint_plugin \<Rightarrow> bool" where
  ps_ready: "\<not> io_thread p \<Longrightarrow> \<not> shut_down p \<Longrightarrow> plugin_step p (on_plugin_ready p)"
| ps_start: "\<not> destroyed p \<Longrightarrow> plugin_step p (p\<lparr>operations := operations p + 1\<rparr>)"
| ps_complete: "io_thread p \<Longrightarrow> 0 < operations p \<Longrightarrow> plugin_step p (p\<lparr>operations := operations p - 1\<rparr>)"
| ps_shutdown: "\<not> destroyed p \<Longrightarrow> plugin_step p (plugin_shutdown p)"
| ps_destroy: "shut_down p \<Longrightarrow> \<not> destroyed p \<Longrightarrow> plugin_step p (destroy_plugin p)"
| ps_return: "io_thread p \<Longrightarrow> \<not> holder_work p \<Longrightarrow> operations p = 0 \<Longrightarrow> plugin_step p (p\<lparr>io_thread := False\<rparr>)"

inductive plugin_reachable :: "flint_plugin \<Rightarrow> bool" where
  pr_init: "plugin_reachable make_plugin"
| pr_step: "plugin_reachable p \<Longrightarrow> plugin_step p q \<Longrightarrow> plugin_reachable q"

inductive_simps plugin_stepE: "plugin_step p q"

lemmas plugin_defs = make_plugin_def on_plugin_ready_def plugin_shutdown_def destroy_plugin_def

subsection \<open>Lemmas\<close>

lemma plugin_flags: "plugin_reachable p \<Longrightarrow>
    (holder_work p \<longrightarrow> io_thread p) \<and> (destroyed p \<longrightarrow> shut_down p) \<and> (shut_down p \<longrightarrow> \<not> holder_work p)"
  by (induction rule: plugin_reachable.induct) (auto simp: plugin_stepE plugin_defs)

definition values_of :: "string \<Rightarrow> (string \<times> string) list \<Rightarrow> string list" where
  "values_of k headers = map snd (filter (\<lambda>h. fst h = k) headers)"

definition header_entry :: "bool \<Rightarrow> string list \<Rightarrow> fb_variant option" where
  "header_entry many vs =
     (if vs = [] then None else if many then Some (List_value vs) else Some (Text_value (last vs)))"

lemma collect_headers_values:
  assumes push: "\<And>vs v. push (List_value vs) v = List_value (vs @ [v])"
  shows "(\<forall>k. out k = header_entry (length (values_of k headers) > 1) (values_of k seen)) \<Longrightarrow>
     collect_headers push headers rest out k =
       header_entry (length (values_of k headers) > 1) (values_of k (seen @ rest))"
proof (induction rest arbitrary: out seen)
  case (Cons kv rest)
  obtain a v where kv: "kv = (a, v)" by (cases kv)
  define out' where "out' = (if length (filter (\<lambda>h. fst h = a) headers) > 1
        then (case out a of Some old \<Rightarrow> out(a \<mapsto> push old v) | None \<Rightarrow> out(a \<mapsto> List_value [v]))
        else out(a \<mapsto> Text_value v))"
  have "\<forall>k. out' k = header_entry (length (values_of k headers) > 1) (values_of k (seen @ [(a, v)]))"
    using Cons.prems push by (auto simp: out'_def values_of_def header_entry_def split: option.split)
  from Cons.IH [OF this] have "collect_headers push headers rest out' k =
      header_entry (length (values_of k headers) > 1) (values_of k (seen @ kv # rest))" by (simp add: kv)
  moreover have "collect_headers push headers (kv # rest) out = collect_headers push headers rest out'"
    by (simp only: kv collect_headers.simps out'_def)
  ultimately show ?case by simp
qed simp

inductive ssdp_reachable :: "ssdp \<Rightarrow> bool" where
  sr_init: "ssdp_reachable make_ssdp"
| sr_search: "ssdp_reachable s \<Longrightarrow> ssdp_reachable (ssdp_search target s)"
| sr_receive: "ssdp_reachable s \<Longrightarrow> 0 < receiving s \<Longrightarrow> length datagram \<le> UPNP_MAX_PACKET_LEN \<Longrightarrow>
     ssdp_reachable (ssdp_receive datagram s)"

lemma nothing_committed: "ssdp_reachable s \<Longrightarrow> committed s = []"
  by (induction rule: ssdp_reachable.induct)
    (simp_all add: make_ssdp_def ssdp_search_def ssdp_receive_def handle_received_from_def)

subsection \<open>Properties\<close>

text \<open>
  What a script is given after \<^verbatim>\<open>httpGet\<close>. If pushing onto a stored list appends to it, the callback gets
  for every header name its value, or the list of all its values in order when there are several,
  and exactly the first \<open>n\<close> octets of the data.
\<close>

theorem http_headers_collected:
  assumes "\<And>vs v. push (List_value vs) v = List_value (vs @ [v])"
    and "http_callback push True headers data n = Success_args out octets"
  shows "octets = take n data \<and>
    (\<forall>k. out k = (case values_of k headers of
       [] \<Rightarrow> None | [v] \<Rightarrow> Some (Text_value v) | vs \<Rightarrow> Some (List_value vs)))"
proof -
  have "out = collect_headers push headers headers (\<lambda>k. None)" "octets = take n data"
    using assms(2) by (simp_all add: http_callback_def)
  moreover have "collect_headers push headers headers (\<lambda>k. None) k =
      header_entry (length (values_of k headers) > 1) (values_of k headers)" for k
    using collect_headers_values [where push = push and headers = headers and rest = headers
        and out = "\<lambda>k. None" and seen = "[]"] assms(1) by (simp add: values_of_def header_entry_def)
  ultimately show ?thesis by (auto simp: header_entry_def split: list.split)
qed

fun push_value :: "fb_variant \<Rightarrow> string \<Rightarrow> fb_variant" where
  "push_value (List_value vs) v = List_value (vs @ [v])"
| "push_value (Text_value t) v = Text_value t"

theorem http_headers_collected_witness:
  "\<exists>out octets. http_callback push_value True [(''a'', ''1''), (''b'', ''2''), (''b'', ''3'')] ''body'' 3 =
      Success_args out octets \<and> octets = ''bod'' \<and>
    out ''a'' = Some (Text_value ''1'') \<and> out ''b'' = Some (List_value [''2'', ''3'']) \<and> out ''c'' = None"
proof -
  obtain out octets where o: "http_callback push_value True [(''a'', ''1''), (''b'', ''2''), (''b'', ''3'')] ''body'' 3 =
      Success_args out octets" by (simp add: http_callback_def)
  show ?thesis
    using http_headers_collected [OF _ o] o by (auto simp: values_of_def)
qed

text \<open>
  A web socket object whose URL does not name a plain web socket server has no defined behaviour. The first
  \<^verbatim>\<open>open\<close> uses a connection that was not made exactly when the URL does not parse or is secure, as the plugin's
  transport has no TLS, or the endpoint makes no connection; for a \<^verbatim>\<open>wss\<close> URL this is always so.
\<close>

theorem web_socket_open_undefined:
  "(ws_open False can_create (make_web_socket address) = Undefined) =
     (\<not> (m_valid (parse_uri address) \<and> \<not> m_secure (parse_uri address) \<and> can_create)) \<and>
   ws_open False can_create (make_web_socket (''wss://'' @ rest)) = Undefined"
proof -
  have "m_secure (parse_uri (''wss://'' @ rest))"
    unfolding parse_uri_def using parse_scheme_known [of "''wss''" rest]
    by (simp add: scheme_secure_def Let_def split: prod.split option.split)
  then show ?thesis by (simp add: ws_open_def get_connection_def make_web_socket_def Let_def)
qed

text \<open>
  The SSDP object never shows what it received. Whatever is searched for and whatever datagrams arrive, the
  text logged for a datagram is the number of its octets and an empty payload, because the octets
  are not committed to the buffer that is read.
\<close>

theorem ssdp_payload_not_shown:
  assumes "ssdp_reachable s"
  shows "ssdp_log (ssdp_receive datagram s) =
    ssdp_log s @ [dashes @ decimal (length datagram), dashes, ''--------------------------'']"
  using nothing_committed [OF assms] by (simp add: ssdp_receive_def handle_received_from_def)

theorem ssdp_payload_not_shown_witness:
  "ssdp_log (ssdp_receive ''HTTP/1.1 200 OK'' (ssdp_search ''ssdp:all'' make_ssdp)) =
    ssdp_log (ssdp_search ''ssdp:all'' make_ssdp) @
      [dashes @ decimal (length ''HTTP/1.1 200 OK''), dashes, ''--------------------------'']"
  by (rule ssdp_payload_not_shown) (intro sr_search sr_init)

text \<open>
  Shutting the plugin down takes the work away that keeps the i/o thread, and the thread can return as soon
  as no operation is outstanding; but nothing waits for it: the plugin, and with it the io_service
  the thread runs, can be destroyed while the thread still runs.
\<close>

theorem plugin_shutdown_thread:
  "(\<forall>p. plugin_reachable p \<and> shut_down p \<and> io_thread p \<and> operations p = 0 \<longrightarrow>
      plugin_step p (p\<lparr>io_thread := False\<rparr>)) \<and>
   (\<exists>p. plugin_reachable p \<and> destroyed p \<and> io_thread p)"
proof
  show "\<forall>p. plugin_reachable p \<and> shut_down p \<and> io_thread p \<and> operations p = 0 \<longrightarrow>
      plugin_step p (p\<lparr>io_thread := False\<rparr>)"
    using plugin_flags ps_return by blast
  let ?p = "destroy_plugin (plugin_shutdown (on_plugin_ready make_plugin))"
  have "plugin_reachable ?p"
    by (intro pr_step [OF pr_step [OF pr_step [OF pr_init ps_ready] ps_shutdown] ps_destroy])
      (simp_all add: plugin_defs)
  moreover have "destroyed ?p \<and> io_thread ?p" by (simp add: plugin_defs)
  ultimately show "\<exists>p. plugin_reachable p \<and> destroyed p \<and> io_thread p" by blast
qed

theorem plugin_shutdown_thread_witness:
  "plugin_step (plugin_shutdown (on_plugin_ready make_plugin))
     ((plugin_shutdown (on_plugin_ready make_plugin))\<lparr>io_thread := False\<rparr>)"
proof -
  let ?p = "plugin_shutdown (on_plugin_ready make_plugin)"
  have "plugin_reachable ?p" by (intro pr_step [OF pr_step [OF pr_init ps_ready] ps_shutdown]) (simp_all add: plugin_defs)
  moreover have "shut_down ?p \<and> io_thread ?p \<and> operations ?p = 0" by (simp add: plugin_defs)
  ultimately show ?thesis using conjunct1 [OF plugin_shutdown_thread] by blast
qed

end
