(* ===== verification/Http_Parser.thy ===== *)
theory Http_Parser
  imports Cpp_Text
begin

text \<open>
  The HTTP layer of the web socket library: the constants of \<^verbatim>\<open>http/constants.hpp\<close>, the lexical
  routines of \<^verbatim>\<open>http/parser.hpp\<close>, and the header list every HTTP message carries. A pair of iterators into
  a string is the text between them; an iterator that is returned is the text from it to the end.
  The locale is the C locale.
\<close>

subsection \<open>Outcomes\<close>

text \<open>
  The code returns, throws \<^verbatim>\<open>http::exception\<close> with a message and a status code, or gives the library a
  range or position that does not exist.
\<close>

datatype 'a http_result = Value 'a | Throw string int | Bad_range

fun and_then :: "'a http_result \<Rightarrow> ('a \<Rightarrow> 'b http_result) \<Rightarrow> 'b http_result" where
  "and_then (Value x) f = f x"
| "and_then (Throw m c) f = Throw m c"
| "and_then Bad_range f = Bad_range"

lemma and_then_eq_Value: "and_then r f = Value y \<longleftrightarrow> (\<exists>x. r = Value x \<and> f x = Value y)"
  by (cases r) auto

subsection \<open>Characters\<close>

definition header_delimiter :: string where "header_delimiter = [CHR 0x0D, CHR 0x0A]"
definition header_separator :: char where "header_separator = CHR '':''"
definition max_header_size :: nat where "max_header_size = 16000"
definition istream_buffer :: nat where "istream_buffer = 512"

definition header_token :: "nat list" where
  "header_token = [
     0,0,0,0,0,0,0,0,0,0,0,0,0,0,0,0,
     0,0,0,0,0,0,0,0,0,0,0,0,0,0,0,0,
     0,1,0,1,1,1,1,1,0,0,1,1,0,1,1,0,
     1,1,1,1,1,1,1,1,1,1,0,0,0,0,0,0,
     0,1,1,1,1,1,1,1,1,1,1,1,1,1,1,1,
     1,1,1,1,1,1,1,1,1,1,1,0,0,0,1,1,
     1,1,1,1,1,1,1,1,1,1,1,1,1,1,1,1,
     1,1,1,1,1,1,1,1,1,1,1,0,1,0,1,0,
     0,0,0,0,0,0,0,0,0,0,0,0,0,0,0,0,
     0,0,0,0,0,0,0,0,0,0,0,0,0,0,0,0,
     0,0,0,0,0,0,0,0,0,0,0,0,0,0,0,0,
     0,0,0,0,0,0,0,0,0,0,0,0,0,0,0,0,
     0,0,0,0,0,0,0,0,0,0,0,0,0,0,0,0,
     0,0,0,0,0,0,0,0,0,0,0,0,0,0,0,0,
     0,0,0,0,0,0,0,0,0,0,0,0,0,0,0,0,
     0,0,0,0,0,0,0,0,0,0,0,0,0,0,0,0]"

definition is_token_char :: "char \<Rightarrow> bool" where
  "is_token_char c \<longleftrightarrow> header_token ! of_char c = 1"

definition is_not_token_char :: "char \<Rightarrow> bool" where
  "is_not_token_char c \<longleftrightarrow> header_token ! of_char c = 0"

definition is_whitespace_char :: "char \<Rightarrow> bool" where
  "is_whitespace_char c \<longleftrightarrow> (of_char c :: nat) = 9 \<or> (of_char c :: nat) = 32"

definition is_not_whitespace_char :: "char \<Rightarrow> bool" where
  "is_not_whitespace_char c \<longleftrightarrow> (of_char c :: nat) \<noteq> 9 \<and> (of_char c :: nat) \<noteq> 32"

definition tolower :: "char \<Rightarrow> char" where
  "tolower c = (if 65 \<le> (of_char c :: nat) \<and> (of_char c :: nat) \<le> 90 then char_of ((of_char c :: nat) + 32) else c)"

definition toupper :: "char \<Rightarrow> char" where
  "toupper c = (if 97 \<le> (of_char c :: nat) \<and> (of_char c :: nat) \<le> 122 then char_of ((of_char c :: nat) - 32) else c)"

definition to_lower :: "string \<Rightarrow> string" where
  "to_lower = List.map tolower"

lemma header_token_bits: "list_all (\<lambda>n. n = 0 \<or> n = 1) header_token" "length header_token = 256"
  by (simp_all add: header_token_def)

lemma not_token_iff: "is_not_token_char c \<longleftrightarrow> \<not> is_token_char c"
proof -
  have "header_token ! of_char c \<in> set header_token"
    using header_token_bits(2) by simp
  then show ?thesis using header_token_bits(1) by (auto simp: is_not_token_char_def is_token_char_def list_all_iff)
qed

lemma not_whitespace_iff: "is_not_whitespace_char c \<longleftrightarrow> \<not> is_whitespace_char c"
  by (simp add: is_not_whitespace_char_def is_whitespace_char_def)

subsection \<open>Status codes\<close>

datatype http_status =
    S_uninitialized | S_continue_code | S_switching_protocols | S_ok | S_created | S_accepted
    | S_non_authoritative_information | S_no_content | S_reset_content | S_partial_content
    | S_multiple_choices | S_moved_permanently | S_found | S_see_other | S_not_modified
    | S_use_proxy | S_temporary_redirect | S_bad_request | S_unauthorized | S_payment_required
    | S_forbidden | S_not_found | S_method_not_allowed | S_not_acceptable
    | S_proxy_authentication_required | S_request_timeout | S_conflict | S_gone
    | S_length_required | S_precondition_failed | S_request_entity_too_large
    | S_request_uri_too_long | S_unsupported_media_type | S_request_range_not_satisfiable
    | S_expectation_failed | S_im_a_teapot | S_upgrade_required | S_precondition_required
    | S_too_many_requests | S_request_header_fields_too_large | S_internal_server_error
    | S_not_implemented | S_bad_gateway | S_service_unavailable | S_gateway_timeout
    | S_http_version_not_supported | S_not_extended | S_network_authentication_required

fun status_value :: "http_status \<Rightarrow> int" where
  "status_value S_uninitialized = 0"
| "status_value S_continue_code = 100"
| "status_value S_switching_protocols = 101"
| "status_value S_ok = 200"
| "status_value S_created = 201"
| "status_value S_accepted = 202"
| "status_value S_non_authoritative_information = 203"
| "status_value S_no_content = 204"
| "status_value S_reset_content = 205"
| "status_value S_partial_content = 206"
| "status_value S_multiple_choices = 300"
| "status_value S_moved_permanently = 301"
| "status_value S_found = 302"
| "status_value S_see_other = 303"
| "status_value S_not_modified = 304"
| "status_value S_use_proxy = 305"
| "status_value S_temporary_redirect = 307"
| "status_value S_bad_request = 400"
| "status_value S_unauthorized = 401"
| "status_value S_payment_required = 402"
| "status_value S_forbidden = 403"
| "status_value S_not_found = 404"
| "status_value S_method_not_allowed = 405"
| "status_value S_not_acceptable = 406"
| "status_value S_proxy_authentication_required = 407"
| "status_value S_request_timeout = 408"
| "status_value S_conflict = 409"
| "status_value S_gone = 410"
| "status_value S_length_required = 411"
| "status_value S_precondition_failed = 412"
| "status_value S_request_entity_too_large = 413"
| "status_value S_request_uri_too_long = 414"
| "status_value S_unsupported_media_type = 415"
| "status_value S_request_range_not_satisfiable = 416"
| "status_value S_expectation_failed = 417"
| "status_value S_im_a_teapot = 418"
| "status_value S_upgrade_required = 426"
| "status_value S_precondition_required = 428"
| "status_value S_too_many_requests = 429"
| "status_value S_request_header_fields_too_large = 431"
| "status_value S_internal_server_error = 500"
| "status_value S_not_implemented = 501"
| "status_value S_bad_gateway = 502"
| "status_value S_service_unavailable = 503"
| "status_value S_gateway_timeout = 504"
| "status_value S_http_version_not_supported = 505"
| "status_value S_not_extended = 510"
| "status_value S_network_authentication_required = 511"

definition status_codes :: "http_status list" where
  "status_codes = [
     S_uninitialized, S_continue_code, S_switching_protocols, S_ok, S_created, S_accepted,
     S_non_authoritative_information, S_no_content, S_reset_content, S_partial_content,
     S_multiple_choices, S_moved_permanently, S_found, S_see_other, S_not_modified, S_use_proxy,
     S_temporary_redirect, S_bad_request, S_unauthorized, S_payment_required, S_forbidden,
     S_not_found, S_method_not_allowed, S_not_acceptable, S_proxy_authentication_required,
     S_request_timeout, S_conflict, S_gone, S_length_required, S_precondition_failed,
     S_request_entity_too_large, S_request_uri_too_long, S_unsupported_media_type,
     S_request_range_not_satisfiable, S_expectation_failed, S_im_a_teapot, S_upgrade_required,
     S_precondition_required, S_too_many_requests, S_request_header_fields_too_large,
     S_internal_server_error, S_not_implemented, S_bad_gateway, S_service_unavailable,
     S_gateway_timeout, S_http_version_not_supported, S_not_extended,
     S_network_authentication_required]"

fun status_string :: "http_status \<Rightarrow> string" where
  "status_string S_uninitialized = ''Uninitialized''"
| "status_string S_continue_code = ''Continue''"
| "status_string S_switching_protocols = ''Switching Protocols''"
| "status_string S_ok = ''OK''"
| "status_string S_created = ''Created''"
| "status_string S_accepted = ''Accepted''"
| "status_string S_non_authoritative_information = ''Non Authoritative Information''"
| "status_string S_no_content = ''No Content''"
| "status_string S_reset_content = ''Reset Content''"
| "status_string S_partial_content = ''Partial Content''"
| "status_string S_multiple_choices = ''Multiple Choices''"
| "status_string S_moved_permanently = ''Moved Permanently''"
| "status_string S_found = ''Found''"
| "status_string S_see_other = ''See Other''"
| "status_string S_not_modified = ''Not Modified''"
| "status_string S_use_proxy = ''Use Proxy''"
| "status_string S_temporary_redirect = ''Temporary Redirect''"
| "status_string S_bad_request = ''Bad Request''"
| "status_string S_unauthorized = ''Unauthorized''"
| "status_string S_payment_required = ''Payment Required''"
| "status_string S_forbidden = ''Forbidden''"
| "status_string S_not_found = ''Not Found''"
| "status_string S_method_not_allowed = ''Method Not Allowed''"
| "status_string S_not_acceptable = ''Not Acceptable''"
| "status_string S_proxy_authentication_required = ''Proxy Authentication Required''"
| "status_string S_request_timeout = ''Request Timeout''"
| "status_string S_conflict = ''Conflict''"
| "status_string S_gone = ''Gone''"
| "status_string S_length_required = ''Length Required''"
| "status_string S_precondition_failed = ''Precondition Failed''"
| "status_string S_request_entity_too_large = ''Request Entity Too Large''"
| "status_string S_request_uri_too_long = ''Request-URI Too Long''"
| "status_string S_unsupported_media_type = ''Unsupported Media Type''"
| "status_string S_request_range_not_satisfiable = ''Requested Range Not Satisfiable''"
| "status_string S_expectation_failed = ''Expectation Failed''"
| "status_string S_im_a_teapot = ''I'' @ CHR 0x27 # ''m a teapot''"
| "status_string S_upgrade_required = ''Upgrade Required''"
| "status_string S_precondition_required = ''Precondition Required''"
| "status_string S_too_many_requests = ''Too Many Requests''"
| "status_string S_request_header_fields_too_large = ''Request Header Fields Too Large''"
| "status_string S_internal_server_error = ''Internal Server Error''"
| "status_string S_not_implemented = ''Not Implemented''"
| "status_string S_bad_gateway = ''Bad Gateway''"
| "status_string S_service_unavailable = ''Service Unavailable''"
| "status_string S_gateway_timeout = ''Gateway Timeout''"
| "status_string S_http_version_not_supported = ''HTTP Version Not Supported''"
| "status_string S_not_extended = ''Not Extended''"
| "status_string S_network_authentication_required = ''Network Authentication Required''"

text \<open>A status code of the code is any \<^verbatim>\<open>int\<close> (parsed numbers are cast to it); \<^verbatim>\<open>get_string\<close> knows the named ones.\<close>

definition status_get_message :: "int \<Rightarrow> string" where
  "status_get_message c =
     (case find (\<lambda>s. status_value s = c) status_codes of Some s \<Rightarrow> status_string s | None \<Rightarrow> ''Unknown'')"

lemma status_codes_complete: "set status_codes = UNIV" "distinct (List.map status_value status_codes)"
proof -
  have "s \<in> set status_codes" for s by (cases s) (simp_all add: status_codes_def)
  then show "set status_codes = UNIV" by auto
  show "distinct (List.map status_value status_codes)" by (simp add: status_codes_def)
qed

lemma status_get_message_value: "status_get_message (status_value s) = status_string s"
proof -
  have inj: "inj status_value"
    using status_codes_complete by (metis distinct_map)
  have "find (\<lambda>t. status_value t = status_value s) status_codes = Some s"
  proof (cases "find (\<lambda>t. status_value t = status_value s) status_codes")
    case None
    then show ?thesis using status_codes_complete(1) by (auto simp: find_None_iff)
  next
    case (Some t)
    then show ?thesis using inj by (auto simp: find_Some_iff inj_def)
  qed
  then show ?thesis by (simp add: status_get_message_def)
qed


subsection \<open>Maps\<close>

text \<open>
  \<^verbatim>\<open>std::map\<close> with a comparison that orders keys by \<open>ord\<close>: keys with the same order are one key. \<^verbatim>\<open>m[k] = v\<close>
  keeps the spelling of a key that is already there.
\<close>

fun map_put :: "('k \<Rightarrow> 'o::linorder) \<Rightarrow> 'k \<Rightarrow> 'v \<Rightarrow> ('k \<times> 'v) list \<Rightarrow> ('k \<times> 'v) list" where
  "map_put ord k v [] = [(k, v)]"
| "map_put ord k v ((k', v') # m) =
     (if ord k < ord k' then (k, v) # (k', v') # m
      else if ord k = ord k' then (k', v) # m
      else (k', v') # map_put ord k v m)"

fun map_get :: "('k \<Rightarrow> 'o::linorder) \<Rightarrow> ('k \<times> 'v) list \<Rightarrow> 'k \<Rightarrow> 'v option" where
  "map_get ord [] k = None"
| "map_get ord ((k', v') # m) k = (if ord k' = ord k then Some v' else map_get ord m k)"

definition map_erase :: "('k \<Rightarrow> 'o::linorder) \<Rightarrow> 'k \<Rightarrow> ('k \<times> 'v) list \<Rightarrow> ('k \<times> 'v) list" where
  "map_erase ord k m = filter (\<lambda>(k', v). ord k' \<noteq> ord k) m"

definition map_sorted :: "('k \<Rightarrow> 'o::linorder) \<Rightarrow> ('k \<times> 'v) list \<Rightarrow> bool" where
  "map_sorted ord m \<longleftrightarrow> sorted_wrt (<) (List.map (ord \<circ> fst) m)"

lemma map_sorted_simps [simp]:
  "map_sorted ord []"
  "map_sorted ord ((k, v) # m) \<longleftrightarrow> (\<forall>x \<in> set m. ord k < ord (fst x)) \<and> map_sorted ord m"
  by (simp_all add: map_sorted_def)

lemma orders_map_put: "ord ` fst ` set (map_put ord k v m) = insert (ord k) (ord ` fst ` set m)"
  by (induction ord k v m rule: map_put.induct) auto

lemma map_sorted_put: "map_sorted ord m \<Longrightarrow> map_sorted ord (map_put ord k v m)"
proof (induction ord k v m rule: map_put.induct)
  case (2 ord k v k' v' m)
  have put: "ord k' < ord (fst x)"
    if "ord k' < ord k" "\<forall>x \<in> set m. ord k' < ord (fst x)" "x \<in> set (map_put ord k v m)" for x
  proof -
    have "ord (fst x) \<in> insert (ord k) (ord ` fst ` set m)"
      using that(3) orders_map_put [of ord k v m] by blast
    then show ?thesis using that(1,2) by auto
  qed
  show ?case
  proof (cases "ord k < ord k'")
    case True
    with 2(2) show ?thesis by (auto intro: less_trans)
  next
    case False
    with 2 put show ?thesis by (cases "ord k = ord k'") auto
  qed
qed simp

lemma map_sorted_erase: "map_sorted ord m \<Longrightarrow> map_sorted ord (map_erase ord k m)"
  by (induction m) (auto simp: map_erase_def)

lemma map_get_None: "map_get ord m k = None \<longleftrightarrow> ord k \<notin> ord ` fst ` set m"
  by (induction ord m k rule: map_get.induct) auto

lemma map_get_put:
  "map_sorted ord m \<Longrightarrow> map_get ord (map_put ord k v m) k' = (if ord k' = ord k then Some v else map_get ord m k')"
  by (induction ord k v m rule: map_put.induct) auto

lemma map_get_erase:
  "map_get ord (map_erase ord k m) k' = (if ord k' = ord k then None else map_get ord m k')"
  by (induction m) (auto simp: map_erase_def)

lemma map_put_last:
  "\<forall>x \<in> set m. ord (fst x) < ord k \<Longrightarrow> map_put ord k v m = m @ [(k, v)]"
  by (induction ord k v m rule: map_put.induct) auto

text \<open>What the users of a map with assignment rely on.\<close>

locale assign_map =
  fixes look :: "'m \<Rightarrow> 'k \<Rightarrow> 'v option"
    and put :: "'k \<Rightarrow> 'v \<Rightarrow> 'm \<Rightarrow> 'm"
    and erase :: "'k \<Rightarrow> 'm \<Rightarrow> 'm"
    and valid :: "'m \<Rightarrow> bool"
    and same :: "'k \<Rightarrow> 'k \<Rightarrow> bool"
  assumes put_valid: "valid m \<Longrightarrow> valid (put k v m)"
    and erase_valid: "valid m \<Longrightarrow> valid (erase k m)"
    and look_put: "valid m \<Longrightarrow> look (put k v m) k' = (if same k' k then Some v else look m k')"
    and look_erase: "valid m \<Longrightarrow> look (erase k m) k' = (if same k' k then None else look m k')"
    and same_refl: "same k k"
begin

definition put_all :: "('k \<times> 'v) list \<Rightarrow> 'm \<Rightarrow> 'm" where
  "put_all kvs m = foldl (\<lambda>m (k, v). put k v m) m kvs"

lemma put_all_simps [simp]: "put_all [] m = m" "put_all ((k, v) # kvs) m = put_all kvs (put k v m)"
  by (simp_all add: put_all_def)

lemma put_all_valid: "valid m \<Longrightarrow> valid (put_all kvs m)"
  by (induction kvs arbitrary: m) (auto simp: put_valid)

lemma look_put_same: "valid m \<Longrightarrow> look (put k v m) k = Some v"
  by (simp add: look_put same_refl)

lemma look_put_other: "valid m \<Longrightarrow> \<not> same k' k \<Longrightarrow> look (put k v m) k' = look m k'"
  by (simp add: look_put)

lemma look_put_all_other:
  "valid m \<Longrightarrow> \<forall>(k, v) \<in> set kvs. \<not> same k' k \<Longrightarrow> look (put_all kvs m) k' = look m k'"
  by (induction kvs arbitrary: m) (auto simp: put_valid look_put)

end

type_synonym header_list = "(string \<times> string) list"
type_synonym attribute_list = "(string \<times> string) list"
type_synonym parameter_list = "(string \<times> attribute_list) list"

text \<open>\<^verbatim>\<open>utility::ci_less\<close> compares the lower-case spellings octet by octet.\<close>

definition ci_less :: "string \<Rightarrow> string \<Rightarrow> bool" where
  "ci_less s1 s2 \<longleftrightarrow> to_lower s1 < to_lower s2"

interpretation headers: assign_map "map_get to_lower" "map_put to_lower" "map_erase to_lower" "map_sorted to_lower"
    "\<lambda>k k'. \<not> ci_less k k' \<and> \<not> ci_less k' k"
  by unfold_locales
    (auto simp: map_sorted_put map_sorted_erase map_get_put map_get_erase ci_less_def not_less intro: antisym)

interpretation attributes: assign_map "map_get id" "map_put id" "map_erase id" "map_sorted id" "(=)"
  by unfold_locales (simp_all add: map_sorted_put map_sorted_erase map_get_put map_get_erase)


subsection \<open>Lexical routines\<close>

definition extract_token :: "string \<Rightarrow> string \<times> string" where
  "extract_token s = (takeWhile (\<lambda>c. \<not> is_not_token_char c) s, dropWhile (\<lambda>c. \<not> is_not_token_char c) s)"

lemma dropWhile_shorter: "dropWhile P xs = y # ys \<Longrightarrow> length ys < length xs"
  using length_dropWhile_le [of P xs] by simp

text \<open>
  The loop of \<^verbatim>\<open>extract_quoted_string\<close> at \<^verbatim>\<open>marker\<close>: what was read so far and the text from \<^verbatim>\<open>marker\<close> on.
  Nothing is read when there is no closing quote. A quote behind a backslash is part of the string;
  when \<^verbatim>\<open>cursor\<close> is \<^verbatim>\<open>marker\<close>, the character before it is a quote.
\<close>

function quoted_loop :: "string \<Rightarrow> string \<Rightarrow> (string \<times> string) option" where
  "quoted_loop s rest =
     (let part = takeWhile (\<lambda>c. c \<noteq> CHR 0x22) rest in
      case dropWhile (\<lambda>c. c \<noteq> CHR 0x22) rest of
        [] \<Rightarrow> None
      | _ # after \<Rightarrow>
          if part \<noteq> [] \<and> last part = CHR 0x5C then quoted_loop (s @ butlast part @ [CHR 0x22]) after
          else Some (s @ part, after))"
  by pat_completeness auto
termination
  by (relation "measure (\<lambda>(s, rest). length rest)")
    (auto intro: dropWhile_shorter)

declare quoted_loop.simps [simp del]

definition extract_quoted_string :: "string \<Rightarrow> string \<times> string" where
  "extract_quoted_string s =
     (case s of
        [] \<Rightarrow> ([], s)
      | c # rest \<Rightarrow>
          if c \<noteq> CHR 0x22 then ([], s)
          else case quoted_loop [] rest of Some r \<Rightarrow> r | None \<Rightarrow> ([], s))"

definition extract_lws :: "string \<Rightarrow> string" where
  "extract_lws s =
     dropWhile (\<lambda>c. \<not> is_not_whitespace_char c)
       (if length s > 2 \<and> s ! 0 = CHR 0x0D \<and> s ! 1 = CHR 0x0A \<and> is_whitespace_char (s ! 2) then drop 3 s else s)"

lemma length_extract_lws: "length (extract_lws s) \<le> length s"
  using length_dropWhile_le [of _ "drop 3 s"] length_dropWhile_le [of _ s]
  unfolding extract_lws_def by (auto intro: le_trans [OF _ diff_le_self [of _ 3]])

function extract_all_lws :: "string \<Rightarrow> string" where
  "extract_all_lws old =
     (let new = extract_lws old in
      if new \<noteq> [] \<and> length old \<noteq> length new then extract_all_lws new else new)"
  by pat_completeness auto
termination
  by (relation "measure length") (use length_extract_lws in \<open>auto simp: le_neq_implies_less\<close>)

declare extract_all_lws.simps [simp del]

lemma length_extract_all_lws: "length (extract_all_lws s) \<le> length s"
proof (induction s rule: extract_all_lws.induct)
  case (1 old)
  then show ?case
    using length_extract_lws [of old]
    by (cases "extract_lws old \<noteq> [] \<and> length old \<noteq> length (extract_lws old)")
      (auto simp: extract_all_lws.simps [of old] Let_def)
qed

lemma length_extract_token: "snd (extract_token s) = drop (length (fst (extract_token s))) s"
  by (simp add: extract_token_def dropWhile_eq_drop)

lemma token_shorter: "extract_token s = (t, r) \<Longrightarrow> t \<noteq> [] \<Longrightarrow> length r < length s"
  using length_extract_token [of s] by (cases s) (auto simp: extract_token_def)

lemma quoted_loop_shorter: "quoted_loop s rest = Some (q, r) \<Longrightarrow> length r < length rest"
proof (induction s rest rule: quoted_loop.induct)
  case (1 s rest)
  show ?case
  proof (cases "dropWhile (\<lambda>c. c \<noteq> CHR 0x22) rest")
    case Nil
    with "1.prems" show ?thesis by (simp add: quoted_loop.simps [of s rest])
  next
    case (Cons c after)
    have "length r \<le> length after"
      using 1 Cons by (auto simp: quoted_loop.simps [of s rest] Let_def intro: less_imp_le split: if_splits)
    with dropWhile_shorter [OF Cons] show ?thesis by simp
  qed
qed

lemma quoted_shorter: "extract_quoted_string s = (q, r) \<Longrightarrow> r \<noteq> s \<Longrightarrow> length r < length s"
  by (cases s) (auto simp: extract_quoted_string_def split: if_splits option.splits dest: quoted_loop_shorter)

lemma token_le: "length (snd (extract_token s)) \<le> length s"
  unfolding extract_token_def by (simp add: length_dropWhile_le)

lemma quoted_le: "length (snd (extract_quoted_string s)) \<le> length s"
  using quoted_shorter [of s] by (metis le_less prod.collapse)

text \<open>
  One pass of the loop of \<^verbatim>\<open>extract_attributes\<close> and of \<^verbatim>\<open>extract_parameters\<close>: the list ends at an
  iterator, an item was read and the loop goes on, or the list is not well-formed.
\<close>

datatype 'a item = List_end string | Item 'a string | Syntax_error

definition read_attribute :: "bool \<Rightarrow> string \<Rightarrow> (string \<times> string) item" where
  "read_attribute first cursor =
     (let c1 = extract_all_lws cursor in
      if c1 = [] then List_end c1
      else if \<not> first \<and> hd c1 \<noteq> CHR '';'' then List_end c1
      else let (name, c3) = extract_token (extract_all_lws (if first then c1 else tl c1)) in
        if name = [] then Syntax_error
        else let c4 = extract_all_lws c3 in
          if c4 = [] \<or> hd c4 \<noteq> CHR ''='' then Item (name, []) c4
          else let c5 = extract_all_lws (tl c4) in
            if c5 = [] then Syntax_error
            else let (quoted, c6) = extract_quoted_string c5 in
              if c6 \<noteq> c5 then Item (name, quoted) c6
              else let (token, c7) = extract_token c5 in
                if token = [] then Syntax_error else Item (name, token) c7)"

lemma read_attribute_shorter:
  assumes "read_attribute first cursor = Item kv c"
  shows "length c < length cursor"
proof -
  define c1 where "c1 = extract_all_lws cursor"
  define c2 where "c2 = extract_all_lws (if first then c1 else tl c1)"
  define c4 where "c4 = extract_all_lws (snd (extract_token c2))"
  define c5 where "c5 = extract_all_lws (tl c4)"
  have name: "fst (extract_token c2) \<noteq> []"
    using assms by (auto simp: read_attribute_def Let_def c1_def c2_def split_beta split: if_splits)
  have "c \<in> {c4, snd (extract_quoted_string c5), snd (extract_token c5)}"
    using assms by (auto simp: read_attribute_def Let_def c1_def c2_def c4_def c5_def split_beta split: if_splits)
  then have "length c \<le> length c4"
    using length_extract_all_lws [of "tl c4"] token_le [of c5] quoted_le [of c5] by (auto simp: c5_def)
  also have "length c4 \<le> length (snd (extract_token c2))" unfolding c4_def by (rule length_extract_all_lws)
  also have "\<dots> < length c2" using token_shorter [of c2] name by (metis prod.collapse)
  also have "length c2 \<le> length (if first then c1 else tl c1)" unfolding c2_def by (rule length_extract_all_lws)
  also have "\<dots> \<le> length c1" by simp
  also have "length c1 \<le> length cursor" unfolding c1_def by (rule length_extract_all_lws)
  finally show ?thesis .
qed

lemma read_attribute_end: "read_attribute first cursor = List_end c \<Longrightarrow> length c \<le> length cursor"
  using length_extract_all_lws [of cursor]
  by (auto simp: read_attribute_def Let_def split_beta split: if_splits)

text \<open>What was read before an error stays in the list, and \<^verbatim>\<open>begin\<close> is returned.\<close>

function attributes_loop :: "string \<Rightarrow> bool \<Rightarrow> string \<Rightarrow> attribute_list \<Rightarrow> string \<times> attribute_list" where
  "attributes_loop start first cursor attrs =
     (if cursor = [] then (cursor, attrs)
      else case read_attribute first cursor of
        List_end c \<Rightarrow> (c, attrs)
      | Item (name, v) c \<Rightarrow> attributes_loop start False c (map_put id name v attrs)
      | Syntax_error \<Rightarrow> (start, attrs))"
  by pat_completeness auto
termination
  by (relation "measure (\<lambda>(b, first, cursor, attrs). length cursor)") (auto dest: read_attribute_shorter)

declare attributes_loop.simps [simp del]

definition extract_attributes :: "string \<Rightarrow> attribute_list \<Rightarrow> string \<times> attribute_list" where
  "extract_attributes s attrs = (if s = [] then (s, attrs) else attributes_loop s True s attrs)"

lemma length_attributes_loop:
  "length cursor \<le> length start \<Longrightarrow> length (fst (attributes_loop start first cursor attrs)) \<le> length start"
proof (induction start first cursor attrs rule: attributes_loop.induct)
  case (1 start first cursor attrs)
  show ?case
  proof (cases "read_attribute first cursor")
    case (List_end c)
    then show ?thesis using "1.prems" read_attribute_end [OF List_end]
      by (simp add: attributes_loop.simps [of _ first cursor])
  next
    case (Item kv c)
    obtain name v where "kv = (name, v)" by (cases kv)
    with Item read_attribute_shorter [OF Item] 1 show ?thesis
      by (auto simp: attributes_loop.simps [of _ first cursor])
  qed (use "1.prems" in \<open>simp add: attributes_loop.simps [of _ first cursor]\<close>)
qed

lemma length_extract_attributes: "length (fst (extract_attributes s attrs)) \<le> length s"
  by (simp add: extract_attributes_def length_attributes_loop)


text \<open>
  One parameter, up to the character that follows it and its attributes. A parameter at the very end
  of the text is taken as it is.
\<close>

definition read_parameter :: "string \<Rightarrow> (string \<times> attribute_list) item" where
  "read_parameter cursor =
     (let c1 = extract_all_lws cursor in
      if c1 = [] then List_end c1
      else let (name, c2) = extract_token c1 in
        if name = [] then Syntax_error
        else let c3 = extract_all_lws c2 in
          if c3 = [] then Item (name, []) c3
          else if hd c3 = CHR '';''
          then let (c4, attrs) = extract_attributes (tl c3) [] in
            if c4 = tl c3 then Syntax_error else Item (name, attrs) (extract_all_lws c4)
          else Item (name, []) (extract_all_lws c3))"

lemma read_parameter_shorter:
  assumes "read_parameter cursor = Item p c"
  shows "length c < length cursor"
proof -
  define c1 where "c1 = extract_all_lws cursor"
  define c3 where "c3 = extract_all_lws (snd (extract_token c1))"
  have name: "fst (extract_token c1) \<noteq> []"
    using assms by (auto simp: read_parameter_def Let_def c1_def split_beta split: if_splits)
  have "c \<in> {c3, extract_all_lws (fst (extract_attributes (tl c3) [])), extract_all_lws c3}"
    using assms by (auto simp: read_parameter_def Let_def c1_def c3_def split_beta split: if_splits)
  then have "length c \<le> length c3"
    using length_extract_all_lws [of c3] length_extract_attributes [of "tl c3" "[]"]
      length_extract_all_lws [of "fst (extract_attributes (tl c3) [])"] by auto
  also have "length c3 \<le> length (snd (extract_token c1))" unfolding c3_def by (rule length_extract_all_lws)
  also have "\<dots> < length c1" using token_shorter [of c1] name by (metis prod.collapse)
  also have "length c1 \<le> length cursor" unfolding c1_def by (rule length_extract_all_lws)
  finally show ?thesis .
qed

function parameters_loop :: "string \<Rightarrow> string \<Rightarrow> parameter_list \<Rightarrow> string \<times> parameter_list" where
  "parameters_loop start cursor ps =
     (if cursor = [] then (cursor, ps)
      else case read_parameter cursor of
        List_end c \<Rightarrow> (c, ps)
      | Syntax_error \<Rightarrow> (start, ps)
      | Item p c \<Rightarrow>
          if c = [] \<or> hd c \<noteq> CHR '','' then (c, ps @ [p])
          else if tl c = [] then (start, ps @ [p])
          else parameters_loop start (tl c) (ps @ [p]))"
  by pat_completeness auto
termination
  by (relation "measure (\<lambda>(b, cursor, ps). length cursor)") (auto dest: read_parameter_shorter)

declare parameters_loop.simps [simp del]

definition extract_parameters :: "string \<Rightarrow> parameter_list \<Rightarrow> string \<times> parameter_list" where
  "extract_parameters s ps = (if s = [] then (s, ps) else parameters_loop s s ps)"

text \<open>
  Stripping white space at both ends. When the backward search passes the iterator the forward search
  stopped at, the string is made from a range that ends before it begins.
\<close>

definition strip_lws :: "string \<Rightarrow> string http_result" where
  "strip_lws input =
     (let front = extract_all_lws input in
      if front = [] then Value []
      else let keep = length (extract_all_lws (rev input)); skip = length input - length front in
        if keep < skip then Bad_range else Value (drop skip (take keep input)))"

subsection \<open>The part all HTTP messages share\<close>

record http_parser =
  m_version :: string
  m_headers :: header_list
  m_body :: string

definition set_version :: "string \<Rightarrow> 'a http_parser_scheme \<Rightarrow> 'a http_parser_scheme" where
  "set_version v p = p\<lparr>m_version := v\<rparr>"

definition get_header :: "string \<Rightarrow> 'a http_parser_scheme \<Rightarrow> string" where
  "get_header key p = (case map_get to_lower (m_headers p) key of None \<Rightarrow> [] | Some v \<Rightarrow> v)"

definition replace_header :: "string \<Rightarrow> string \<Rightarrow> 'a http_parser_scheme \<Rightarrow> 'a http_parser_scheme" where
  "replace_header key val p = p\<lparr>m_headers := map_put to_lower key val (m_headers p)\<rparr>"

definition remove_header :: "string \<Rightarrow> 'a http_parser_scheme \<Rightarrow> 'a http_parser_scheme" where
  "remove_header key p = p\<lparr>m_headers := map_erase to_lower key (m_headers p)\<rparr>"

definition append_header :: "string \<Rightarrow> string \<Rightarrow> 'a http_parser_scheme \<Rightarrow> 'a http_parser_scheme http_result" where
  "append_header key val p =
     (if list_ex is_not_token_char key then Throw ''Invalid header name'' (status_value S_bad_request)
      else if get_header key p = [] then Value (p\<lparr>m_headers := map_put to_lower key val (m_headers p)\<rparr>)
      else Value (p\<lparr>m_headers := map_put to_lower key (get_header key p @ '', '' @ val) (m_headers p)\<rparr>))"

definition set_body :: "string \<Rightarrow> 'a http_parser_scheme \<Rightarrow> 'a http_parser_scheme" where
  "set_body v p =
     (if v = [] then (remove_header ''Content-Length'' p)\<lparr>m_body := []\<rparr>
      else (replace_header ''Content-Length'' (decimal (length v)) p)\<lparr>m_body := v\<rparr>)"

text \<open>The result is whether the iterator did not move: true is a syntax error.\<close>

definition parse_parameter_list :: "string \<Rightarrow> parameter_list \<Rightarrow> bool \<times> parameter_list" where
  "parse_parameter_list s ps =
     (if s = [] then (False, ps) else let (it, ps') = extract_parameters s ps in (it = s, ps'))"

definition get_header_as_plist :: "string \<Rightarrow> parameter_list \<Rightarrow> 'a http_parser_scheme \<Rightarrow> bool \<times> parameter_list" where
  "get_header_as_plist key ps p =
     (case map_get to_lower (m_headers p) key of
        None \<Rightarrow> (False, ps)
      | Some v \<Rightarrow> if v = [] then (False, ps) else parse_parameter_list v ps)"

text \<open>The text before the first occurrence of a character and behind it.\<close>

fun split_at :: "char \<Rightarrow> string \<Rightarrow> (string \<times> string) option" where
  "split_at c [] = None"
| "split_at c (x # xs) = (if x = c then Some ([], xs) else map_option (\<lambda>(a, b). (x # a, b)) (split_at c xs))"

definition process_header :: "string \<Rightarrow> 'a http_parser_scheme \<Rightarrow> 'a http_parser_scheme http_result" where
  "process_header line p =
     (case split_at header_separator line of
        None \<Rightarrow> Throw ''Invalid header line'' (status_value S_bad_request)
      | Some (name, v) \<Rightarrow>
          and_then (strip_lws name) (\<lambda>name. and_then (strip_lws v) (\<lambda>v. append_header name v p)))"

lemma getline_shorter: "getline s = Some (l, r) \<Longrightarrow> length r < length s"
  using length_dropWhile_le [of "\<lambda>c. c \<noteq> CHR 0x0A" s] by (cases s) (auto simp: getline_def split: if_splits)

text \<open>
  The deprecated \<^verbatim>\<open>parse_headers\<close> reads lines from a stream. The last character of an empty line does not
  exist, and two characters are skipped at the separator, which has one.
\<close>

function parse_headers :: "string \<Rightarrow> 'a http_parser_scheme \<Rightarrow> ('a http_parser_scheme \<times> string) http_result" where
  "parse_headers s p =
     (case getline s of
        None \<Rightarrow> Value (p, s)
      | Some (header, rest) \<Rightarrow>
          if header = [CHR 0x0D] then Value (p, rest)
          else if header = [] then Bad_range
          else if last header \<noteq> CHR 0x0D then parse_headers rest p
          else case split_at header_separator (butlast header) of
              None \<Rightarrow> parse_headers rest p
            | Some (name, v) \<Rightarrow>
                if v = [] then Bad_range
                else and_then (append_header name (tl v) p) (parse_headers rest))"
  by pat_completeness auto
termination
  by (relation "measure (\<lambda>(s, p). length s)")
    (auto dest: getline_shorter)

definition raw_headers :: "'a http_parser_scheme \<Rightarrow> string" where
  "raw_headers p = concat (List.map (\<lambda>(k, v). k @ '': '' @ v @ header_delimiter) (m_headers p))"


subsection \<open>White space around a text\<close>

definition plain_start :: "string \<Rightarrow> bool" where
  "plain_start s \<longleftrightarrow> (s \<noteq> [] \<longrightarrow> \<not> is_whitespace_char (hd s) \<and> hd s \<noteq> CHR 0x0D)"

lemma cr_not_whitespace [simp]: "\<not> is_whitespace_char CHR 0x0D"
  by (simp add: is_whitespace_char_def)

lemma extract_lws_plain: "list_all is_whitespace_char w \<Longrightarrow> plain_start s \<Longrightarrow> extract_lws (w @ s) = s"
proof -
  assume w: "list_all is_whitespace_char w" and s: "plain_start s"
  have "\<not> (w @ s) ! 0 = CHR 0x0D" if "w @ s \<noteq> []"
    using w s that by (cases w; cases s) (auto simp: plain_start_def)
  moreover have "dropWhile is_whitespace_char (w @ s) = s"
    using w s by (induction w) (cases s; auto simp: plain_start_def)+
  ultimately show ?thesis
    by (cases "w @ s") (simp_all add: extract_lws_def not_whitespace_iff)
qed

lemma extract_all_lws_plain: "list_all is_whitespace_char w \<Longrightarrow> plain_start s \<Longrightarrow> extract_all_lws (w @ s) = s"
  using extract_lws_plain [of w s] extract_lws_plain [of "[]" s]
  by (simp add: extract_all_lws.simps [of "w @ s"] extract_all_lws.simps [of s] Let_def)

lemma extract_all_lws_same: "plain_start s \<Longrightarrow> extract_all_lws s = s"
  using extract_all_lws_plain [of "[]" s] by simp

lemma extract_all_lws_blank: "plain_start s \<Longrightarrow> extract_all_lws (CHR '' '' # s) = s"
  using extract_all_lws_plain [of "[CHR '' '']" s] by (simp add: is_whitespace_char_def)

lemma strip_lws_between:
  assumes "list_all is_whitespace_char w1" "list_all is_whitespace_char w2"
    and "plain_start s" "plain_start (rev s)"
  shows "strip_lws (w1 @ s @ w2) = Value s"
proof (cases "s = []")
  case True
  then have "extract_all_lws (w1 @ s @ w2) = []"
    using extract_all_lws_plain [of "w1 @ w2" "[]"] assms(1,2) by (simp add: plain_start_def)
  then show ?thesis using True by (simp add: strip_lws_def)
next
  case False
  have "plain_start (s @ w2)" using False assms(3) by (simp add: plain_start_def)
  with assms(1) have f: "extract_all_lws (w1 @ s @ w2) = s @ w2" by (rule extract_all_lws_plain)
  have "plain_start (rev s @ rev w1)" using False assms(4) by (simp add: plain_start_def)
  then have "extract_all_lws (rev w2 @ rev s @ rev w1) = rev s @ rev w1"
    using assms(2) by (intro extract_all_lws_plain) simp_all
  then have r: "extract_all_lws (rev (w1 @ s @ w2)) = rev s @ rev w1" by simp
  show ?thesis unfolding strip_lws_def f r Let_def using False by simp
qed

text \<open>Tokens, and header texts that survive being written to a line and read back.\<close>

lemma token_plain: "is_token_char c \<Longrightarrow> \<not> is_whitespace_char c \<and> c \<noteq> CHR 0x0D \<and> c \<noteq> CHR 0x0A \<and> c \<noteq> header_separator"
proof -
  have t: "list_all (\<lambda>n. header_token ! n \<noteq> 1) [9, 10, 13, 32, 58]"
    by (simp add: header_token_def)
  have "(of_char c :: nat) \<notin> {9, 10, 13, 32, 58}" if "is_token_char c"
    using that t by (auto simp: is_token_char_def)
  then show "is_token_char c \<Longrightarrow> ?thesis"
    by (auto simp: is_whitespace_char_def header_separator_def)
qed

definition line_text :: "string \<Rightarrow> bool" where
  "line_text s \<longleftrightarrow> CHR 0x0D \<notin> set s \<and> CHR 0x0A \<notin> set s"

definition header_value_ok :: "string \<Rightarrow> bool" where
  "header_value_ok v \<longleftrightarrow> line_text v \<and> (v \<noteq> [] \<longrightarrow> \<not> is_whitespace_char (hd v) \<and> \<not> is_whitespace_char (last v))"

definition header_ok :: "string \<times> string \<Rightarrow> bool" where
  "header_ok kv \<longleftrightarrow> list_all is_token_char (fst kv) \<and> header_value_ok (snd kv)"

lemma plain_start_token: "list_all is_token_char s \<Longrightarrow> plain_start s \<and> plain_start (rev s)"
  using token_plain hd_in_set [of s] last_in_set [of s]
  by (auto simp: plain_start_def hd_rev list_all_iff)

lemma plain_start_value: "header_value_ok v \<Longrightarrow> plain_start v \<and> plain_start (rev v)"
  by (auto simp: plain_start_def header_value_ok_def line_text_def hd_rev dest: hd_in_set last_in_set)

lemma strip_token: "list_all is_token_char s \<Longrightarrow> strip_lws s = Value s"
  using strip_lws_between [of "[]" "[]" s] plain_start_token [of s] by simp

lemma strip_value: "header_value_ok v \<Longrightarrow> strip_lws (CHR '' '' # v) = Value v"
  using strip_lws_between [of "[CHR '' '']" "[]" v] plain_start_value [of v] by (simp add: is_whitespace_char_def)

lemma split_at_first: "c \<notin> set s \<Longrightarrow> split_at c (s @ c # rest) = Some (s, rest)"
  by (induction s) auto

lemma process_header_line:
  assumes "header_ok (k, v)" "map_get to_lower (m_headers p) k = None"
  shows "process_header (k @ '': '' @ v) p = Value (p\<lparr>m_headers := map_put to_lower k v (m_headers p)\<rparr>)"
proof -
  have k: "list_all is_token_char k" and v: "header_value_ok v" using assms(1) by (simp_all add: header_ok_def)
  have "header_separator \<notin> set k" using k token_plain by (auto simp: list_all_iff)
  from split_at_first [OF this, of "CHR '' '' # v"]
  have "split_at header_separator (k @ '': '' @ v) = Some (k, CHR '' '' # v)" by (simp add: header_separator_def)
  moreover have "\<not> list_ex is_not_token_char k" using k by (simp add: list_all_iff list_ex_iff not_token_iff)
  ultimately show ?thesis
    using assms(2) k v
    by (simp add: process_header_def strip_token strip_value append_header_def get_header_def)
qed


subsection \<open>Printed parameter lists\<close>

definition is_token :: "string \<Rightarrow> bool" where
  "is_token s \<longleftrightarrow> s \<noteq> [] \<and> list_all is_token_char s"

definition attribute_text :: "string \<times> string \<Rightarrow> string" where
  "attribute_text kv = ''; '' @ fst kv @ (if snd kv = [] then [] else CHR ''='' # snd kv)"

definition attributes_text :: "attribute_list \<Rightarrow> string" where
  "attributes_text kvs = concat (List.map attribute_text kvs)"

definition parameter_text :: "string \<times> attribute_list \<Rightarrow> string" where
  "parameter_text p = fst p @ attributes_text (snd p)"

fun parameters_text :: "parameter_list \<Rightarrow> string" where
  "parameters_text [] = []"
| "parameters_text [p] = parameter_text p"
| "parameters_text (p # q # ps) = parameter_text p @ '', '' @ parameters_text (q # ps)"

definition attribute_ok :: "string \<times> string \<Rightarrow> bool" where
  "attribute_ok kv \<longleftrightarrow> is_token (fst kv) \<and> list_all is_token_char (snd kv)"

definition parameter_ok :: "string \<times> attribute_list \<Rightarrow> bool" where
  "parameter_ok p \<longleftrightarrow> is_token (fst p) \<and> list_all attribute_ok (snd p) \<and> map_sorted id (snd p)"

text \<open>What may follow an attribute: nothing, the next attribute, or the next parameter.\<close>

definition item_end :: "string \<Rightarrow> bool" where
  "item_end t \<longleftrightarrow> t = [] \<or> hd t = CHR '';'' \<or> hd t = CHR '',''"

lemma delimiters_not_token: "\<not> is_token_char CHR '';''" "\<not> is_token_char CHR '',''" "\<not> is_token_char CHR ''=''"
  "\<not> is_token_char CHR 0x22" "\<not> is_token_char CHR '' ''"
  by (simp_all add: is_token_char_def header_token_def)

lemma extract_token_stop:
  assumes "list_all is_token_char s" "t = [] \<or> \<not> is_token_char (hd t)"
  shows "extract_token (s @ t) = (s, t)"
  using assms by (induction s) (cases t; simp add: extract_token_def not_token_iff)+

lemma item_end_stop: "item_end t \<Longrightarrow> t = [] \<or> \<not> is_token_char (hd t)"
  using delimiters_not_token by (auto simp: item_end_def)

lemma item_end_plain: "item_end t \<Longrightarrow> plain_start t"
  by (auto simp: item_end_def plain_start_def is_whitespace_char_def)

lemma token_start: "is_token s \<Longrightarrow> plain_start (s @ t)"
  using plain_start_token [of s] by (simp add: is_token_def plain_start_def)

lemma read_attribute_text:
  assumes "attribute_ok kv" "item_end t"
    and "c = (if first then tl (attribute_text kv) else attribute_text kv) @ t"
  shows "read_attribute first c = Item kv t"
proof -
  obtain k v where kv: "kv = (k, v)" by (cases kv)
  have k: "k \<noteq> []" "list_all is_token_char k" and v: "list_all is_token_char v"
    using assms(1) by (simp_all add: attribute_ok_def is_token_def kv)
  define u where "u = (if v = [] then [] else CHR ''='' # v) @ t"
  have u: "u = [] \<or> \<not> is_token_char (hd u)" "plain_start u"
    using item_end_stop [OF assms(2)] item_end_plain [OF assms(2)] delimiters_not_token
    by (auto simp: u_def plain_start_def is_whitespace_char_def)
  have ku: "plain_start (k @ u)" using token_start [of k u] k by (simp add: is_token_def)
  have c: "extract_all_lws c = (if first then k @ u else CHR '';'' # CHR '' '' # k @ u)"
  proof (cases first)
    case True
    then have "c = CHR '' '' # k @ u" by (simp add: assms(3) attribute_text_def kv u_def)
    then show ?thesis using extract_all_lws_blank [OF ku] True by simp
  next
    case False
    then have "c = CHR '';'' # CHR '' '' # k @ u" by (simp add: assms(3) attribute_text_def kv u_def)
    then show ?thesis using False by (simp add: extract_all_lws_same plain_start_def is_whitespace_char_def)
  qed
  have c2: "extract_all_lws (if first then k @ u else tl (CHR '';'' # CHR '' '' # k @ u)) = k @ u"
    using extract_all_lws_blank [OF ku] extract_all_lws_same [OF ku] by simp
  have tk: "extract_token (k @ u) = (k, u)" using k(2) u(1) by (rule extract_token_stop)
  have "plain_start (v @ t)"
    using plain_start_token [OF v] item_end_plain [OF assms(2)] by (cases v) (auto simp: plain_start_def)
  then have vt: "extract_all_lws (v @ t) = v @ t" by (rule extract_all_lws_same)
  have "extract_quoted_string (v @ t) = ([], v @ t)" if "v \<noteq> []"
    using v that delimiters_not_token(4) by (cases v) (auto simp: extract_quoted_string_def)
  moreover have "extract_token (v @ t) = (v, t)" using v item_end_stop [OF assms(2)] by (rule extract_token_stop)
  moreover have "\<not> (t \<noteq> [] \<and> hd t = CHR ''='')" using assms(2) by (auto simp: item_end_def)
  ultimately show ?thesis
    using k(1) c c2 tk extract_all_lws_same [OF u(2)] vt
    by (cases first; cases "v = []") (auto simp: read_attribute_def Let_def u_def kv)
qed

lemma attributes_text_Cons: "attributes_text (kv # kvs) = attribute_text kv @ attributes_text kvs"
  by (simp add: attributes_text_def)

lemma attributes_text_end: "item_end t \<Longrightarrow> item_end (attributes_text kvs @ t)"
  by (cases kvs) (simp_all add: attributes_text_def attribute_text_def item_end_def)

text \<open>A parameter of tokens, and what the parser makes of it.\<close>

definition parameter_words :: "string \<times> attribute_list \<Rightarrow> bool" where
  "parameter_words p \<longleftrightarrow> is_token (fst p) \<and> list_all attribute_ok (snd p)"

definition put_attributes :: "attribute_list \<Rightarrow> attribute_list \<Rightarrow> attribute_list" where
  "put_attributes kvs acc = fold (\<lambda>kv. map_put id (fst kv) (snd kv)) kvs acc"

definition parameter_value :: "string \<times> attribute_list \<Rightarrow> string \<times> attribute_list" where
  "parameter_value p = (fst p, put_attributes (snd p) [])"

lemma attributes_loop_text:
  assumes "list_all attribute_ok kvs" "t = [] \<or> hd t = CHR '',''"
  shows "attributes_loop start False (attributes_text kvs @ t) acc = (t, put_attributes kvs acc)"
  using assms
proof (induction kvs arbitrary: acc)
  case Nil
  then have "item_end t" by (auto simp: item_end_def)
  then have "extract_all_lws t = t" by (intro extract_all_lws_same item_end_plain)
  with Nil show ?case
    by (auto simp: attributes_loop.simps [of start False] attributes_text_def read_attribute_def put_attributes_def)
next
  case (Cons kv kvs)
  obtain k v where kv: "kv = (k, v)" by (cases kv)
  have e: "item_end (attributes_text kvs @ t)" using Cons.prems(2) by (intro attributes_text_end) (auto simp: item_end_def)
  have "read_attribute False (attribute_text kv @ attributes_text kvs @ t) = Item kv (attributes_text kvs @ t)"
    using Cons.prems(1) e by (intro read_attribute_text) simp_all
  moreover have "attribute_text kv \<noteq> []" by (simp add: attribute_text_def)
  ultimately show ?case
    using Cons.IH [of "map_put id (fst kv) (snd kv) acc"] Cons.prems
    by (simp add: kv put_attributes_def attributes_loop.simps [of start False "attribute_text (k, v) @ attributes_text kvs @ t"] attributes_text_Cons)
qed

lemma extract_attributes_text:
  assumes "list_all attribute_ok kvs" "t = [] \<or> hd t = CHR '',''" "kvs \<noteq> []"
  shows "extract_attributes (tl (attributes_text kvs @ t)) [] = (t, put_attributes kvs [])"
proof -
  obtain kv kvs' where kvs: "kvs = kv # kvs'" using assms(3) by (cases kvs) auto
  have e: "item_end (attributes_text kvs' @ t)" using assms(2) by (intro attributes_text_end) (auto simp: item_end_def)
  define s where "s = tl (attribute_text kv) @ attributes_text kvs' @ t"
  have "read_attribute True s = Item kv (attributes_text kvs' @ t)"
    using assms(1) e by (intro read_attribute_text) (simp_all add: s_def kvs)
  moreover have "s \<noteq> []" by (simp add: s_def attribute_text_def)
  ultimately have "extract_attributes s [] = (t, put_attributes kvs [])"
    using attributes_loop_text [of kvs' t s "map_put id (fst kv) (snd kv) []"] assms
    by (simp add: extract_attributes_def attributes_loop.simps [of s True s] kvs put_attributes_def split: prod.split)
  moreover have "tl (attributes_text kvs @ t) = s"
    by (simp add: kvs attributes_text_Cons s_def attribute_text_def)
  ultimately show ?thesis by simp
qed

lemma read_parameter_text:
  assumes "parameter_words p" "t = [] \<or> hd t = CHR '',''" "c = parameter_text p @ t \<or> c = CHR '' '' # parameter_text p @ t"
  shows "read_parameter c = Item (parameter_value p) t"
proof -
  obtain n kvs where p: "p = (n, kvs)" by (cases p)
  have n: "is_token n" and kvs: "list_all attribute_ok kvs"
    using assms(1) by (simp_all add: parameter_words_def p)
  define u where "u = attributes_text kvs @ t"
  have t: "item_end t" using assms(2) by (auto simp: item_end_def)
  then have u: "item_end u" unfolding u_def by (rule attributes_text_end)
  have c: "extract_all_lws c = n @ u"
    using assms(3) extract_all_lws_same [OF token_start [OF n, of u]] extract_all_lws_blank [OF token_start [OF n, of u]]
    by (auto simp: parameter_text_def p u_def)
  have tk: "extract_token (n @ u) = (n, u)" "n \<noteq> []"
    using n item_end_stop [OF u] by (auto intro: extract_token_stop simp: is_token_def)
  have lws: "extract_all_lws u = u" "extract_all_lws t = t"
    using u t by (simp_all add: extract_all_lws_same item_end_plain)
  show ?thesis
  proof (cases kvs)
    case Nil
    then have "u = t" by (simp add: u_def attributes_text_def)
    moreover have "t \<noteq> [] \<Longrightarrow> hd t \<noteq> CHR '';''" using assms(2) by auto
    ultimately show ?thesis using c tk lws by (cases t) (simp_all add: read_parameter_def Let_def p Nil parameter_value_def put_attributes_def)
  next
    case (Cons kv kvs')
    have "length t < length (tl u)" by (simp add: u_def Cons attributes_text_Cons attribute_text_def)
    then have "t \<noteq> tl u" by auto
    moreover have "extract_attributes (tl u) [] = (t, put_attributes kvs [])"
      unfolding u_def using Cons by (intro extract_attributes_text kvs assms(2)) simp
    moreover have "u \<noteq> [] \<and> hd u = CHR '';''" by (simp add: u_def Cons attributes_text_Cons attribute_text_def)
    ultimately show ?thesis using c tk lws by (simp add: read_parameter_def Let_def p parameter_value_def)
  qed
qed

lemma parameters_loop_text:
  assumes "list_all parameter_words ps" "ps \<noteq> []" "c = parameters_text ps \<or> c = CHR '' '' # parameters_text ps"
  shows "parameters_loop start c acc = ([], acc @ List.map parameter_value ps)"
  using assms
proof (induction ps arbitrary: acc c rule: parameters_text.induct)
  case (2 p)
  have "c \<noteq> []" using 2 by (auto simp: parameter_text_def parameter_words_def is_token_def)
  then show ?case
    using read_parameter_text [of p "[]" c] 2 by (simp add: parameters_loop.simps [of start c])
next
  case (3 p q ps)
  have "c \<noteq> []" using 3(2,4) by (auto simp: parameter_text_def parameter_words_def is_token_def)
  moreover have "read_parameter c = Item (parameter_value p) ('', '' @ parameters_text (q # ps))"
    using 3(2,4) by (intro read_parameter_text) auto
  moreover have "parameters_loop start (CHR '' '' # parameters_text (q # ps)) (acc @ [parameter_value p]) =
      ([], (acc @ [parameter_value p]) @ List.map parameter_value (q # ps))"
    using 3(2) by (intro "3.IH") simp_all
  ultimately show ?case by (simp add: parameters_loop.simps [of start c])
qed simp

text \<open>Attributes in any order, also repeated: the parser files them under their names.\<close>

lemma parse_parameters_words:
  assumes "list_all parameter_words ps" "ps \<noteq> []"
  shows "parse_parameter_list (parameters_text ps) [] = (False, List.map parameter_value ps) \<and> parameters_text ps \<noteq> []"
proof -
  have ne: "parameters_text ps \<noteq> []"
    using assms by (cases ps rule: parameters_text.cases) (auto simp: parameter_text_def parameter_words_def is_token_def)
  then show ?thesis
    using parameters_loop_text [OF assms, of "parameters_text ps" "parameters_text ps" "[]"]
    by (simp add: extract_parameters_def parse_parameter_list_def)
qed

lemma put_sorted: "map_sorted id (acc @ kvs) \<Longrightarrow> put_attributes kvs acc = acc @ kvs"
proof (induction kvs arbitrary: acc)
  case (Cons kv kvs)
  have "map_put id (fst kv) (snd kv) acc = acc @ [(fst kv, snd kv)]"
    using Cons.prems by (intro map_put_last) (auto simp: map_sorted_def sorted_wrt_append)
  then show ?case using Cons.IH [of "acc @ [kv]"] Cons.prems by (simp add: put_attributes_def)
qed (simp add: put_attributes_def)

lemma parse_parameters_text:
  assumes "list_all parameter_ok ps" "ps \<noteq> []"
  shows "parse_parameter_list (parameters_text ps) [] = (False, ps) \<and> parameters_text ps \<noteq> []"
proof -
  have "list_all parameter_words ps" using assms(1) by (auto simp: list_all_iff parameter_ok_def parameter_words_def)
  moreover have "List.map parameter_value ps = ps"
    using assms(1) by (intro map_idI) (auto simp: list_all_iff parameter_ok_def parameter_value_def put_sorted)
  ultimately show ?thesis using parse_parameters_words [of ps] assms(2) by simp
qed

text \<open>
  Reading a printed parameter list. A list of parameters, each a token with attributes in key order whose
  names and values are tokens, printed with the separators of HTTP, is read back, and
  \<^verbatim>\<open>parse_parameter_list\<close> returns false for it: true is the sign of an error, as for a list that begins with a comma.
\<close>

theorem parameter_list_round_trip:
  assumes "list_all parameter_ok ps" "ps \<noteq> []"
  shows "parse_parameter_list (parameters_text ps) [] = (False, ps) \<and>
    parse_parameter_list (CHR '','' # s) old = (True, old)"
proof -
  have "extract_parameters (CHR '','' # s) old = (CHR '','' # s, old)"
  proof -
    have "extract_all_lws (CHR '','' # s) = CHR '','' # s"
      by (rule extract_all_lws_same) (simp add: plain_start_def is_whitespace_char_def)
    moreover have "extract_token (CHR '','' # s) = ([], CHR '','' # s)"
      using extract_token_stop [of "[]" "CHR '','' # s"] delimiters_not_token(2) by simp
    ultimately show ?thesis
      by (simp add: extract_parameters_def parameters_loop.simps [of "CHR '','' # s"] read_parameter_def Let_def)
  qed
  then have "parse_parameter_list (CHR '','' # s) old = (True, old)" by (simp add: parse_parameter_list_def)
  then show ?thesis using parse_parameters_text [OF assms] by simp
qed

theorem parameter_list_round_trip_witness:
  "parse_parameter_list ''permessage-deflate; client_max_window_bits; server_max_window_bits=10, x-other'' [] =
     (False, [(''permessage-deflate'', [(''client_max_window_bits'', []), (''server_max_window_bits'', ''10'')]), (''x-other'', [])])"
proof -
  define ps where "ps = [(''permessage-deflate'',
    [(''client_max_window_bits'', []), (''server_max_window_bits'', ''10'')]), (''x-other'', [])]"
  have "list_all parameter_ok ps" unfolding ps_def by code_simp
  moreover have "parameters_text ps = ''permessage-deflate; client_max_window_bits; server_max_window_bits=10, x-other''"
    unfolding ps_def by code_simp
  ultimately show ?thesis
    using parameter_list_round_trip [of ps] by (simp add: ps_def)
qed

end
