(* ===== verification/Http_Message.thy ===== *)
theory Http_Message
  imports Http_Parser
begin

text \<open>
  HTTP requests and responses (\<^verbatim>\<open>http/request.hpp\<close>, \<^verbatim>\<open>http/response.hpp\<close>): the streaming parsers that collect
  the lines of a header from the chunks the transport delivers, and the printed form. An exception
  ends a parser; the object it leaves behind is not read again.
\<close>

subsection \<open>Lines\<close>

text \<open>\<^verbatim>\<open>std::search\<close> for the header delimiter: the line before it and what follows it.\<close>

fun split_line :: "string \<Rightarrow> (string \<times> string) option" where
  "split_line (c # d # s) =
     (if c = CHR 0x0D \<and> d = CHR 0x0A then Some ([], s)
      else map_option (\<lambda>(l, r). (c # l, r)) (split_line (d # s)))"
| "split_line s = None"

lemma split_line_Some: "split_line s = Some (l, r) \<Longrightarrow> s = l @ header_delimiter @ r"
  by (induction s arbitrary: l r rule: split_line.induct) (auto simp: header_delimiter_def split: if_splits)

lemma split_line_shorter: "split_line s = Some (l, r) \<Longrightarrow> length r < length s"
  by (drule split_line_Some) (simp add: header_delimiter_def)

subsection \<open>Requests\<close>

record request = http_parser +
  m_buf :: string
  m_method :: string
  m_uri :: string
  m_ready :: bool

definition make_request :: request where
  "make_request = \<lparr>m_version = [], m_headers = [], m_body = [], m_buf = [], m_method = [], m_uri = [], m_ready = False\<rparr>"

definition set_method :: "string \<Rightarrow> request \<Rightarrow> request http_result" where
  "set_method s r =
     (if list_ex is_not_token_char s then Throw ''Invalid method token.'' (status_value S_bad_request)
      else Value (r\<lparr>m_method := s\<rparr>))"

definition set_uri :: "string \<Rightarrow> request \<Rightarrow> request" where
  "set_uri s r = r\<lparr>m_uri := s\<rparr>"

definition process_request_line :: "string \<Rightarrow> request \<Rightarrow> request http_result" where
  "process_request_line line r =
     (case split_at CHR '' '' line of
        None \<Rightarrow> Throw ''Invalid request line1'' (status_value S_bad_request)
      | Some (verb, rest) \<Rightarrow> and_then (set_method verb r) (\<lambda>r.
          case split_at CHR '' '' rest of
            None \<Rightarrow> Throw ''Invalid request line2'' (status_value S_bad_request)
          | Some (target, version) \<Rightarrow> Value (set_version version (set_uri target r))))"

text \<open>
  The loop of \<^verbatim>\<open>consume\<close> at \<^verbatim>\<open>begin\<close>. The octets processed are computed modulo 2 to the 64th from the
  octets left in the buffer, which the delimiter may have reached in an earlier call.
\<close>

definition bytes_processed :: "nat \<Rightarrow> string \<Rightarrow> nat" where
  "bytes_processed len after = unat (of_nat len - of_nat (length after + 2) + 2 :: u64)"

function request_lines :: "nat \<Rightarrow> string \<Rightarrow> request \<Rightarrow> (request \<times> nat) http_result" where
  "request_lines len rest r =
     (case split_line rest of
        None \<Rightarrow> Value (r\<lparr>m_buf := rest\<rparr>, len)
      | Some (line, after) \<Rightarrow>
          if line = []
          then if m_method r = [] \<or> get_header ''Host'' r = []
               then Throw ''Incomplete Request'' (status_value S_bad_request)
               else Value (r\<lparr>m_ready := True, m_buf := []\<rparr>, bytes_processed len after)
          else and_then (if m_method r = [] then process_request_line line r else process_header line r)
                 (request_lines len after))"
  by pat_completeness auto
termination
  by (relation "measure (\<lambda>(len, rest, r). length rest)") (auto dest: split_line_shorter)

declare request_lines.simps [simp del]

definition request_consume :: "string \<Rightarrow> request \<Rightarrow> (request \<times> nat) http_result" where
  "request_consume buf r =
     (if m_ready r then Value (r, 0)
      else if length (m_buf r) + length buf > max_header_size
      then Throw ''Maximum header size exceeded.'' (status_value S_request_header_fields_too_large)
      else request_lines (length buf) (m_buf r @ buf) r)"

definition request_raw :: "request \<Rightarrow> string" where
  "request_raw r =
     m_method r @ '' '' @ m_uri r @ '' '' @ m_version r @ header_delimiter @
     raw_headers r @ header_delimiter @ m_body r"

text \<open>
  The deprecated \<^verbatim>\<open>parse_complete\<close>: a word that is missing leaves the one before it, as extraction at the
  end of a stream does not touch its target.
\<close>

definition next_word :: "string \<Rightarrow> string \<Rightarrow> string \<times> string" where
  "next_word old s = (let (w, ok, rest) = extract_word s in (if ok then w else old, rest))"

definition request_parse_complete :: "string \<Rightarrow> request \<Rightarrow> (request \<times> string \<times> bool) http_result" where
  "request_parse_complete s r =
     (let (req, rest) = (case getline s of None \<Rightarrow> ([], s) | Some x \<Rightarrow> x) in
      if req = [] then Bad_range
      else if last req \<noteq> CHR 0x0D then Value (r, rest, False)
      else let (w1, s1) = next_word [] (butlast req); (w2, s2) = next_word w1 s1; (w3, s3) = next_word w2 s2 in
        and_then (set_method w1 r) (\<lambda>r.
        and_then (parse_headers rest (set_version w3 (set_uri w2 r))) (\<lambda>(r, rest). Value (r, rest, True))))"

subsection \<open>Responses\<close>

datatype response_state = RESPONSE_LINE | HEADERS | BODY | DONE

record response = http_parser +
  m_status_msg :: string
  m_read :: u64
  r_buf :: string
  m_status_code :: int
  r_state :: response_state

definition make_response :: response where
  "make_response = \<lparr>m_version = [], m_headers = [], m_body = [], m_status_msg = [], m_read = 0, r_buf = [],
     m_status_code = status_value S_uninitialized, r_state = RESPONSE_LINE\<rparr>"

definition set_status :: "int \<Rightarrow> response \<Rightarrow> response" where
  "set_status code r = r\<lparr>m_status_code := code, m_status_msg := status_get_message code\<rparr>"

definition set_status_msg :: "int \<Rightarrow> string \<Rightarrow> response \<Rightarrow> response" where
  "set_status_msg code msg r = r\<lparr>m_status_code := code, m_status_msg := msg\<rparr>"

text \<open>
  \<^verbatim>\<open>operator>>\<close> into an \<^verbatim>\<open>int\<close> and into a \<^verbatim>\<open>size_t\<close>: white space, a sign, digits; it fails without a digit and
  when the number does not fit.
\<close>

definition extract_sign :: "string \<Rightarrow> bool \<times> string" where
  "extract_sign s =
     (case dropWhile is_space s of
        [] \<Rightarrow> (False, [])
      | c # cs \<Rightarrow> if c = CHR ''-'' then (True, cs) else if c = CHR ''+'' then (False, cs) else (False, c # cs))"

definition extract_int :: "string \<Rightarrow> int option" where
  "extract_int s =
     (let (neg, t) = extract_sign s; ds = takeWhile is_digit t; n = int (digits_value ds); v = (if neg then - n else n)
      in if ds = [] \<or> v > 2147483647 \<or> v < - 2147483648 then None else Some v)"

definition extract_size :: "string \<Rightarrow> u64 option" where
  "extract_size s =
     (let (neg, t) = extract_sign s; ds = takeWhile is_digit t; n = digits_value ds
      in if ds = [] \<or> n > 18446744073709551615 then None else Some (if neg then - of_nat n else of_nat n))"

definition process_response_line :: "string \<Rightarrow> response \<Rightarrow> response http_result" where
  "process_response_line line r =
     (case split_at CHR '' '' line of
        None \<Rightarrow> Throw ''Invalid response line'' (status_value S_bad_request)
      | Some (version, rest) \<Rightarrow>
          case split_at CHR '' '' rest of
            None \<Rightarrow> Throw ''Invalid request line'' (status_value S_bad_request)
          | Some (code, reason) \<Rightarrow>
              case extract_int code of
                None \<Rightarrow> Throw ''Unable to parse response code'' (status_value S_bad_request)
              | Some n \<Rightarrow> Value (set_status_msg n reason (set_version version r)))"

definition process_body :: "string \<Rightarrow> response \<Rightarrow> response \<times> nat" where
  "process_body buf r =
     (if m_read r = 0 then (r\<lparr>r_state := DONE\<rparr>, 0)
      else let to_read = (if of_nat (length buf) \<ge> m_read r then unat (m_read r) else length buf) in
        (r\<lparr>r_state := (if of_nat (length buf) \<ge> m_read r then DONE else r_state r),
           m_body := m_body r @ take to_read buf, m_read := m_read r - of_nat to_read\<rparr>, to_read))"

definition content_length :: "response \<Rightarrow> u64 http_result" where
  "content_length r =
     (let v = get_header ''Content-Length'' r in
      if v = [] then Value 0
      else case extract_size v of
        None \<Rightarrow> Throw ''Unable to parse Content-Length header'' (status_value S_bad_request)
      | Some n \<Rightarrow> Value n)"

function response_lines :: "string \<Rightarrow> string \<Rightarrow> response \<Rightarrow> (response \<times> nat) http_result" where
  "response_lines buf rest r =
     (case split_line rest of
        None \<Rightarrow> Value (r\<lparr>r_buf := rest, m_read := m_read r + of_nat (length buf)\<rparr>, length buf)
      | Some (line, after) \<Rightarrow>
          if line = []
          then if r_state r = RESPONSE_LINE then Throw ''Incomplete Request'' (status_value S_bad_request)
               else and_then (content_length r) (\<lambda>n.
                 let r' = r\<lparr>m_read := n, r_state := BODY\<rparr>; p = bytes_processed (length buf) after;
                     (r'', q) = (if p < length buf then process_body (drop p buf) r' else (r', 0))
                 in Value (r''\<lparr>r_buf := []\<rparr>, p + q))
          else and_then
                 (if r_state r = RESPONSE_LINE
                  then and_then (process_response_line line r) (\<lambda>r. Value (r\<lparr>r_state := HEADERS\<rparr>))
                  else process_header line r)
                 (response_lines buf after))"
  by pat_completeness auto
termination
  by (relation "measure (\<lambda>(buf, rest, r). length rest)") (auto dest: split_line_shorter)

declare response_lines.simps [simp del]

definition response_consume :: "string \<Rightarrow> response \<Rightarrow> (response \<times> nat) http_result" where
  "response_consume buf r =
     (if r_state r = DONE then Value (r, 0)
      else if r_state r = BODY then Value (process_body buf r)
      else if m_read r + of_nat (length buf) > of_nat max_header_size
      then Throw ''Maximum header size exceeded.'' (status_value S_request_header_fields_too_large)
      else response_lines buf (r_buf r @ buf) r)"

definition response_ready :: "response \<Rightarrow> bool" where
  "response_ready r \<longleftrightarrow> r_state r = DONE"

definition headers_ready :: "response \<Rightarrow> bool" where
  "headers_ready r \<longleftrightarrow> r_state r = BODY \<or> r_state r = DONE"

definition decimal_int :: "int \<Rightarrow> string" where
  "decimal_int i = (if i < 0 then CHR ''-'' # decimal (nat (- i)) else decimal (nat i))"

definition response_raw :: "response \<Rightarrow> string" where
  "response_raw r =
     m_version r @ '' '' @ decimal_int (m_status_code r) @ '' '' @ m_status_msg r @ header_delimiter @
     raw_headers r @ header_delimiter @ m_body r"


subsection \<open>Reading lines\<close>

lemma split_line_line:
  assumes "line_text l"
  shows "split_line (l @ header_delimiter @ rest) = Some (l, rest)"
  using assms
proof (induction l)
  case Nil
  show ?case by (simp add: header_delimiter_def)
next
  case (Cons c l)
  then have IH: "split_line (l @ header_delimiter @ rest) = Some (l, rest)" by (simp add: line_text_def)
  obtain d ds where "l @ header_delimiter @ rest = d # ds" by (cases l) (simp_all add: header_delimiter_def)
  with IH Cons.prems show ?case by (auto simp: line_text_def)
qed

lemma split_line_append: "split_line s = Some (l, r) \<Longrightarrow> split_line (s @ t) = Some (l, r @ t)"
  by (induction s arbitrary: l r rule: split_line.induct) (auto split: if_splits)

lemma split_line_None_append:
  assumes "split_line s = None" "split_line (s @ t) = Some (l, r)"
  shows "length r \<le> length t"
  using assms
proof (induction s arbitrary: l rule: split_line.induct)
  case (1 c d s)
  then show ?case by (auto split: if_splits)
next
  case "2_1"
  then show ?case using split_line_shorter [of t l r] by simp
next
  case "2_2"
  then show ?case using split_line_shorter [of t] by (cases t) (auto split: if_splits dest: split_line_shorter)
qed

lemma bytes_processed_within:
  assumes "length after \<le> len" "len < 2 ^ 64"
  shows "bytes_processed len after = len - length after"
proof -
  have "of_nat len - of_nat (length after + 2) + 2 = (of_nat (len - length after) :: u64)"
    using assms(1) by (simp add: of_nat_diff)
  then show ?thesis
    using assms(2) unat_of_nat_small [of "len - length after", where ?'a = 64] by (simp add: bytes_processed_def)
qed

lemma bytes_processed_more: "bytes_processed (len + length t) (after @ t) = bytes_processed len after"
  by (simp add: bytes_processed_def)

lemma process_header_ready: "process_header line r = Value r' \<Longrightarrow> m_ready r' = m_ready r \<and> m_buf r' = m_buf r"
  by (auto simp: process_header_def append_header_def and_then_eq_Value split: option.splits if_splits)

lemma process_request_line_ready:
  "process_request_line line r = Value r' \<Longrightarrow> m_ready r' = m_ready r \<and> m_buf r' = m_buf r"
  by (auto simp: process_request_line_def set_method_def set_uri_def set_version_def and_then_eq_Value
      split: option.splits if_splits)

subsection \<open>Cutting the octets of a request\<close>

definition resume_request :: "string \<Rightarrow> (request \<times> nat) http_result \<Rightarrow> (request \<times> nat) http_result" where
  "resume_request ys res =
     and_then res (\<lambda>(r, n).
       if m_ready r then Value (r, n)
       else and_then (request_lines (length ys) (m_buf r @ ys) r) (\<lambda>(r', m). Value (r', n + m)))"

lemma and_then_map: "and_then (and_then r (\<lambda>x. Value (f x))) g = and_then r (\<lambda>x. g (f x))"
  by (cases r) simp_all

lemma process_buf:
  "process_header line (r\<lparr>m_buf := b\<rparr>) = and_then (process_header line r) (\<lambda>r. Value (r\<lparr>m_buf := b\<rparr>))"
  "process_request_line line (r\<lparr>m_buf := b\<rparr>) = and_then (process_request_line line r) (\<lambda>r. Value (r\<lparr>m_buf := b\<rparr>))"
proof -
  have "and_then x (\<lambda>name. and_then (y name) (\<lambda>v. append_header name v (r\<lparr>m_buf := b\<rparr>))) =
      and_then (and_then x (\<lambda>name. and_then (y name) (\<lambda>v. append_header name v r))) (\<lambda>r. Value (r\<lparr>m_buf := b\<rparr>))"
    for x :: "string http_result" and y
  proof (cases x)
    case (Value n)
    then show ?thesis by (cases "y n") (simp_all add: append_header_def get_header_def)
  qed simp_all
  then show "process_header line (r\<lparr>m_buf := b\<rparr>) = and_then (process_header line r) (\<lambda>r. Value (r\<lparr>m_buf := b\<rparr>))"
    by (simp add: process_header_def split: option.split)
  show "process_request_line line (r\<lparr>m_buf := b\<rparr>) = and_then (process_request_line line r) (\<lambda>r. Value (r\<lparr>m_buf := b\<rparr>))"
    by (simp add: process_request_line_def set_method_def set_uri_def set_version_def split: option.split)
qed

lemma request_lines_buf: "request_lines len rest (r\<lparr>m_buf := b\<rparr>) = request_lines len rest r"
proof (induction len rest r rule: request_lines.induct)
  case (1 len rest r)
  show ?case
  proof (cases "split_line rest")
    case None
    then show ?thesis by (simp add: request_lines.simps [of _ rest])
  next
    case (Some la)
    obtain line after where la: "la = (line, after)" by (cases la)
    show ?thesis
    proof (cases "line = []")
      case True
      with Some la show ?thesis by (simp add: request_lines.simps [of _ rest] get_header_def)
    next
      case False
      define step where "step = (if m_method r = [] then process_request_line line r else process_header line r)"
      have "request_lines len rest r = and_then step (request_lines len after)"
        "request_lines len rest (r\<lparr>m_buf := b\<rparr>) = and_then step (\<lambda>r. request_lines len after (r\<lparr>m_buf := b\<rparr>))"
        using Some la False by (simp_all add: request_lines.simps [of _ rest] step_def process_buf and_then_map)
      moreover note "1.IH" [OF Some la [symmetric] False, folded step_def]
      ultimately show ?thesis by (cases step) simp_all
    qed
  qed
qed

lemma request_lines_buffer:
  "request_lines len rest r = Value (r', n) \<Longrightarrow> length (m_buf r') \<le> length rest"
proof (induction len rest r arbitrary: r' n rule: request_lines.induct)
  case (1 len rest r)
  show ?case
  proof (cases "split_line rest")
    case None
    with "1.prems" show ?thesis by (auto simp: request_lines.simps [of len rest r])
  next
    case (Some la)
    obtain line after where la: "la = (line, after)" by (cases la)
    show ?thesis
    proof (cases "line = []")
      case True
      with Some la "1.prems" show ?thesis by (auto simp: request_lines.simps [of len rest r] split: if_splits)
    next
      case False
      with Some la "1.prems" obtain r1 where
        r1: "(if m_method r = [] then process_request_line line r else process_header line r) = Value r1"
          "request_lines len after r1 = Value (r', n)"
        by (auto simp: request_lines.simps [of len rest r] and_then_eq_Value)
      with "1.IH" [OF Some la [symmetric] False] split_line_shorter [of rest line after] Some la show ?thesis
        by (meson le_trans less_imp_le)
    qed
  qed
qed

lemma request_lines_offset:
  assumes "length after \<le> len" "k + len < 2 ^ 64" "m = k + len"
  shows "bytes_processed m after = k + bytes_processed len after"
  using assms by (simp add: bytes_processed_within)

lemma request_lines_later:
  assumes "\<not> m_ready r" "k + len < 2 ^ 64" "\<And>l a. split_line rest = Some (l, a) \<Longrightarrow> length a \<le> len"
  shows "request_lines (k + len) rest r = and_then (request_lines len rest r) (\<lambda>(r', m). Value (r', k + m))"
  using assms
proof (induction len rest r rule: request_lines.induct)
  case (1 len rest r)
  show ?case
  proof (cases "split_line rest")
    case None
    then show ?thesis by (simp add: request_lines.simps [of _ rest r])
  next
    case (Some la)
    obtain line after where la: "la = (line, after)" by (cases la)
    have a: "length after \<le> len" using "1.prems"(3) Some la by simp
    show ?thesis
    proof (cases "line = []")
      case True
      with Some la request_lines_offset [OF a "1.prems"(2)] show ?thesis
        by (simp add: request_lines.simps [of _ rest r])
    next
      case False
      define step where "step = (if m_method r = [] then process_request_line line r else process_header line r)"
      have e: "request_lines n rest r = and_then step (request_lines n after)" for n
        using Some la False by (simp add: request_lines.simps [of n rest r] step_def)
      show ?thesis
      proof (cases step)
        case (Value r1)
        then have "\<not> m_ready r1"
          using process_header_ready process_request_line_ready "1.prems"(1) unfolding step_def by (metis (full_types))
        moreover have "length a' \<le> len" if "split_line after = Some (l', a')" for l' a'
          using split_line_shorter [OF that] a by simp
        ultimately have "request_lines (k + len) after r1 = and_then (request_lines len after r1) (\<lambda>(r', m). Value (r', k + m))"
          using "1.IH" [OF Some la [symmetric] False] "1.prems"(2) Value by blast
        then show ?thesis by (simp add: e Value)
      qed (simp_all add: e)
    qed
  qed
qed

lemma request_lines_split:
  assumes "\<not> m_ready r" "len + length ys < 2 ^ 64"
  shows "request_lines (len + length ys) (rest @ ys) r = resume_request ys (request_lines len rest r)"
  using assms
proof (induction len rest r rule: request_lines.induct)
  case (1 len rest r)
  show ?case
  proof (cases "split_line rest")
    case None
    then have "request_lines len rest r = Value (r\<lparr>m_buf := rest\<rparr>, len)" by (simp add: request_lines.simps [of _ rest r])
    moreover have "request_lines (len + length ys) (rest @ ys) r =
        and_then (request_lines (length ys) (rest @ ys) r) (\<lambda>(r', m). Value (r', len + m))"
      using "1.prems" split_line_None_append [OF None] by (intro request_lines_later) auto
    moreover have "request_lines (length ys) (rest @ ys) (r\<lparr>m_buf := rest\<rparr>) = request_lines (length ys) (rest @ ys) r"
      by (rule request_lines_buf)
    ultimately show ?thesis using "1.prems"(1) by (simp add: resume_request_def)
  next
    case (Some la)
    obtain line after where la: "la = (line, after)" by (cases la)
    have app: "split_line (rest @ ys) = Some (line, after @ ys)" using split_line_append [of rest] Some la by simp
    show ?thesis
    proof (cases "line = []")
      case True
      with Some la app show ?thesis
        by (auto simp: request_lines.simps [of _ rest r] request_lines.simps [of _ "rest @ ys" r]
            resume_request_def bytes_processed_more)
    next
      case False
      define step where "step = (if m_method r = [] then process_request_line line r else process_header line r)"
      have e: "request_lines n rest r = and_then step (request_lines n after)"
        "request_lines n (rest @ ys) r = and_then step (request_lines n (after @ ys))" for n
        using Some la app False
        by (simp_all add: request_lines.simps [of n rest r] request_lines.simps [of n "rest @ ys" r] step_def)
      show ?thesis
      proof (cases step)
        case (Value r1)
        then have "\<not> m_ready r1"
          using process_header_ready process_request_line_ready "1.prems"(1) unfolding step_def by (metis (full_types))
        then show ?thesis using "1.IH" [OF Some la [symmetric] False] "1.prems"(2) Value by (simp add: e step_def)
      qed (simp_all add: e resume_request_def)
    qed
  qed
qed


text \<open>
  C21: how the transport cuts a request does not matter. While the octets fit the buffer limit, feeding them in two
  pieces leaves the request the one piece leaves, or fails in the same way, and processes as many
  octets; what follows a complete header is not touched.
\<close>

theorem request_consume_split:
  assumes "\<not> m_ready r" "length (m_buf r) + length xs + length ys \<le> max_header_size"
  shows "request_consume (xs @ ys) r =
    and_then (request_consume xs r) (\<lambda>(r1, n).
      if m_ready r1 then Value (r1, n)
      else and_then (request_consume ys r1) (\<lambda>(r2, m). Value (r2, n + m)))"
proof -
  have small: "length xs + length ys < 2 ^ 64" using assms(2) by (simp add: max_header_size_def)
  have "request_consume (xs @ ys) r = resume_request ys (request_lines (length xs) (m_buf r @ xs) r)"
    using request_lines_split [OF assms(1) small, of "m_buf r @ xs"] assms by (simp add: request_consume_def)
  moreover have "request_consume xs r = request_lines (length xs) (m_buf r @ xs) r"
    using assms by (simp add: request_consume_def)
  moreover have "request_consume ys r1 = request_lines (length ys) (m_buf r1 @ ys) r1"
    if "request_lines (length xs) (m_buf r @ xs) r = Value (r1, n)" "\<not> m_ready r1" for r1 n
    using request_lines_buffer [OF that(1)] that(2) assms(2) by (simp add: request_consume_def)
  ultimately show ?thesis
    by (cases "request_lines (length xs) (m_buf r @ xs) r") (auto simp: resume_request_def)
qed

text \<open>A request that can be printed and read back.\<close>

definition request_ok :: "request \<Rightarrow> bool" where
  "request_ok r \<longleftrightarrow>
     m_method r \<noteq> [] \<and> list_all is_token_char (m_method r) \<and>
     line_text (m_uri r) \<and> CHR '' '' \<notin> set (m_uri r) \<and> line_text (m_version r) \<and>
     list_all header_ok (m_headers r) \<and> map_sorted to_lower (m_headers r) \<and> get_header ''Host'' r \<noteq> []"

lemma line_text_append [simp]: "line_text (a @ b) \<longleftrightarrow> line_text a \<and> line_text b"
  by (auto simp: line_text_def)

lemma line_text_Cons [simp]: "line_text (c # s) \<longleftrightarrow> c \<noteq> CHR 0x0D \<and> c \<noteq> CHR 0x0A \<and> line_text s"
  by (auto simp: line_text_def)

lemma line_text_Nil [simp]: "line_text []"
  by (simp add: line_text_def)

lemma token_line: "list_all is_token_char s \<Longrightarrow> line_text s \<and> CHR '' '' \<notin> set s"
proof (induction s)
  case (Cons c s)
  then show ?case using token_plain [of c] by (auto simp: is_whitespace_char_def)
qed simp

text \<open>The lines of a header list, as \<^verbatim>\<open>raw_headers\<close> prints them.\<close>

definition header_text :: "header_list \<Rightarrow> string" where
  "header_text hs = concat (List.map (\<lambda>(k, v). k @ '': '' @ v @ header_delimiter) hs)"

lemma header_text_simps [simp]:
  "header_text [] = []" "header_text ((k, v) # hs) = k @ '': '' @ v @ header_delimiter @ header_text hs"
  by (simp_all add: header_text_def)

lemma header_line_ok: "header_ok (k, v) \<Longrightarrow> line_text (k @ '': '' @ v)"
  using token_line [of k] by (simp add: header_ok_def header_value_ok_def)

lemma request_lines_step:
  assumes "line_text l" "l \<noteq> []"
  shows "request_lines len (l @ header_delimiter @ rest) r =
    and_then (if m_method r = [] then process_request_line l r else process_header l r) (request_lines len rest)"
  using split_line_line [OF assms(1), of rest] assms(2) by (simp add: request_lines.simps [of len _ r])

lemma request_lines_blank:
  "m_method r \<noteq> [] \<Longrightarrow> get_header ''Host'' r \<noteq> [] \<Longrightarrow>
   request_lines len ([] @ header_delimiter @ after) r = Value (r\<lparr>m_ready := True, m_buf := []\<rparr>, bytes_processed len after)"
  using split_line_line [of "[]" after] by (simp add: request_lines.simps [of len _ r])

lemma request_lines_headers:
  assumes "list_all header_ok hs" "map_sorted to_lower (m_headers r @ hs)" "m_method r \<noteq> []"
  shows "request_lines len (header_text hs @ rest) r = request_lines len rest (r\<lparr>m_headers := m_headers r @ hs\<rparr>)"
  using assms
proof (induction hs arbitrary: r)
  case (Cons kv hs)
  obtain k v where kv: "kv = (k, v)" by (cases kv)
  have ok: "header_ok (k, v)" using Cons.prems(1) kv by simp
  have below: "\<forall>x \<in> set (m_headers r). to_lower (fst x) < to_lower k"
    using Cons.prems(2) by (auto simp: map_sorted_def sorted_wrt_append kv)
  then have new: "map_get to_lower (m_headers r) k = None" by (auto simp: map_get_None)
  have "request_lines len (header_text (kv # hs) @ rest) r =
      request_lines len (header_text hs @ rest) (r\<lparr>m_headers := m_headers r @ [(k, v)]\<rparr>)"
    using request_lines_step [OF header_line_ok [OF ok], of len "header_text hs @ rest" r] Cons.prems(3)
    by (simp add: kv process_header_line [OF ok new, simplified] map_put_last [OF below])
  then show ?case using Cons.IH [of "r\<lparr>m_headers := m_headers r @ [(k, v)]\<rparr>"] Cons.prems by (simp add: kv)
qed simp

lemma process_request_line_text:
  assumes "list_all is_token_char verb" "CHR '' '' \<notin> set target"
  shows "process_request_line (verb @ '' '' @ target @ '' '' @ version) r =
    Value (r\<lparr>m_method := verb, m_uri := target, m_version := version\<rparr>)"
proof -
  have "\<not> list_ex is_not_token_char verb" using assms(1) by (simp add: list_all_iff list_ex_iff not_token_iff)
  then show ?thesis
    using split_at_first [of "CHR '' ''" verb "target @ '' '' @ version"] token_line [OF assms(1)]
      split_at_first [OF assms(2), of version]
    by (simp add: process_request_line_def set_method_def set_uri_def set_version_def)
qed

lemma request_read_back:
  assumes "request_ok r" "length (request_raw r) + length rest \<le> max_header_size"
  shows "request_consume (request_raw r @ rest) make_request =
    Value (r\<lparr>m_body := [], m_buf := [], m_ready := True\<rparr>, length (request_raw r) - length (m_body r))"
proof -
  define line where "line = m_method r @ '' '' @ m_uri r @ '' '' @ m_version r"
  define r1 where "r1 = make_request\<lparr>m_method := m_method r, m_uri := m_uri r, m_version := m_version r\<rparr>"
  define after where "after = m_body r @ rest"
  have ok: "m_method r \<noteq> []" "list_all is_token_char (m_method r)" "line_text (m_uri r)" "CHR '' '' \<notin> set (m_uri r)"
    "line_text (m_version r)" "list_all header_ok (m_headers r)"
    "map_sorted to_lower (m_headers r)" "get_header ''Host'' r \<noteq> []"
    using assms(1) by (simp_all add: request_ok_def)
  have raw: "request_raw r @ rest = line @ header_delimiter @ header_text (m_headers r) @ [] @ header_delimiter @ after"
    by (simp add: request_raw_def line_def after_def raw_headers_def header_text_def)
  define len where "len = length (request_raw r @ rest)"
  have "line_text line" "line \<noteq> []" using ok token_line [of "m_method r"] by (simp_all add: line_def)
  then have "request_lines len (request_raw r @ rest) make_request =
      and_then (process_request_line line make_request) (request_lines len (header_text (m_headers r) @ [] @ header_delimiter @ after))"
    unfolding raw using request_lines_step [of line len _ make_request] by (simp add: make_request_def)
  also have "\<dots> = request_lines len (header_text (m_headers r) @ [] @ header_delimiter @ after) r1"
    unfolding line_def process_request_line_text [OF ok(2,4)] by (simp add: r1_def)
  also have "\<dots> = request_lines len ([] @ header_delimiter @ after) (r1\<lparr>m_headers := m_headers r\<rparr>)"
    using request_lines_headers [OF ok(6), of r1 len "[] @ header_delimiter @ after"] ok(1,7) by (simp add: r1_def make_request_def)
  also have "\<dots> = Value (r1\<lparr>m_headers := m_headers r, m_ready := True, m_buf := []\<rparr>, bytes_processed len after)"
    using ok(1,8) by (intro request_lines_blank) (simp_all add: r1_def get_header_def)
  also have "r1\<lparr>m_headers := m_headers r, m_ready := True, m_buf := []\<rparr> = r\<lparr>m_body := [], m_buf := [], m_ready := True\<rparr>"
    by (simp add: r1_def make_request_def)
  also have "bytes_processed len after = length (request_raw r) - length (m_body r)"
  proof -
    have "length after \<le> len" "len < 2 ^ 64" "len - length after = length (request_raw r) - length (m_body r)"
      using assms(2) by (simp_all add: len_def after_def max_header_size_def) (simp_all add: request_raw_def)
    then show ?thesis by (simp add: bytes_processed_within)
  qed
  finally have "request_lines len (request_raw r @ rest) make_request =
      Value (r\<lparr>m_body := [], m_buf := [], m_ready := True\<rparr>, length (request_raw r) - length (m_body r))" .
  then show ?thesis using assms(2) by (simp add: request_consume_def len_def make_request_def)
qed


text \<open>
  C23: reading a printed request. A request with a token as method, header names that are tokens, values without
  blanks at the ends, and a Host header, printed and followed by anything, is read back with the
  same method, target, version and headers; exactly its header octets are consumed.
\<close>

theorem request_round_trip:
  assumes "request_ok r" "length (request_raw r) + length rest \<le> max_header_size"
  shows "request_consume (request_raw r @ rest) make_request =
    Value (r\<lparr>m_body := [], m_buf := [], m_ready := True\<rparr>, length (request_raw r) - length (m_body r))"
  using assms by (rule request_read_back)

subsection \<open>Reading a response\<close>

lemma extract_sign_digits: "list_all is_digit ds \<Longrightarrow> ds \<noteq> [] \<Longrightarrow> extract_sign ds = (False, ds)"
  using digit_not by (cases ds) (auto simp: extract_sign_def)

lemma decimal_facts:
  "takeWhile is_digit (decimal n) = decimal n" "digits_value (decimal n) = n" "decimal n \<noteq> []"
  "extract_sign (decimal n) = (False, decimal n)"
  using decimal_digits [of n] extract_sign_digits [of "decimal n"] by (simp_all add: list_all_iff)

lemma extract_size_decimal: "n < 2 ^ 64 \<Longrightarrow> extract_size (decimal n) = Some (of_nat n)"
  by (simp add: extract_size_def decimal_facts)

lemma extract_int_decimal:
  assumes "- 2147483648 \<le> i" "i \<le> 2147483647"
  shows "extract_int (decimal_int i) = Some i"
proof (cases "i < 0")
  case True
  have "extract_sign (CHR ''-'' # ds) = (True, ds)" for ds by (simp add: extract_sign_def is_space_def)
  then show ?thesis using True assms by (simp add: extract_int_def decimal_int_def decimal_facts)
next
  case False
  then show ?thesis using assms by (simp add: extract_int_def decimal_int_def decimal_facts)
qed

lemma digit_line: "is_digit c \<Longrightarrow> c \<noteq> CHR 0x0D \<and> c \<noteq> CHR 0x0A \<and> c \<noteq> CHR '' ''"
  by (auto simp: is_digit_def)

lemma digits_line: "list_all is_digit ds \<Longrightarrow> line_text ds \<and> CHR '' '' \<notin> set ds"
proof (induction ds)
  case (Cons c ds)
  then show ?case using digit_line [of c] by auto
qed simp

lemma decimal_int_line: "line_text (decimal_int i) \<and> CHR '' '' \<notin> set (decimal_int i)"
  using digits_line [of "decimal (nat (- i))"] digits_line [of "decimal (nat i)"] decimal_digits
  by (simp add: decimal_int_def)

definition response_ok :: "response \<Rightarrow> bool" where
  "response_ok r \<longleftrightarrow>
     line_text (m_version r) \<and> CHR '' '' \<notin> set (m_version r) \<and> line_text (m_status_msg r) \<and>
     - 2147483648 \<le> m_status_code r \<and> m_status_code r \<le> 2147483647 \<and>
     list_all header_ok (m_headers r) \<and> map_sorted to_lower (m_headers r)"

lemma process_response_line_text:
  assumes "CHR '' '' \<notin> set version" "- 2147483648 \<le> code" "code \<le> 2147483647"
  shows "process_response_line (version @ '' '' @ decimal_int code @ '' '' @ reason) r =
    Value (r\<lparr>m_version := version, m_status_code := code, m_status_msg := reason\<rparr>)"
  using split_at_first [OF assms(1), of "decimal_int code @ '' '' @ reason"]
    split_at_first [of "CHR '' ''" "decimal_int code" reason] decimal_int_line [of code] assms(2,3)
  by (simp add: process_response_line_def extract_int_decimal set_version_def set_status_msg_def)

lemma response_lines_step:
  assumes "line_text l" "l \<noteq> []"
  shows "response_lines buf (l @ header_delimiter @ rest) r =
    and_then
      (if r_state r = RESPONSE_LINE
       then and_then (process_response_line l r) (\<lambda>r. Value (r\<lparr>r_state := HEADERS\<rparr>)) else process_header l r)
      (response_lines buf rest)"
  using split_line_line [OF assms(1), of rest] assms(2) by (simp add: response_lines.simps [of buf _ r])

lemma response_lines_headers:
  assumes "list_all header_ok hs" "map_sorted to_lower (m_headers r @ hs)" "r_state r = HEADERS"
  shows "response_lines buf (header_text hs @ rest) r = response_lines buf rest (r\<lparr>m_headers := m_headers r @ hs\<rparr>)"
  using assms
proof (induction hs arbitrary: r)
  case (Cons kv hs)
  obtain k v where kv: "kv = (k, v)" by (cases kv)
  have ok: "header_ok (k, v)" using Cons.prems(1) kv by simp
  have below: "\<forall>x \<in> set (m_headers r). to_lower (fst x) < to_lower k"
    using Cons.prems(2) by (auto simp: map_sorted_def sorted_wrt_append kv)
  then have new: "map_get to_lower (m_headers r) k = None" by (auto simp: map_get_None)
  have "response_lines buf (header_text (kv # hs) @ rest) r =
      response_lines buf (header_text hs @ rest) (r\<lparr>m_headers := m_headers r @ [(k, v)]\<rparr>)"
    using response_lines_step [OF header_line_ok [OF ok], of buf "header_text hs @ rest" r] Cons.prems(3)
    by (simp add: kv process_header_line [OF ok new, simplified] map_put_last [OF below])
  then show ?case using Cons.IH [of "r\<lparr>m_headers := m_headers r @ [(k, v)]\<rparr>"] Cons.prems by (simp add: kv)
qed simp

lemma response_lines_blank:
  "r_state r = HEADERS \<Longrightarrow> content_length r = Value n \<Longrightarrow> length after \<le> length buf \<Longrightarrow> length buf < 2 ^ 64 \<Longrightarrow>
   drop (length buf - length after) buf = after \<Longrightarrow>
   response_lines buf ([] @ header_delimiter @ after) r =
     (let r' = r\<lparr>m_read := n, r_state := BODY\<rparr>; (r'', q) = (if after \<noteq> [] then process_body after r' else (r', 0))
      in Value (r''\<lparr>r_buf := []\<rparr>, length buf - length after + q))"
  using split_line_line [of "[]" after]
  by (cases after) (simp_all add: response_lines.simps [of buf _ r] bytes_processed_within Let_def split_beta)

lemma response_header_read:
  assumes "response_ok r" "content_length r = Value n" "length (response_raw r) + length rest \<le> max_header_size"
  defines "head \<equiv> length (response_raw r) - length (m_body r)"
  shows "response_consume (response_raw r @ rest) make_response =
    (let r' = r\<lparr>m_body := [], m_read := n, r_buf := [], r_state := BODY\<rparr>;
         (r'', q) = (if m_body r @ rest \<noteq> [] then process_body (m_body r @ rest) r' else (r', 0))
     in Value (r''\<lparr>r_buf := []\<rparr>, head + q))"
proof -
  define line where "line = m_version r @ '' '' @ decimal_int (m_status_code r) @ '' '' @ m_status_msg r"
  define r1 where "r1 = make_response\<lparr>m_version := m_version r, m_status_code := m_status_code r,
    m_status_msg := m_status_msg r, r_state := HEADERS\<rparr>"
  define after where "after = m_body r @ rest"
  define buf where "buf = response_raw r @ rest"
  have ok: "line_text (m_version r)" "CHR '' '' \<notin> set (m_version r)" "line_text (m_status_msg r)"
    "- 2147483648 \<le> m_status_code r" "m_status_code r \<le> 2147483647"
    "list_all header_ok (m_headers r)" "map_sorted to_lower (m_headers r)"
    using assms(1) by (simp_all add: response_ok_def)
  have raw: "buf = line @ header_delimiter @ header_text (m_headers r) @ [] @ header_delimiter @ after"
    by (simp add: response_raw_def line_def after_def raw_headers_def header_text_def buf_def)
  have len: "length after \<le> length buf" "length buf < 2 ^ 64" "drop (length buf - length after) buf = after"
    "length buf - length after = head"
    using assms(3) by (simp_all add: raw) (simp_all add: head_def buf_def after_def max_header_size_def response_raw_def
        line_def raw_headers_def header_text_def)
  have "line_text line" "line \<noteq> []" using ok decimal_int_line by (simp_all add: line_def)
  then have "response_lines buf buf make_response =
      and_then (and_then (process_response_line line make_response) (\<lambda>r. Value (r\<lparr>r_state := HEADERS\<rparr>)))
        (response_lines buf (header_text (m_headers r) @ [] @ header_delimiter @ after))"
    unfolding raw using response_lines_step [of line buf _ make_response] by (simp add: make_response_def raw)
  also have "\<dots> = response_lines buf (header_text (m_headers r) @ [] @ header_delimiter @ after) r1"
    unfolding line_def process_response_line_text [OF ok(2,4,5)] by (simp add: r1_def)
  also have "\<dots> = response_lines buf ([] @ header_delimiter @ after) (r1\<lparr>m_headers := m_headers r\<rparr>)"
    using response_lines_headers [OF ok(6), of r1 buf "[] @ header_delimiter @ after"] ok(7)
    by (simp add: r1_def make_response_def)
  also have "\<dots> = (let r' = r1\<lparr>m_headers := m_headers r, m_read := n, r_state := BODY\<rparr>;
      (r'', q) = (if after \<noteq> [] then process_body after r' else (r', 0)) in Value (r''\<lparr>r_buf := []\<rparr>, head + q))"
  proof -
    have "content_length (r1\<lparr>m_headers := m_headers r\<rparr>) = Value n"
      using assms(2) by (simp add: content_length_def get_header_def)
    then show ?thesis
      using response_lines_blank [of "r1\<lparr>m_headers := m_headers r\<rparr>" n after buf] len by (simp add: r1_def)
  qed
  also have "r1\<lparr>m_headers := m_headers r, m_read := n, r_state := BODY\<rparr> =
      r\<lparr>m_body := [], m_read := n, r_buf := [], r_state := BODY\<rparr>"
    by (simp add: r1_def make_response_def)
  finally have "response_lines buf buf make_response =
      (let r' = r\<lparr>m_body := [], m_read := n, r_buf := [], r_state := BODY\<rparr>;
           (r'', q) = (if after \<noteq> [] then process_body after r' else (r', 0)) in Value (r''\<lparr>r_buf := []\<rparr>, head + q))" .
  moreover have "\<not> m_read make_response + of_nat (length buf) > of_nat max_header_size"
  proof -
    have "unat (of_nat (length buf) :: u64) = length buf" using len(2) by (intro unat_of_nat_small) simp
    then show ?thesis using assms(3) by (simp add: word_less_nat_alt make_response_def max_header_size_def buf_def)
  qed
  moreover have "r_state make_response = RESPONSE_LINE" "r_buf make_response = []" by (simp_all add: make_response_def)
  ultimately show ?thesis
    unfolding buf_def [symmetric] after_def [symmetric] response_consume_def by simp
qed




definition sample_response :: response where
  "sample_response = set_body ''body'' (make_response\<lparr>m_version := ''HTTP/1.1'', m_status_code := 200, m_status_msg := ''OK''\<rparr>)"


definition sample_request :: request where
  "sample_request = replace_header ''Host'' ''a'' (make_request\<lparr>m_method := ''GET'', m_uri := ''/'', m_version := ''HTTP/1.1''\<rparr>)"

theorem request_round_trip_witness:
  "request_consume (request_raw sample_request @ ''more'') make_request =
     Value (sample_request\<lparr>m_ready := True\<rparr>, 27)"
proof -
  have "request_ok sample_request" "length (request_raw sample_request) = 27"
    "sample_request\<lparr>m_body := [], m_buf := [], m_ready := True\<rparr> = sample_request\<lparr>m_ready := True\<rparr>" "m_body sample_request = []"
    by code_simp+
  then show ?thesis using request_round_trip [of sample_request "''more''"] by (simp add: max_header_size_def)
qed

theorem request_consume_split_witness:
  "request_consume (''GET / HT'' @ ''TP/1.1'') make_request =
     and_then (request_consume ''GET / HT'' make_request) (\<lambda>(r1, n).
       if m_ready r1 then Value (r1, n)
       else and_then (request_consume ''TP/1.1'' r1) (\<lambda>(r2, m). Value (r2, n + m)))"
  by (rule request_consume_split) (simp_all add: make_request_def max_header_size_def)

subsection \<open>A header value without defined behaviour\<close>

lemma split_line_feed_return:
  "line_text l \<Longrightarrow> split_line (l @ CHR 0x0A # CHR 0x0D # header_delimiter @ rest) = Some (l @ [CHR 0x0A, CHR 0x0D], rest)"
proof (induction l)
  case (Cons c l)
  then show ?case by (cases l) simp_all
qed (simp add: header_delimiter_def)

text \<open>
  A header whose value is a blank, a line feed and a carriage return has no defined behaviour: stripping it from
  the end passes the place where stripping from the front stopped, and a string is made from a range
  that ends before it begins. A client can send such a header line to any server.
\<close>

theorem header_value_undefined:
  assumes "\<not> m_ready r" "m_buf r = []" "m_method r \<noteq> []" "list_all is_token_char name" "length name + length rest < 15000"
  shows "request_consume (name @ '':'' @ [CHR '' '', CHR 0x0A, CHR 0x0D] @ header_delimiter @ rest) r = Bad_range"
proof -
  let ?l = "name @ '': ''"
  have "line_text ?l" using token_line [OF assms(4)] by simp
  from split_line_feed_return [OF this, of rest]
  have "split_line (name @ '':'' @ [CHR '' '', CHR 0x0A, CHR 0x0D] @ header_delimiter @ rest) =
      Some (name @ header_separator # [CHR '' '', CHR 0x0A, CHR 0x0D], rest)"
    by (simp add: header_separator_def)
  moreover have "process_header (name @ header_separator # [CHR '' '', CHR 0x0A, CHR 0x0D]) r = Bad_range"
  proof -
    have "header_separator \<notin> set name" using assms(4) token_plain by (auto simp: list_all_iff)
    moreover have "strip_lws [CHR '' '', CHR 0x0A, CHR 0x0D] = Bad_range" by code_simp
    ultimately show ?thesis by (simp add: process_header_def split_at_first strip_token [OF assms(4)])
  qed
  ultimately show ?thesis
    using assms by (simp add: request_consume_def request_lines.simps [of _ _ r] max_header_size_def header_delimiter_def)
qed

theorem header_value_undefined_witness:
  "request_consume (''Host'' @ '':'' @ [CHR '' '', CHR 0x0A, CHR 0x0D] @ header_delimiter @ [])
     (make_request\<lparr>m_method := ''GET''\<rparr>) = Bad_range"
proof (rule header_value_undefined)
  show "list_all is_token_char ''Host''" by code_simp
qed (simp_all add: make_request_def)

subsection \<open>Reading a response from a stream\<close>

text \<open>
  \<^verbatim>\<open>consume\<close> on a stream: lines are fetched into a buffer of 512 octets, with the line feed put back. A line
  that does not fit the buffer, or the end of the stream, ends the loop behind the octets fetched.
\<close>

function consume_stream :: "string \<Rightarrow> response \<Rightarrow> nat \<Rightarrow> (response \<times> nat) http_result" where
  "consume_stream s r sofar =
     (let line = takeWhile (\<lambda>c. c \<noteq> CHR 0x0A) s in
      if length line < istream_buffer \<and> length line < length s
      then and_then (response_consume (line @ [CHR 0x0A]) r) (\<lambda>(r, n).
             if n \<noteq> length line + 1 then Value (r, sofar + n)
             else consume_stream (drop (length line + 1) s) r (sofar + n))
      else let octets = take (istream_buffer - 1) line in
        and_then (response_consume octets r) (\<lambda>(r, n). Value (r, sofar + n)))"
  by pat_completeness auto
termination
  by (relation "measure (\<lambda>(s, r, sofar). length s)") auto

definition response_consume_stream :: "string \<Rightarrow> response \<Rightarrow> (response \<times> nat) http_result" where
  "response_consume_stream s r = consume_stream s r 0"

end
