(* ===== verification/Sha1.thy ===== *)
theory Sha1
  imports Prelude
begin

text \<open>
  SHA-1 as the library computes it for the handshake key (\<^verbatim>\<open>sha1/sha1.hpp\<close>): the rounds over one buffer of
  80 words that is reused from block to block, the last blocks built in place. The reference is the
  standard's definition: padding, message schedule, 80 steps. \<^verbatim>\<open>unsigned int\<close> has 32 bits.
\<close>

subsection \<open>The code\<close>

definition rol :: "u32 \<Rightarrow> nat \<Rightarrow> u32" where
  "rol v steps = push_bit steps v OR drop_bit (32 - steps) v"

type_synonym hash_state = "u32 \<times> u32 \<times> u32 \<times> u32 \<times> u32"

definition clear_w_buffert :: "u32 list \<Rightarrow> u32 list" where
  "clear_w_buffert w = replicate 16 0 @ drop 16 w"

text \<open>\<^verbatim>\<open>sha1macro\<close> with the function and the constant of a round.\<close>

definition sha1_macro :: "(u32 \<Rightarrow> u32 \<Rightarrow> u32 \<Rightarrow> u32) \<Rightarrow> u32 \<Rightarrow> u32 \<Rightarrow> hash_state \<Rightarrow> hash_state" where
  "sha1_macro func val wr s =
     (case s of (a, b, c, d, e) \<Rightarrow> (rol a 5 + func b c d + e + val + wr, a, rol b 30, c, d))"

definition ch :: "u32 \<Rightarrow> u32 \<Rightarrow> u32 \<Rightarrow> u32" where "ch b c d = (b AND c) OR (NOT b AND d)"
definition parity :: "u32 \<Rightarrow> u32 \<Rightarrow> u32 \<Rightarrow> u32" where "parity b c d = b XOR c XOR d"
definition maj :: "u32 \<Rightarrow> u32 \<Rightarrow> u32 \<Rightarrow> u32" where "maj b c d = (b AND c) OR (b AND d) OR (c AND d)"

definition first_rounds :: "u32 list \<Rightarrow> hash_state \<Rightarrow> hash_state" where
  "first_rounds w s = foldl (\<lambda>s t. sha1_macro ch 0x5a827999 (w ! t) s) s [0..<16]"

definition expand :: "u32 list \<Rightarrow> nat \<Rightarrow> u32 list" where
  "expand w t = w[t := rol (w ! (t - 3) XOR w ! (t - 8) XOR w ! (t - 14) XOR w ! (t - 16)) 1]"

definition later_rounds ::
  "(u32 \<Rightarrow> u32 \<Rightarrow> u32 \<Rightarrow> u32) \<Rightarrow> u32 \<Rightarrow> nat \<Rightarrow> nat \<Rightarrow> u32 list \<times> hash_state \<Rightarrow> u32 list \<times> hash_state" where
  "later_rounds func val lo hi =
     (\<lambda>ws. foldl (\<lambda>(w, s) t. let w' = expand w t in (w', sha1_macro func val (w' ! t) s)) ws [lo..<hi])"

fun add_state :: "hash_state \<Rightarrow> hash_state \<Rightarrow> hash_state" where
  "add_state (a, b, c, d, e) (a', b', c', d', e') = (a + a', b + b', c + c', d + d', e + e')"

definition inner_hash :: "hash_state \<times> u32 list \<Rightarrow> hash_state \<times> u32 list" where
  "inner_hash = (\<lambda>(result, w).
     let (w', s) = later_rounds parity 0xca62c1d6 60 80
           (later_rounds maj 0x8f1bbcdc 40 60
           (later_rounds parity 0x6ed9eba1 20 40
           (later_rounds ch 0x5a827999 16 20 (w, first_rounds w result))))
     in (add_state result s, w'))"

definition be_word :: "u8 \<Rightarrow> u8 \<Rightarrow> u8 \<Rightarrow> u8 \<Rightarrow> u32" where
  "be_word p q r s = ucast s OR push_bit 8 (ucast r) OR push_bit 16 (ucast q) OR push_bit 24 (ucast p)"

text \<open>The first 16 words of the buffer from 64 octets.\<close>

definition load_block :: "bytes \<Rightarrow> u32 list \<Rightarrow> u32 list" where
  "load_block bs w =
     foldl (\<lambda>w i. w[i := be_word (bs ! (4 * i)) (bs ! (4 * i + 1)) (bs ! (4 * i + 2)) (bs ! (4 * i + 3))]) w [0..<16]"

function full_blocks :: "bytes \<Rightarrow> hash_state \<times> u32 list \<Rightarrow> bytes \<times> hash_state \<times> u32 list" where
  "full_blocks bs rw =
     (if 64 \<le> length bs then full_blocks (drop 64 bs) (inner_hash (fst rw, load_block (take 64 bs) (snd rw)))
      else (bs, rw))"
  by pat_completeness auto
termination by (relation "measure (\<lambda>(bs, rw). length bs)") auto

declare full_blocks.simps [simp del]

definition or_byte :: "u32 list \<Rightarrow> nat \<Rightarrow> u8 \<Rightarrow> u32 list" where
  "or_byte w i b = w[i div 4 := w ! (i div 4) OR push_bit (8 * (3 - i mod 4)) (ucast b)]"

definition last_block :: "bytes \<Rightarrow> u32 list \<Rightarrow> u32 list" where
  "last_block bs w =
     or_byte (foldl (\<lambda>w i. or_byte w i (bs ! i)) (clear_w_buffert w) [0..<length bs]) (length bs) 0x80"

definition state_bytes :: "hash_state \<Rightarrow> bytes" where
  "state_bytes = (\<lambda>(a, b, c, d, e).
     List.map (\<lambda>i. ucast (drop_bit (8 * (3 - i mod 4)) ([a, b, c, d, e] ! (i div 4)))) [0..<20])"

definition initial_state :: hash_state where
  "initial_state = (0x67452301, 0xefcdab89, 0x98badcfe, 0x10325476, 0xc3d2e1f0)"

text \<open>
  \<^verbatim>\<open>calc\<close> with what is in the buffer when it starts. The length is an \<^verbatim>\<open>int\<close>, shifted by three places into
  the last word.
\<close>

definition calc :: "u32 list \<Rightarrow> bytes \<Rightarrow> bytes" where
  "calc w0 bs =
     (let (rest, result, w) = full_blocks bs (initial_state, w0);
          w1 = last_block rest w;
          (result2, w2) = (if 56 \<le> length rest
            then let (r, w') = inner_hash (result, w1) in (r, clear_w_buffert w') else (result, w1));
          w3 = w2[15 := push_bit 3 (of_nat (length bs))]
      in state_bytes (fst (inner_hash (result2, w3))))"


subsection \<open>The standard\<close>

fun schedule :: "u32 list \<Rightarrow> nat \<Rightarrow> u32" where
  "schedule m t =
     (if t < 16 then m ! t
      else word_rotl 1 (schedule m (t - 3) XOR schedule m (t - 8) XOR schedule m (t - 14) XOR schedule m (t - 16)))"

declare schedule.simps [simp del]

definition round_function :: "nat \<Rightarrow> u32 \<Rightarrow> u32 \<Rightarrow> u32 \<Rightarrow> u32" where
  "round_function t = (if t < 20 then ch else if t < 40 then parity else if t < 60 then maj else parity)"

definition round_constant :: "nat \<Rightarrow> u32" where
  "round_constant t =
     (if t < 20 then 0x5a827999 else if t < 40 then 0x6ed9eba1 else if t < 60 then 0x8f1bbcdc else 0xca62c1d6)"

definition words_of :: "bytes \<Rightarrow> u32 list" where
  "words_of bs =
     List.map (\<lambda>i. be_word (bs ! (4 * i)) (bs ! (4 * i + 1)) (bs ! (4 * i + 2)) (bs ! (4 * i + 3))) [0..<16]"

text \<open>One step of the standard.\<close>

definition sha1_step :: "nat \<Rightarrow> u32 \<Rightarrow> hash_state \<Rightarrow> hash_state" where
  "sha1_step t wt = (\<lambda>(a, b, c, d, e).
     (word_rotl 5 a + round_function t b c d + e + round_constant t + wt, a, word_rotl 30 b, c, d))"

definition rounds :: "u32 list \<Rightarrow> nat \<Rightarrow> nat \<Rightarrow> hash_state \<Rightarrow> hash_state" where
  "rounds m lo hi s =
     foldl (\<lambda>s t. sha1_step t (schedule m t) s) s [lo..<hi]"

definition compress :: "hash_state \<Rightarrow> bytes \<Rightarrow> hash_state" where
  "compress s block = add_state s (rounds (words_of block) 0 80 s)"

definition pad :: "bytes \<Rightarrow> bytes" where
  "pad bs = bs @ [0x80] @ replicate ((119 - length bs mod 64) mod 64) 0 @ rev (le_bytes 8 (of_nat (8 * length bs) :: u64))"

fun blocks :: "bytes \<Rightarrow> bytes list" where
  "blocks bs = (if bs = [] then [] else take 64 bs # blocks (drop 64 bs))"

declare blocks.simps [simp del]

definition sha1 :: "bytes \<Rightarrow> bytes" where
  "sha1 bs = state_bytes (foldl compress initial_state (blocks (pad bs)))"

subsection \<open>The rounds\<close>

lemma rol_rotl: "n < 32 \<Longrightarrow> rol v n = word_rotl n v"
  by (simp add: rol_def rotate_left_word_rotl)

lemma sha1_step_macro: "sha1_step t wt = sha1_macro (round_function t) (round_constant t) wt"
  by (simp add: sha1_step_def sha1_macro_def rol_rotl fun_eq_iff)

definition expanded :: "u32 list \<Rightarrow> nat \<Rightarrow> u32 list \<Rightarrow> bool" where
  "expanded m t w \<longleftrightarrow> length w = 80 \<and> (\<forall>i < t. w ! i = schedule m i)"

lemma expanded_step:
  assumes "expanded m t w" "16 \<le> t" "t < 80"
  shows "expanded m (Suc t) (expand w t)"
proof -
  have "schedule m t = rol (w ! (t - 3) XOR w ! (t - 8) XOR w ! (t - 14) XOR w ! (t - 16)) 1"
    using assms by (simp add: expanded_def schedule.simps [of m t] rol_rotl)
  then show ?thesis using assms by (auto simp: expanded_def expand_def less_Suc_eq nth_list_update)
qed

lemma rounds_Suc: "lo \<le> hi \<Longrightarrow> rounds m lo (Suc hi) s =
    sha1_macro (round_function hi) (round_constant hi) (schedule m hi) (rounds m lo hi s)"
  by (simp add: rounds_def sha1_step_macro)

lemma rounds_join: "lo \<le> mid \<Longrightarrow> mid \<le> hi \<Longrightarrow> rounds m mid hi (rounds m lo mid s) = rounds m lo hi s"
proof -
  assume le: "lo \<le> mid" "mid \<le> hi"
  then have "[lo..<hi] = [lo..<mid] @ [mid..<hi]" using upt_add_eq_append [of lo mid "hi - mid"] by simp
  then show ?thesis by (simp add: rounds_def)
qed

lemma later_rounds_expanded:
  assumes "expanded m lo w" "16 \<le> lo" "lo \<le> hi" "hi \<le> 80"
    and "\<And>t. lo \<le> t \<Longrightarrow> t < hi \<Longrightarrow> round_function t = func \<and> round_constant t = val"
  shows "\<exists>w'. later_rounds func val lo hi (w, s) = (w', rounds m lo hi s) \<and> expanded m hi w'"
  using assms(3-5)
proof (induction hi rule: dec_induct)
  case base
  then show ?case using assms(1) by (simp add: later_rounds_def rounds_def)
next
  case (step hi)
  then obtain w' where w': "later_rounds func val lo hi (w, s) = (w', rounds m lo hi s)" "expanded m hi w'"
    by auto
  have e: "expanded m (Suc hi) (expand w' hi)" using w'(2) assms(2) step by (intro expanded_step) auto
  have "later_rounds func val lo (Suc hi) (w, s) =
      (expand w' hi, sha1_macro func val (expand w' hi ! hi) (rounds m lo hi s))"
    using step w'(1) by (simp add: later_rounds_def Let_def)
  moreover have "expand w' hi ! hi = schedule m hi" using e by (simp add: expanded_def)
  moreover have "round_function hi = func" "round_constant hi = val" using step by simp_all
  ultimately show ?case using e step by (simp add: rounds_Suc)
qed

lemma first_rounds_eq:
  assumes "take 16 w = m" "length w = 80"
  shows "first_rounds w s = rounds m 0 16 s"
  unfolding first_rounds_def rounds_def
proof (rule foldl_cong)
  fix t s assume "t \<in> set [0..<16]"
  moreover from this assms have "w ! t = m ! t" by auto
  ultimately show "sha1_macro ch 0x5a827999 (w ! t) s =
      sha1_step t (schedule m t) s"
    by (simp add: sha1_step_macro round_function_def round_constant_def schedule.simps [of m t])
qed simp_all

lemma inner_hash_compress:
  assumes "take 16 w = words_of block" "length w = 80"
  shows "\<exists>w'. inner_hash (s, w) = (compress s block, w') \<and> length w' = 80"
proof -
  define m where "m = words_of block"
  have "\<forall>i < 16. w ! i = m ! i" using assms by (metis m_def nth_take)
  then have "expanded m 16 w" using assms(2) by (simp add: expanded_def schedule.simps [of m])
  from later_rounds_expanded [OF this, where hi = 20 and func = ch and val = "0x5a827999" and s = "first_rounds w s"]
  obtain w1 where w1: "later_rounds ch 0x5a827999 16 20 (w, first_rounds w s) = (w1, rounds m 16 20 (first_rounds w s))"
    "expanded m 20 w1" by (auto simp: round_function_def round_constant_def)
  from later_rounds_expanded [OF w1(2), where hi = 40 and func = parity and val = "0x6ed9eba1" and s = "rounds m 0 20 s"]
  obtain w2 where w2: "later_rounds parity 0x6ed9eba1 20 40 (w1, rounds m 0 20 s) = (w2, rounds m 20 40 (rounds m 0 20 s))"
    "expanded m 40 w2" by (auto simp: round_function_def round_constant_def)
  from later_rounds_expanded [OF w2(2), where hi = 60 and func = maj and val = "0x8f1bbcdc" and s = "rounds m 0 40 s"]
  obtain w3 where w3: "later_rounds maj 0x8f1bbcdc 40 60 (w2, rounds m 0 40 s) = (w3, rounds m 40 60 (rounds m 0 40 s))"
    "expanded m 60 w3" by (auto simp: round_function_def round_constant_def)
  from later_rounds_expanded [OF w3(2), where hi = 80 and func = parity and val = "0xca62c1d6" and s = "rounds m 0 60 s"]
  obtain w4 where w4: "later_rounds parity 0xca62c1d6 60 80 (w3, rounds m 0 60 s) = (w4, rounds m 60 80 (rounds m 0 60 s))"
    "expanded m 80 w4" by (auto simp: round_function_def round_constant_def)
  have f: "first_rounds w s = rounds m 0 16 s" using assms by (intro first_rounds_eq) (simp_all add: m_def)
  show ?thesis
    using w1 w2 w3 w4 by (simp add: inner_hash_def f rounds_join compress_def m_def expanded_def)
qed


subsection \<open>The blocks\<close>

lemma length_words_of [simp]: "length (words_of bs) = 16"
  by (simp add: words_of_def)

lemma load_block_words:
  assumes "length w = 80"
  shows "take 16 (load_block bs w) = words_of bs \<and> length (load_block bs w) = 80"
proof -
  let ?g = "\<lambda>i. be_word (bs ! (4 * i)) (bs ! (4 * i + 1)) (bs ! (4 * i + 2)) (bs ! (4 * i + 3))"
  have "foldl (\<lambda>w i. w[i := ?g i]) w [0..<n] = List.map ?g [0..<n] @ drop n w" if "n \<le> 80" for n
    using that
  proof (induction n)
    case (Suc n)
    have "drop n w = w ! n # drop (Suc n) w" using Suc.prems assms by (simp add: Cons_nth_drop_Suc)
    with Suc show ?case by (simp add: list_update_append)
  qed simp
  from this [of 16] assms show ?thesis by (simp add: load_block_def words_of_def)
qed

lemma full_blocks_compress:
  "length (snd rw) = 80 \<Longrightarrow> \<exists>w'. full_blocks bs rw = (drop (64 * (length bs div 64)) bs,
     foldl compress (fst rw) (blocks (take (64 * (length bs div 64)) bs)), w') \<and> length w' = 80"
proof (induction bs rw rule: full_blocks.induct)
  case (1 bs rw)
  show ?case
  proof (cases "64 \<le> length bs")
    case True
    define k where "k = (length bs - 64) div 64"
    have k: "length bs div 64 = Suc k" using True by (simp add: k_def le_div_geq)
    obtain w' where w': "inner_hash (fst rw, load_block (take 64 bs) (snd rw)) = (compress (fst rw) (take 64 bs), w')"
      "length w' = 80" using inner_hash_compress load_block_words [OF "1.prems"] by blast
    have "take (64 * Suc k) bs \<noteq> []" using True by auto
    then have "blocks (take (64 * Suc k) bs) = take 64 bs # blocks (take (64 * k) (drop 64 bs))"
      using blocks.simps [of "take (64 * Suc k) bs"] by (simp add: drop_take)
    moreover have "drop (64 * k) (drop 64 bs) = drop (64 * Suc k) bs" by (simp add: add.commute)
    ultimately show ?thesis
      using "1.IH" [OF True] w' True by (simp add: full_blocks.simps [of bs rw] k flip: k_def)
  next
    case False
    then have "full_blocks bs rw = (bs, fst rw, snd rw)" by (simp add: full_blocks.simps [of bs rw])
    then show ?thesis using False "1.prems" by (auto simp: blocks.simps [of "[]"] prod_eq_iff)
  qed
qed

lemma be_word_or:
  "be_word b q r s = be_word 0 q r s OR push_bit 24 (ucast b)"
  "be_word p b r s = be_word p 0 r s OR push_bit 16 (ucast b)"
  "be_word p q b s = be_word p q 0 s OR push_bit 8 (ucast b)"
  "be_word p q r b = be_word p q r 0 OR ucast b"
  by (simp_all add: be_word_def ac_simps)

lemma words_of_update:
  assumes "length bs = 64" "i < 64" "bs ! i = 0"
  shows "words_of (bs[i := b]) = (words_of bs)[i div 4 := words_of bs ! (i div 4) OR push_bit (8 * (3 - i mod 4)) (ucast b)]"
proof (rule nth_equalityI)
  fix j assume "j < length (words_of (bs[i := b]))"
  then have j: "j < 16" by simp
  define k where "k = i div 4"
  have i: "i \<in> {4 * k, 4 * k + 1, 4 * k + 2, 4 * k + 3}" by (auto simp: k_def)
  show "words_of (bs[i := b]) ! j =
      (words_of bs)[i div 4 := words_of bs ! (i div 4) OR push_bit (8 * (3 - i mod 4)) (ucast b)] ! j"
  proof (cases "j = k")
    case True
    have w: "words_of xs ! k = be_word (xs ! (4 * k)) (xs ! (4 * k + 1)) (xs ! (4 * k + 2)) (xs ! (4 * k + 3))" for xs
      using j True by (simp add: words_of_def)
    have l: "(words_of bs)[k := x] ! k = x" for x using j True by simp
    have r: "i = 4 * k + i mod 4" "i mod 4 < 4" by (simp_all add: k_def)
    then consider "i mod 4 = 0" "i = 4 * k" | "i mod 4 = 1" "i = 4 * k + 1" | "i mod 4 = 2" "i = 4 * k + 2"
      | "i mod 4 = 3" "i = 4 * k + 3" by fastforce
    then show ?thesis
      unfolding True k_def [symmetric] w l
      using assms j True
      by cases (simp_all add: be_word_or(1) [of b] be_word_or(2) [of _ b] be_word_or(3) [of _ _ b] be_word_or(4) [of _ _ _ b])
  next
    case False
    then have "4 * j + r \<noteq> i" if "r < 4" for r using i that by auto
    from this [of 0] this [of 1] this [of 2] this [of 3] show ?thesis
      using False j assms by (simp add: words_of_def k_def)
  qed
qed simp

definition block_of :: "bytes \<Rightarrow> bytes" where
  "block_of bs = bs @ replicate (64 - length bs) 0"

lemma or_byte_block:
  assumes "take 16 w = words_of (block_of bs)" "length w = 80" "length bs < 64"
  shows "take 16 (or_byte w (length bs) b) = words_of (block_of (bs @ [b])) \<and> length (or_byte w (length bs) b) = 80"
proof -
  have "block_of (bs @ [b]) = (block_of bs)[length bs := b]"
  proof -
    have "64 - length bs = Suc (63 - length bs)" using assms(3) by simp
    then show ?thesis by (simp add: block_of_def list_update_append)
  qed
  moreover have "block_of bs ! length bs = 0" "length (block_of bs) = 64"
    using assms(3) by (simp_all add: block_of_def nth_append)
  moreover have "w ! (length bs div 4) = words_of (block_of bs) ! (length bs div 4)"
    using assms by (simp flip: assms(1))
  ultimately show ?thesis
    using assms by (simp add: or_byte_def words_of_update take_update_swap)
qed

lemma last_block_words:
  assumes "length w = 80" "length bs < 64"
  shows "take 16 (last_block bs w) = words_of (block_of (bs @ [0x80])) \<and> length (last_block bs w) = 80"
proof -
  have z: "take 16 (clear_w_buffert w) = words_of (block_of [])" "length (clear_w_buffert w) = 80"
    using assms(1) by (simp_all add: clear_w_buffert_def words_of_def block_of_def be_word_def numeral_eq_Suc)
  have "take 16 (foldl (\<lambda>w i. or_byte w i (bs ! i)) (clear_w_buffert w) [0..<n]) = words_of (block_of (take n bs)) \<and>
      length (foldl (\<lambda>w i. or_byte w i (bs ! i)) (clear_w_buffert w) [0..<n]) = 80" if "n \<le> length bs" for n
    using that
  proof (induction n)
    case (Suc n)
    then show ?case
      using or_byte_block [of "foldl (\<lambda>w i. or_byte w i (bs ! i)) (clear_w_buffert w) [0..<n]" "take n bs" "bs ! n"]
        assms(2) by (simp add: take_Suc_conv_app_nth)
  qed (use z in simp)
  from this [of "length bs"] show ?thesis
    unfolding last_block_def using or_byte_block [of _ bs "0x80"] assms(2) by simp
qed


subsection \<open>The whole\<close>

lemma blocks_append: "length a mod 64 = 0 \<Longrightarrow> blocks (a @ b) = blocks a @ blocks b"
proof (induction a rule: blocks.induct)
  case (1 a)
  show ?case
  proof (cases "a = []")
    case False
    with 1 have "64 \<le> length a" by (metis length_0_conv mod_less not_le)
    moreover from this 1 have "blocks (drop 64 a @ b) = blocks (drop 64 a) @ blocks b"
      using False by (intro "1.IH") (simp_all add: le_mod_geq flip: length_drop)
    ultimately show ?thesis using False blocks.simps [of "a @ b"] blocks.simps [of a] by simp
  qed (simp add: blocks.simps [of "[]"])
qed

lemma blocks_one: "length a = 64 \<Longrightarrow> blocks a = [a]"
  using blocks.simps [of a] blocks.simps [of "[]"] by (cases a) simp_all

definition size_tail :: "nat \<Rightarrow> bytes" where
  "size_tail n = rev (le_bytes 8 (of_nat (8 * n) :: u64))"

lemma size_words:
  assumes "length xs = 56" "n < 2 ^ 29"
  shows "words_of (xs @ size_tail n) = (words_of (xs @ replicate 8 0))[15 := push_bit 3 (of_nat n)]"
proof (rule nth_equalityI)
  fix j assume "j < length (words_of (xs @ size_tail n))"
  then have j: "j < 16" by simp
  define v where "v = (of_nat (8 * n) :: u64)"
  have byte: "(xs @ size_tail n) ! (56 + i) = ucast (drop_bit (8 * (7 - i)) v)" if "i < 8" for i
    using that assms(1) by (simp add: nth_append size_tail_def rev_nth v_def)
  have un: "unat v = 8 * n" unfolding v_def by (rule unat_of_nat_small) (use assms(2) in simp)
  have high: "\<not> bit v i" if "32 \<le> i" for i
  proof -
    have "unat v < 2 ^ 32" using un assms(2) by simp
    then have "take_bit 32 v = v" by (simp add: unsigned_take_bit_eq word_unat_eq_iff take_bit_nat_eq_self)
    then show ?thesis using that by (metis bit_take_bit_iff not_less)
  qed
  show "words_of (xs @ size_tail n) ! j = (words_of (xs @ replicate 8 0))[15 := push_bit 3 (of_nat n)] ! j"
  proof -
    consider "j < 14" | "j = 14" | "j = 15" using j by linarith
    then show ?thesis
    proof cases
      case 1
      then show ?thesis using assms(1) by (simp add: words_of_def nth_append)
    next
      case 2
      have z: "(ucast (drop_bit k v) :: u8) = 0" if "32 \<le> k" for k
        using high that by (auto intro!: bit_word_eqI simp: bit_simps)
      show ?thesis
        using byte [of 0] byte [of 1] byte [of 2] byte [of 3] assms(1) 2
        by (simp add: words_of_def z nth_append)
    next
      case 3
      have "be_word (ucast (drop_bit 24 v)) (ucast (drop_bit 16 v)) (ucast (drop_bit 8 v)) (ucast v) = ucast v"
      proof (rule bit_word_eqI)
        fix i assume "i < LENGTH(32)"
        then consider "i < 8" | "8 \<le> i" "i < 16" | "16 \<le> i" "i < 24" | "24 \<le> i" "i < 32" by fastforce
        then show "bit (be_word (ucast (drop_bit 24 v)) (ucast (drop_bit 16 v)) (ucast (drop_bit 8 v)) (ucast v)) i =
            bit (ucast v :: u32) i"
          by cases (auto simp: be_word_def bit_simps)
      qed
      also have "(ucast v :: u32) = of_nat (8 * n)"
        unfolding v_def by (rule bit_word_eqI) (auto simp: bit_simps simp del: of_nat_mult)
      also have "(of_nat (8 * n) :: u32) = push_bit 3 (of_nat n)" by (simp add: push_bit_eq_mult)
      finally show ?thesis
        using byte [of 4] byte [of 5] byte [of 6] byte [of 7] assms(1) 3 by (simp add: words_of_def)
    qed
  qed
qed simp


lemma calc_sha1:
  assumes "length w0 = 80" "length bs < 2 ^ 29"
  shows "calc w0 bs = sha1 bs"
proof -
  define q where "q = 64 * (length bs div 64)"
  define rest where "rest = drop q bs"
  define st where "st = foldl compress initial_state (blocks (take q bs))"
  have r: "length rest = length bs mod 64" "length rest < 64" by (simp_all add: rest_def q_def minus_mult_div_eq_mod)
  have q: "length (take q bs) mod 64 = 0" "bs = take q bs @ rest"
    by (simp_all add: q_def rest_def)
  obtain w where w: "full_blocks bs (initial_state, w0) = (rest, st, w)" "length w = 80"
    using full_blocks_compress [of "(initial_state, w0)" bs] assms(1) by (auto simp: rest_def q_def st_def)
  define w1 where "w1 = last_block rest w"
  have w1: "take 16 w1 = words_of (block_of (rest @ [0x80]))" "length w1 = 80"
    using last_block_words [OF w(2) r(2)] by (simp_all add: w1_def)
  define tail where "tail = rest @ [0x80] @ replicate ((119 - length rest) mod 64) 0 @ size_tail (length bs)"
  have "pad bs = take q bs @ tail"
    unfolding tail_def r(1) using q(2) by (simp add: pad_def size_tail_def)
  then have sha: "sha1 bs = state_bytes (foldl compress st (blocks tail))"
    by (simp add: sha1_def blocks_append [OF q(1)] st_def)
  have fin: "fst (inner_hash (s, w2[15 := push_bit 3 (of_nat (length bs))])) = compress s (xs @ size_tail (length bs))"
    if "take 16 w2 = words_of (xs @ replicate 8 0)" "length w2 = 80" "length xs = 56" for s w2 xs
  proof -
    have "take 16 (w2[15 := push_bit 3 (of_nat (length bs))]) = words_of (xs @ size_tail (length bs))"
      using that size_words [OF that(3) assms(2)] by (simp add: take_update_swap)
    from inner_hash_compress [OF this, of s] that(2) show ?thesis by auto
  qed
  show ?thesis
  proof (cases "56 \<le> length rest")
    case True
    define xs :: bytes where "xs = replicate 56 0"
    obtain w' where w': "inner_hash (st, w1) = (compress st (block_of (rest @ [0x80])), w')" "length w' = 80"
      using inner_hash_compress [OF w1] by blast
    have "take 16 (clear_w_buffert w') = words_of (xs @ replicate 8 0)" "length (clear_w_buffert w') = 80"
      using w'(2) by (simp_all add: clear_w_buffert_def words_of_def xs_def be_word_def numeral_eq_Suc)
    from fin [OF this] have f: "fst (inner_hash (compress st (block_of (rest @ [0x80])),
        (clear_w_buffert w')[15 := push_bit 3 (of_nat (length bs))])) =
        compress (compress st (block_of (rest @ [0x80]))) (xs @ size_tail (length bs))" by (simp add: xs_def)
    have "(119 - length rest) mod 64 = (63 - length rest) + 56" using True r(2) by simp
    then have "replicate ((119 - length rest) mod 64) (0 :: u8) = replicate (63 - length rest) 0 @ xs"
      by (simp only: replicate_add xs_def)
    then have "tail = block_of (rest @ [0x80]) @ xs @ size_tail (length bs)"
      by (simp add: tail_def block_of_def)
    moreover have "length (block_of (rest @ [0x80])) = 64" "length (xs @ size_tail (length bs)) = 64"
      using r(2) by (simp_all add: block_of_def xs_def size_tail_def)
    ultimately have "blocks tail = [block_of (rest @ [0x80]), xs @ size_tail (length bs)]"
      by (simp add: blocks_append blocks_one)
    then show ?thesis using True w w' f sha by (simp add: calc_def w1_def [symmetric])
  next
    case False
    define xs where "xs = rest @ [0x80] @ replicate (55 - length rest) 0"
    have "64 - length (rest @ [0x80 :: u8]) = (55 - length rest) + 8" using False by simp
    then have "replicate (64 - length (rest @ [0x80 :: u8])) (0 :: u8) = replicate (55 - length rest) 0 @ replicate 8 0"
      by (simp only: replicate_add)
    then have x: "length xs = 56" "block_of (rest @ [0x80]) = xs @ replicate 8 0"
      using False by (simp_all add: xs_def block_of_def del: replicate_0 replicate_Suc)
    have f: "fst (inner_hash (st, w1[15 := push_bit 3 (of_nat (length bs))])) = compress st (xs @ size_tail (length bs))"
      using w1 unfolding x(2) by (rule fin) (rule x(1))
    have "119 - length rest = (55 - length rest) + 64" using False by linarith
    then have "(119 - length rest) mod 64 = 55 - length rest" by (simp only: mod_add_self2) (rule mod_less, simp)
    then have "blocks tail = [xs @ size_tail (length bs)]"
      using x(1) by (simp add: tail_def xs_def blocks_one size_tail_def)
    then show ?thesis using False w f sha by (simp add: calc_def w1_def [symmetric])
  qed
qed



end
