(* ===== verification/Handshake.thy ===== *)
theory Handshake
  imports Http_Message Sha1 Base64 Uri Close_Status
begin

text \<open>
  The opening handshake of the current protocol version (\<^verbatim>\<open>processors/processor.hpp\<close> and the handshake part
  of \<^verbatim>\<open>processors/hybi13.hpp\<close>): what makes a request a handshake, the client's request, the server's
  answer and the client's test of it. The random numbers of the client and the extension object are
  arguments; header texts are strings of octets.
\<close>

subsection \<open>Searching\<close>

text \<open>\<^verbatim>\<open>std::search\<close> with \<^verbatim>\<open>my_equal\<close>: the text from the first match on, empty at the end.\<close>

fun ci_prefix :: "string \<Rightarrow> string \<Rightarrow> bool" where
  "ci_prefix [] s = True"
| "ci_prefix (c # cs) [] = False"
| "ci_prefix (c # cs) (d # ds) = (toupper d = toupper c \<and> ci_prefix cs ds)"

fun ci_find_substr :: "string \<Rightarrow> string \<Rightarrow> string" where
  "ci_find_substr [] needle = []"
| "ci_find_substr (c # cs) needle = (if ci_prefix needle (c # cs) then c # cs else ci_find_substr cs needle)"

definition upgrade_token :: string where "upgrade_token = ''websocket''"
definition connection_token :: string where "connection_token = ''upgrade''"
definition handshake_guid :: string where "handshake_guid = ''258EAFA5-E914-47DA-95CA-C5AB0DC85B11''"

definition is_websocket_handshake :: "'a http_parser_scheme \<Rightarrow> bool" where
  "is_websocket_handshake r \<longleftrightarrow>
     ci_find_substr (get_header ''Upgrade'' r) upgrade_token \<noteq> [] \<and>
     ci_find_substr (get_header ''Connection'' r) connection_token \<noteq> []"

definition get_websocket_version :: "'a http_parser_scheme \<Rightarrow> int" where
  "get_websocket_version r =
     (let v = get_header ''Sec-WebSocket-Version'' r in
      if v = [] then 0 else case extract_int v of None \<Rightarrow> - 1 | Some n \<Rightarrow> n)"

text \<open>\<^verbatim>\<open>rfind\<close> of one character: its last position.\<close>

definition rfind :: "char \<Rightarrow> string \<Rightarrow> nat option" where
  "rfind c s = (if c \<in> set s then Some (length s - 1 - length (takeWhile (\<lambda>d. d \<noteq> c) (rev s))) else None)"

definition get_uri_from_host :: "request \<Rightarrow> string \<Rightarrow> uri" where
  "get_uri_from_host r scheme =
     (let h = get_header ''Host'' r in
      case rfind CHR '':'' h of
        None \<Rightarrow> uri_scheme_default scheme h (m_uri r)
      | Some colon \<Rightarrow>
          if (case rfind CHR '']'' h of None \<Rightarrow> False | Some brace \<Rightarrow> brace > colon)
          then uri_scheme_default scheme h (m_uri r)
          else uri_scheme_port_string scheme (take colon h) (drop (colon + 1) h) (m_uri r))"

subsection \<open>The key\<close>

definition octets :: "string \<Rightarrow> bytes" where "octets s = List.map of_char s"
definition octets_text :: "bytes \<Rightarrow> string" where "octets_text bs = List.map (\<lambda>b. char_of (unat b)) bs"

text \<open>The round buffer of the hash starts with what the stack holds; \<open>calc\<close> does not depend on it.\<close>

definition process_handshake_key :: "string \<Rightarrow> string" where
  "process_handshake_key key = octets_text (base64_encode (calc (replicate 80 0) (octets (key @ handshake_guid))))"

subsection \<open>The server\<close>

text \<open>
  Extensions: whether the configuration enables them, whether the extension object implements anything,
  and its \<^verbatim>\<open>negotiate\<close>, which answers with an error or a text and changes the object.
\<close>

fun negotiate_offers ::
  "(attribute_list \<Rightarrow> 'x \<Rightarrow> ('e option \<times> string) \<times> 'x) \<Rightarrow> parameter_list \<Rightarrow> 'x \<Rightarrow> string \<Rightarrow> string \<times> 'x" where
  "negotiate_offers negotiate [] x answer = (answer, x)"
| "negotiate_offers negotiate ((name, attrs) # ps) x answer =
     (if name = ''permessage-deflate''
      then case negotiate attrs x of
          ((Some e, s), x') \<Rightarrow> negotiate_offers negotiate ps x' answer
        | ((None, s), x') \<Rightarrow> negotiate_offers negotiate ps x' (answer @ s)
      else negotiate_offers negotiate ps x answer)"

definition negotiate_extensions ::
  "bool \<Rightarrow> bool \<Rightarrow> (attribute_list \<Rightarrow> 'x \<Rightarrow> ('e option \<times> string) \<times> 'x) \<Rightarrow> 'a http_parser_scheme \<Rightarrow> 'x \<Rightarrow> (ec \<times> string) \<times> 'x" where
  "negotiate_extensions enable_extensions is_implemented negotiate req x =
     (if \<not> enable_extensions then ((Some (Processor P_extensions_disabled), []), x)
      else let (failed, p) = get_header_as_plist ''Sec-WebSocket-Extensions'' [] req in
        if failed then ((Some (Processor P_extension_parse_error), []), x)
        else if p = [] then ((None, []), x)
        else if is_implemented then let (answer, x') = negotiate_offers negotiate p x [] in ((None, answer), x')
        else ((None, []), x))"

definition validate_handshake :: "request \<Rightarrow> ec" where
  "validate_handshake r =
     (if m_method r \<noteq> ''GET'' then Some (Processor P_invalid_http_method)
      else if m_version r \<noteq> ''HTTP/1.1'' then Some (Processor P_invalid_http_version)
      else if get_header ''Sec-WebSocket-Key'' r = [] then Some (Processor P_missing_required_header)
      else None)"

definition process_handshake :: "request \<Rightarrow> string \<Rightarrow> response \<Rightarrow> (ec \<times> response) http_result" where
  "process_handshake req subprotocol res =
     (let server_key = process_handshake_key (get_header ''Sec-WebSocket-Key'' req) in
      and_then (append_header ''Upgrade'' upgrade_token (replace_header ''Sec-WebSocket-Accept'' server_key res)) (\<lambda>res.
      and_then (append_header ''Connection'' connection_token res) (\<lambda>res.
      Value (None, if subprotocol \<noteq> [] then replace_header ''Sec-WebSocket-Protocol'' subprotocol res else res))))"

definition extract_subprotocols :: "'a http_parser_scheme \<Rightarrow> string list \<Rightarrow> ec \<times> string list" where
  "extract_subprotocols req names =
     (if get_header ''Sec-WebSocket-Protocol'' req \<noteq> []
      then let (failed, p) = get_header_as_plist ''Sec-WebSocket-Protocol'' [] req in
        if \<not> failed then (None, names @ List.map fst p) else (Some (Processor P_subprotocol_parse_error), names)
      else (None, names))"

definition get_origin :: "'a http_parser_scheme \<Rightarrow> string" where
  "get_origin r = get_header ''Origin'' r"

definition get_uri :: "bool \<Rightarrow> request \<Rightarrow> uri" where
  "get_uri secure r = get_uri_from_host r (if secure then ''wss'' else ''ws'')"

subsection \<open>The client\<close>

fun join_names :: "string list \<Rightarrow> string" where
  "join_names [] = []"
| "join_names [s] = s"
| "join_names (s # t # ss) = s @ '', '' @ join_names (t # ss)"

text \<open>The four random words are laid into the raw key in host order.\<close>

definition client_handshake_request ::
  "u32 list \<Rightarrow> uri \<Rightarrow> string list \<Rightarrow> request \<Rightarrow> (ec \<times> request) http_result" where
  "client_handshake_request rnd u subprotocols req =
     and_then (set_method ''GET'' req) (\<lambda>req.
     let req = set_version ''HTTP/1.1'' (set_uri (m_resource u) req) in
     and_then (append_header ''Upgrade'' ''websocket'' req) (\<lambda>req.
     and_then (append_header ''Connection'' ''Upgrade'' req) (\<lambda>req.
     let req = replace_header ''Host'' (get_host_port u) (replace_header ''Sec-WebSocket-Version'' ''13'' req);
         req = (if subprotocols \<noteq> [] then replace_header ''Sec-WebSocket-Protocol'' (join_names subprotocols) req else req);
         raw_key = concat (List.map (le_bytes 4) rnd)
     in Value (None, replace_header ''Sec-WebSocket-Key'' (octets_text (base64_encode raw_key)) req))))"

definition validate_server_handshake_response :: "request \<Rightarrow> response \<Rightarrow> ec" where
  "validate_server_handshake_response req res =
     (if m_status_code res \<noteq> status_value S_switching_protocols then Some (Processor P_invalid_http_status)
      else if ci_find_substr (get_header ''Upgrade'' res) upgrade_token = [] then Some (Processor P_missing_required_header)
      else if ci_find_substr (get_header ''Connection'' res) connection_token = []
      then Some (Processor P_missing_required_header)
      else if process_handshake_key (get_header ''Sec-WebSocket-Key'' req) \<noteq> get_header ''Sec-WebSocket-Accept'' res
      then Some (Processor P_missing_required_header)
      else None)"

subsection \<open>Header lists with the names of the handshake\<close>

lemma name_order:
  "List.map to_lower [''Connection'', ''Host'', ''Sec-WebSocket-Accept'', ''Sec-WebSocket-Key'', ''Sec-WebSocket-Protocol'',
      ''Sec-WebSocket-Version'', ''Upgrade'', ''Content-Length''] =
   [''connection'', ''host'', ''sec-websocket-accept'', ''sec-websocket-key'', ''sec-websocket-protocol'',
      ''sec-websocket-version'', ''upgrade'', ''content-length'']"
  by code_simp

lemma extension_order: "List.map to_lower [''Sec-WebSocket-Extensions'', ''User-Agent'', ''Server''] =
   [''sec-websocket-extensions'', ''user-agent'', ''server'']"
  by code_simp

lemma header_names_ok:
  "list_all (list_all is_token_char) [''Connection'', ''Host'', ''Sec-WebSocket-Accept'', ''Sec-WebSocket-Key'',
      ''Sec-WebSocket-Protocol'', ''Sec-WebSocket-Version'', ''Upgrade'', ''GET'']"
  "list_all header_value_ok [''Upgrade'', ''websocket'', ''upgrade'', ''13'']"
  by code_simp+

lemma tokens_searched:
  "ci_find_substr ''websocket'' upgrade_token \<noteq> []" "ci_find_substr ''Upgrade'' connection_token \<noteq> []"
  "ci_find_substr ''upgrade'' connection_token \<noteq> []" "extract_int ''13'' = Some 13"
  by code_simp+

definition client_headers :: "string \<Rightarrow> string \<Rightarrow> string list \<Rightarrow> header_list" where
  "client_headers host key names =
     [(''Connection'', ''Upgrade''), (''Host'', host), (''Sec-WebSocket-Key'', key)] @
     (if names = [] then [] else [(''Sec-WebSocket-Protocol'', join_names names)]) @
     [(''Sec-WebSocket-Version'', ''13''), (''Upgrade'', ''websocket'')]"

lemma append_token_name:
  assumes "k \<in> {''Upgrade'', ''Connection''}"
  shows "append_header k v p =
    Value (p\<lparr>m_headers := map_put to_lower k (if get_header k p = [] then v else get_header k p @ '', '' @ v) (m_headers p)\<rparr>)"
proof -
  have "\<not> list_ex is_not_token_char ''Upgrade''" "\<not> list_ex is_not_token_char ''Connection''" by code_simp+
  with assms have "\<not> list_ex is_not_token_char k" by blast
  then show ?thesis by (simp add: append_header_def)
qed

lemma set_method_get: "set_method ''GET'' r = Value (r\<lparr>m_method := ''GET''\<rparr>)"
proof -
  have "\<not> list_ex is_not_token_char ''GET''" by code_simp
  then show ?thesis by (simp only: set_method_def if_False)
qed

lemma client_handshake_headers:
  "client_handshake_request rnd u names make_request =
   Value (None, make_request\<lparr>m_method := ''GET'', m_uri := m_resource u, m_version := ''HTTP/1.1'',
     m_headers := client_headers (get_host_port u) (octets_text (base64_encode (concat (List.map (le_bytes 4) rnd)))) names\<rparr>)"
  using name_order
  by (simp add: client_handshake_request_def set_method_get append_token_name make_request_def set_uri_def
      set_version_def get_header_def replace_header_def client_headers_def Let_def)

lemma server_handshake_headers:
  "process_handshake req [] make_response =
   Value (None, make_response\<lparr>m_headers := [(''Connection'', ''upgrade''),
     (''Sec-WebSocket-Accept'', process_handshake_key (get_header ''Sec-WebSocket-Key'' req)), (''Upgrade'', ''websocket'')]\<rparr>)"
  using name_order
  by (simp add: process_handshake_def append_token_name make_response_def get_header_def replace_header_def
      upgrade_token_def connection_token_def)

lemma header_text_of_base64:
  assumes "length bs < 2 ^ 32"
  shows "header_value_ok (octets_text (base64_encode bs)) \<and>
    length (octets_text (base64_encode bs)) = 4 * ((length bs + 2) div 3)"
proof -
  have plain: "char_of (unat c) \<noteq> CHR 0x0D \<and> char_of (unat c) \<noteq> CHR 0x0A \<and> \<not> is_whitespace_char (char_of (unat c))"
    if "is_base64 c \<or> c = pad_char" for c
  proof -
    define d where "d = (char_of (unat c) :: char)"
    have "unat c \<notin> {9, 10, 13, 32}"
      using that by (auto simp: is_base64_def pad_char_def word_le_nat_alt word_unat_eq_iff)
    then have "(of_char d :: nat) \<notin> {9, 10, 13, 32}" by (simp add: d_def)
    then have "d \<noteq> CHR 0x0D \<and> d \<noteq> CHR 0x0A \<and> \<not> is_whitespace_char d"
      by (auto simp: is_whitespace_char_def)
    then show ?thesis by (simp add: d_def)
  qed
  define cs where "cs = base64_encode bs"
  have cs: "list_all (\<lambda>c. is_base64 c \<or> c = pad_char) cs" "length cs = 4 * ((length bs + 2) div 3)"
    using encode_loop_shape [of bs] assms by (simp_all add: base64_encode_def cs_def)
  have "\<forall>d \<in> set (octets_text cs). d \<noteq> CHR 0x0D \<and> d \<noteq> CHR 0x0A \<and> \<not> is_whitespace_char d"
    using cs(1) plain by (auto simp: octets_text_def list_all_iff)
  then have "header_value_ok (octets_text cs)"
    using hd_in_set [of "octets_text cs"] last_in_set [of "octets_text cs"]
    by (auto simp: header_value_ok_def line_text_def)
  with cs(2) show ?thesis by (simp add: cs_def octets_text_def)
qed

lemma join_names_text: "join_names names = parameters_text (List.map (\<lambda>n. (n, [])) names)"
  by (induction names rule: join_names.induct) (simp_all add: parameter_text_def attributes_text_def)

lemma join_names_value:
  assumes "list_all is_token names" "names \<noteq> []"
  shows "header_value_ok (join_names names) \<and> join_names names \<noteq> []"
  using assms
proof (induction names rule: join_names.induct)
  case (2 s)
  have "\<forall>c \<in> set s. is_token_char c" "s \<noteq> []" using 2 by (simp_all add: is_token_def list_all_iff)
  then show ?case
    using token_plain hd_in_set [of s] last_in_set [of s] by (auto simp: header_value_ok_def line_text_def)
next
  case (3 s t ss)
  have s: "\<forall>c \<in> set s. is_token_char c" "s \<noteq> []" using 3 by (simp_all add: is_token_def list_all_iff)
  have "line_text s" "\<not> is_whitespace_char (hd s)" using token_plain s hd_in_set [of s] by (auto simp: line_text_def)
  with 3 s show ?case by (simp add: header_value_ok_def)
qed simp

text \<open>A URI whose parts can be sent in a request.\<close>

definition sendable :: "uri \<Rightarrow> bool" where
  "sendable u \<longleftrightarrow> line_text (m_resource u) \<and> CHR '' '' \<notin> set (m_resource u) \<and>
     header_value_ok (get_host_port u) \<and> get_host_port u \<noteq> []"

lemma client_headers_ok:
  assumes "header_value_ok host" "header_value_ok key" "list_all is_token names"
  shows "list_all header_ok (client_headers host key names) \<and> map_sorted to_lower (client_headers host key names)"
proof -
  have "names \<noteq> [] \<Longrightarrow> header_value_ok (join_names names)" using join_names_value [OF assms(3)] by simp
  then show ?thesis
    using assms header_names_ok name_order by (simp add: client_headers_def header_ok_def)
qed

lemma client_headers_get:
  fixes host key :: string and names :: "string list"
  defines "g \<equiv> map_get to_lower (client_headers host key names)"
  shows "g ''Connection'' = Some ''Upgrade''" "g ''Host'' = Some host" "g ''Sec-WebSocket-Key'' = Some key"
    "g ''Sec-WebSocket-Protocol'' = (if names = [] then None else Some (join_names names))"
    "g ''Sec-WebSocket-Version'' = Some ''13''" "g ''Upgrade'' = Some ''websocket''"
  using name_order by (simp_all add: g_def client_headers_def)

subsection \<open>What each end sends\<close>

text \<open>The key of a client, its request as the server has it, and the answer as the client has it.\<close>

definition client_key :: "u32 list \<Rightarrow> string" where
  "client_key rnd = octets_text (base64_encode (concat (List.map (le_bytes 4) rnd)))"

definition client_request :: "u32 list \<Rightarrow> uri \<Rightarrow> string list \<Rightarrow> request" where
  "client_request rnd u names = make_request\<lparr>m_method := ''GET'', m_uri := m_resource u, m_version := ''HTTP/1.1'',
     m_headers := client_headers (get_host_port u) (client_key rnd) names\<rparr>"

definition server_answer :: "u32 list \<Rightarrow> response" where
  "server_answer rnd = set_version ''HTTP/1.1'' (set_status (status_value S_switching_protocols)
     (make_response\<lparr>m_headers := [(''Connection'', ''upgrade''),
       (''Sec-WebSocket-Accept'', process_handshake_key (client_key rnd)), (''Upgrade'', ''websocket'')]\<rparr>))"

lemma client_key_text: "length rnd = 4 \<Longrightarrow> header_value_ok (client_key rnd) \<and> length (client_key rnd) = 24"
  using header_text_of_base64 [of "concat (List.map (le_bytes 4) rnd)"]
  by (simp add: client_key_def length_concat comp_def sum_list_triv)

lemma accept_text: "header_value_ok (process_handshake_key key) \<and> length (process_handshake_key key) = 28"
proof -
  have "length (calc w bs) = 20" for w bs
    by (simp add: calc_def state_bytes_def split_beta Let_def)
  then show ?thesis
    using header_text_of_base64 [of "calc (replicate 80 0) (octets (key @ handshake_guid))"]
    by (simp add: process_handshake_key_def)
qed

lemma client_handshake_made: "client_handshake_request rnd u names make_request = Value (None, client_request rnd u names)"
  by (simp add: client_handshake_headers client_request_def client_key_def)

text \<open>The request, printed and read, is a valid handshake.\<close>

lemma client_request_read:
  fixes rnd :: "u32 list" and u :: uri and names :: "string list"
  assumes "length rnd = 4" "sendable u" "list_all is_token names" "length (request_raw (client_request rnd u names)) \<le> max_header_size"
  defines "r \<equiv> (client_request rnd u names)\<lparr>m_ready := True\<rparr>"
  shows "request_consume (request_raw (client_request rnd u names)) make_request =
      Value (r, length (request_raw (client_request rnd u names)))"
    and "m_ready r" "is_websocket_handshake r" "get_websocket_version r = 13" "validate_handshake r = None"
    and "extract_subprotocols r [] = (None, names)"
    and "get_header ''Sec-WebSocket-Key'' r = client_key rnd" "get_header ''Host'' r = get_host_port u"
    and "get_header ''Sec-WebSocket-Extensions'' r = []"
proof -
  define hs where "hs = client_headers (get_host_port u) (client_key rnd) names"
  note get = client_headers_get [of "get_host_port u" "client_key rnd" names, folded hs_def]
  have key: "header_value_ok (client_key rnd)" "length (client_key rnd) = 24" using client_key_text [OF assms(1)] by auto
  then have key_ne: "client_key rnd \<noteq> []" by auto
  have hs: "list_all header_ok hs" "map_sorted to_lower hs"
    using client_headers_ok [of "get_host_port u" "client_key rnd" names] assms(2,3) key(1) by (simp_all add: sendable_def hs_def)
  have "request_ok (client_request rnd u names)"
    using assms(2) hs header_names_ok(1) get(2)
    by (simp add: request_ok_def client_request_def sendable_def get_header_def flip: hs_def)
  from request_read_back [OF this, of "[]"] assms(4)
  show "request_consume (request_raw (client_request rnd u names)) make_request =
      Value (r, length (request_raw (client_request rnd u names)))"
    by (simp add: r_def client_request_def make_request_def)
  have g: "m_headers r = hs" by (simp add: r_def client_request_def hs_def)
  show "extract_subprotocols r [] = (None, names)"
  proof (cases "names = []")
    case False
    have "list_all parameter_ok (List.map (\<lambda>n. (n, [])) names)"
      using assms(3) by (simp add: list_all_iff parameter_ok_def)
    from parse_parameters_text [OF this] False join_names_value [OF assms(3) False] get(4) show ?thesis
      by (simp add: extract_subprotocols_def get_header_as_plist_def get_header_def g comp_def flip: join_names_text)
  qed (use get(4) in \<open>simp add: extract_subprotocols_def get_header_def g\<close>)
  show "m_ready r" by (simp add: r_def)
  show "is_websocket_handshake r" "get_websocket_version r = 13"
    using tokens_searched get by (simp_all add: is_websocket_handshake_def get_websocket_version_def get_header_def g)
  show "validate_handshake r = None"
    using get key_ne by (simp add: validate_handshake_def get_header_def g) (simp add: r_def client_request_def)
  show "get_header ''Sec-WebSocket-Key'' r = client_key rnd" "get_header ''Host'' r = get_host_port u"
    using get by (simp_all add: get_header_def g)
  show "get_header ''Sec-WebSocket-Extensions'' r = []"
    using extension_order name_order by (simp add: get_header_def g hs_def client_headers_def)
qed

text \<open>The answer, printed and read, passes the test of the client.\<close>

lemma server_answer_read:
  fixes rnd :: "u32 list"
  defines "res \<equiv> (server_answer rnd)\<lparr>r_state := BODY\<rparr>"
  shows "response_consume (response_raw (server_answer rnd)) make_response = Value (res, length (response_raw (server_answer rnd)))"
    and "headers_ready res" "validate_server_handshake_response (client_request rnd u names) res = None"
proof -
  have msg: "status_get_message 101 = ''Switching Protocols''"
    using status_get_message_value [of S_switching_protocols] by simp
  note acc = accept_text [of "client_key rnd"]
  note defs = server_answer_def set_version_def set_status_def make_response_def
  have ok: "response_ok (server_answer rnd)"
    using acc header_names_ok name_order by (simp add: response_ok_def msg defs header_ok_def)
  have cl: "content_length (server_answer rnd) = Value 0"
    using name_order by (simp add: content_length_def get_header_def defs)
  have small: "length (response_raw (server_answer rnd)) + length [] \<le> max_header_size"
  proof -
    have "decimal_int 101 = ''101''" by code_simp
    then show ?thesis
      using acc by (simp add: response_raw_def msg defs raw_headers_def header_delimiter_def max_header_size_def)
  qed
  have body: "m_body (server_answer rnd) = []" by (simp add: defs)
  from response_header_read [OF ok cl small]
  show "response_consume (response_raw (server_answer rnd)) make_response = Value (res, length (response_raw (server_answer rnd)))"
    by (simp add: body res_def) (simp add: defs)
  show "headers_ready res" by (simp add: res_def headers_ready_def)
  show "validate_server_handshake_response (client_request rnd u names) res = None"
    using tokens_searched name_order client_headers_get(3) [of "get_host_port u" "client_key rnd" names]
    by (simp add: validate_server_handshake_response_def res_def defs get_header_def client_request_def)
qed

text \<open>The answer is the one the server makes, whether it sets the status before or after the headers.\<close>

lemma server_answer_made:
  assumes "get_header ''Sec-WebSocket-Key'' req = client_key rnd" "m_headers res = []"
  shows "process_handshake req [] res = Value (None, res\<lparr>m_headers := m_headers (server_answer rnd)\<rparr>)"
  using name_order
  by (simp add: process_handshake_def append_token_name get_header_def replace_header_def assms(2) assms(1) [unfolded get_header_def]
      upgrade_token_def connection_token_def server_answer_def set_version_def set_status_def)

subsection \<open>Properties\<close>

text \<open>
  C18: the opening handshake succeeds between two endpoints of this library. The request a client makes for a URI and
  any list of subprotocols, printed and read by a server in one buffer, is a valid handshake of
  version 13 that asks for exactly those subprotocols; and the answer the server makes of it, with
  status 101, printed and read by the client, passes the client's test.
\<close>

theorem handshake_accepted:
  assumes "client_handshake_request rnd u names make_request = Value (e, req)"
    and "length rnd = 4" "sendable u" "list_all is_token names" "length (request_raw req) \<le> max_header_size"
  shows "\<exists>req' res res' n.
    request_consume (request_raw req) make_request = Value (req', length (request_raw req)) \<and> m_ready req' \<and>
    is_websocket_handshake req' \<and> get_websocket_version req' = 13 \<and> validate_handshake req' = None \<and>
    extract_subprotocols req' [] = (None, names) \<and>
    process_handshake req' [] make_response = Value (None, res) \<and>
    response_consume (response_raw (set_version ''HTTP/1.1'' (set_status (status_value S_switching_protocols) res)))
      make_response = Value (res', n) \<and>
    headers_ready res' \<and> validate_server_handshake_response req res' = None"
proof -
  have req: "req = client_request rnd u names" using assms(1) by (simp add: client_handshake_made)
  note read = client_request_read [OF assms(2-4) assms(5) [unfolded req]]
  have "m_headers make_response = []" by (simp add: make_response_def)
  from server_answer_made [OF read(7) this]
  have "process_handshake ((client_request rnd u names)\<lparr>m_ready := True\<rparr>) [] make_response =
      Value (None, make_response\<lparr>m_headers := m_headers (server_answer rnd)\<rparr>)" .
  moreover have "set_version ''HTTP/1.1'' (set_status (status_value S_switching_protocols)
      (make_response\<lparr>m_headers := m_headers (server_answer rnd)\<rparr>)) = server_answer rnd"
    by (simp add: server_answer_def set_version_def set_status_def make_response_def)
  ultimately show ?thesis
    using read server_answer_read(1,2) [of rnd] server_answer_read(3) [of rnd u names] unfolding req by metis
qed

theorem handshake_accepted_witness:
  "\<exists>req req' res res' n.
     client_handshake_request [1, 2, 3, 4] (uri_scheme_parts ''ws'' ''h'' 80 ''/x'') [''chat''] make_request = Value (None, req) \<and>
     request_consume (request_raw req) make_request = Value (req', length (request_raw req)) \<and>
     extract_subprotocols req' [] = (None, [''chat'']) \<and>
     process_handshake req' [] make_response = Value (None, res) \<and>
     response_consume (response_raw (set_version ''HTTP/1.1'' (set_status (status_value S_switching_protocols) res)))
       make_response = Value (res', n) \<and>
     validate_server_handshake_response req res' = None"
proof -
  let ?u = "uri_scheme_parts ''ws'' ''h'' 80 ''/x''"
  obtain req where req: "client_handshake_request [1, 2, 3, 4] ?u [''chat''] make_request = Value (None, req)"
    by (simp add: client_handshake_headers)
  have "length (octets_text (base64_encode (concat (List.map (le_bytes 4) [1, 2, 3, 4 :: u32])))) = 24"
    using header_text_of_base64 [of "concat (List.map (le_bytes 4) [1, 2, 3, 4 :: u32])"] by simp
  moreover have "get_host_port ?u = ''h''" "m_resource ?u = ''/x''" by code_simp+
  ultimately have small: "length (request_raw req) \<le> max_header_size"
    using req [unfolded client_handshake_headers, symmetric]
    by (simp add: request_raw_def raw_headers_def client_headers_def make_request_def header_delimiter_def max_header_size_def)
  have four: "length [1, 2, 3, 4 :: u32] = 4" by simp
  have ok: "sendable ?u" "list_all is_token [''chat'']" by code_simp+
  from handshake_accepted [OF req four ok small] show ?thesis
    by (elim exE conjE) (intro exI conjI, (rule req | assumption)+)
qed

end
