(* ===== verification/Message.thy ===== *)
theory Message
  imports Frame
begin

text \<open>
  The message buffers of \<^verbatim>\<open>websocketpp/message_buffer/message.hpp\<close> and the allocating manager of
  \<^verbatim>\<open>websocketpp/message_buffer/alloc.hpp\<close>. A message pointer is an optional message; capacity
  reservations have no effect on the value and are not modelled.
\<close>

record message =
  msg_header :: bytes
  msg_extension_data :: bytes
  msg_payload :: bytes
  msg_opcode :: opcode
  msg_prepared :: bool
  msg_fin :: bool
  msg_terminal :: bool
  msg_compressed :: bool

definition make_message :: "opcode \<Rightarrow> u64 \<Rightarrow> message" where
  "make_message op sz =
     \<lparr>msg_header = [], msg_extension_data = [], msg_payload = [], msg_opcode = op,
      msg_prepared = False, msg_fin = True, msg_terminal = False, msg_compressed = False\<rparr>"

definition set_prepared :: "message \<Rightarrow> bool \<Rightarrow> message" where
  "set_prepared m value = m\<lparr>msg_prepared := value\<rparr>"

definition set_compressed :: "message \<Rightarrow> bool \<Rightarrow> message" where
  "set_compressed m value = m\<lparr>msg_compressed := value\<rparr>"

definition set_terminal :: "message \<Rightarrow> bool \<Rightarrow> message" where
  "set_terminal m value = m\<lparr>msg_terminal := value\<rparr>"

definition set_msg_fin :: "message \<Rightarrow> bool \<Rightarrow> message" where
  "set_msg_fin m value = m\<lparr>msg_fin := value\<rparr>"

definition set_opcode :: "message \<Rightarrow> opcode \<Rightarrow> message" where
  "set_opcode m op = m\<lparr>msg_opcode := op\<rparr>"

definition set_header :: "message \<Rightarrow> bytes \<Rightarrow> message" where
  "set_header m header = m\<lparr>msg_header := header\<rparr>"

definition set_payload :: "message \<Rightarrow> bytes \<Rightarrow> message" where
  "set_payload m payload = m\<lparr>msg_payload := payload\<rparr>"

definition append_payload :: "message \<Rightarrow> bytes \<Rightarrow> message" where
  "append_payload m payload = m\<lparr>msg_payload := msg_payload m @ payload\<rparr>"

text \<open>The allocating manager hands out a new message for every request and recycles none.\<close>

definition alloc_get_message :: "opcode \<Rightarrow> u64 \<Rightarrow> message option" where
  "alloc_get_message op sz = Some (make_message op sz)"

text \<open>The message made without an opcode leaves that field as the memory held it: \<open>old\<close>.\<close>

definition alloc_get_empty :: "opcode \<Rightarrow> message option" where
  "alloc_get_empty old = Some (make_message old 0)"

definition alloc_recycle :: "message \<Rightarrow> bool" where
  "alloc_recycle m \<longleftrightarrow> False"

text \<open>\<^verbatim>\<open>message::recycle\<close>: the weak reference to the manager may have expired.\<close>

definition message_recycle :: "(message \<Rightarrow> bool) option \<Rightarrow> message \<Rightarrow> bool" where
  "message_recycle manager m = (case manager of Some recycle \<Rightarrow> recycle m | None \<Rightarrow> False)"

lemma make_message_simps [simp]:
  "msg_payload (make_message op sz) = []" "msg_opcode (make_message op sz) = op"
  "msg_fin (make_message op sz)" "\<not> msg_prepared (make_message op sz)"
  "\<not> msg_compressed (make_message op sz)" "\<not> msg_terminal (make_message op sz)"
  by (simp_all add: make_message_def)

end
