(* ===== verification/Md5.thy ===== *)
theory Md5
  imports Sha1
begin

text \<open>
  MD5 as the library computes it for the answer of the draft handshake (\<^verbatim>\<open>common/md5.hpp\<close>): a state that takes the
  message in pieces, with one partial block. The reference is the algorithm of RFC 1321 on a whole message. The
  host is little-endian, so the words of a block are read from it in place; \<^verbatim>\<open>unsigned int\<close> has 32 bits.
\<close>

subsection \<open>One block\<close>

text \<open>The constants with the high bit set are written as complements.\<close>

definition t_mask :: u32 where "t_mask = NOT 0"

definition md5_t :: "u32 list" where
  "md5_t =
     [t_mask XOR 0x28955b87, t_mask XOR 0x173848a9, 0x242070db, t_mask XOR 0x3e423111,
      t_mask XOR 0x0a83f050, 0x4787c62a, t_mask XOR 0x57cfb9ec, t_mask XOR 0x02b96afe,
      0x698098d8, t_mask XOR 0x74bb0850, t_mask XOR 0x0000a44e, t_mask XOR 0x76a32841,
      0x6b901122, t_mask XOR 0x02678e6c, t_mask XOR 0x5986bc71, 0x49b40821,
      t_mask XOR 0x09e1da9d, t_mask XOR 0x3fbf4cbf, 0x265e5a51, t_mask XOR 0x16493855,
      t_mask XOR 0x29d0efa2, 0x02441453, t_mask XOR 0x275e197e, t_mask XOR 0x182c0437,
      0x21e1cde6, t_mask XOR 0x3cc8f829, t_mask XOR 0x0b2af278, 0x455a14ed,
      t_mask XOR 0x561c16fa, t_mask XOR 0x03105c07, 0x676f02d9, t_mask XOR 0x72d5b375,
      t_mask XOR 0x0005c6bd, t_mask XOR 0x788e097e, 0x6d9d6122, t_mask XOR 0x021ac7f3,
      t_mask XOR 0x5b4115bb, 0x4bdecfa9, t_mask XOR 0x0944b49f, t_mask XOR 0x4140438f,
      0x289b7ec6, t_mask XOR 0x155ed805, t_mask XOR 0x2b10cf7a, 0x04881d05,
      t_mask XOR 0x262b2fc6, t_mask XOR 0x1924661a, 0x1fa27cf8, t_mask XOR 0x3b53a99a,
      t_mask XOR 0x0bd6ddbb, 0x432aff97, t_mask XOR 0x546bdc58, t_mask XOR 0x036c5fc6,
      0x655b59c3, t_mask XOR 0x70f3336d, t_mask XOR 0x00100b82, t_mask XOR 0x7a7ba22e,
      0x6fa87e4f, t_mask XOR 0x01d3191f, t_mask XOR 0x5cfebceb, 0x4e0811a1,
      t_mask XOR 0x08ac817d, t_mask XOR 0x42c50dca, 0x2ad7d2bb, t_mask XOR 0x14792c6e]"

type_synonym digest_buffer = "u32 \<times> u32 \<times> u32 \<times> u32"

definition md5_rotate_left :: "u32 \<Rightarrow> nat \<Rightarrow> u32" where
  "md5_rotate_left x n = push_bit n x OR drop_bit (32 - n) x"

definition md5_f :: "u32 \<Rightarrow> u32 \<Rightarrow> u32 \<Rightarrow> u32" where "md5_f x y z = (x AND y) OR (NOT x AND z)"
definition md5_g :: "u32 \<Rightarrow> u32 \<Rightarrow> u32 \<Rightarrow> u32" where "md5_g x y z = (x AND z) OR (y AND NOT z)"
definition md5_h :: "u32 \<Rightarrow> u32 \<Rightarrow> u32 \<Rightarrow> u32" where "md5_h x y z = x XOR y XOR z"
definition md5_i :: "u32 \<Rightarrow> u32 \<Rightarrow> u32 \<Rightarrow> u32" where "md5_i x y z = y XOR (x OR NOT z)"

text \<open>
  The macro \<^verbatim>\<open>SET\<close> with the function of its round. Its calls name the four registers in turn, \<^verbatim>\<open>a b c d\<close>, \<^verbatim>\<open>d a b c\<close> and
  so on; here the registers are turned instead. The tables are the other arguments of the calls.
\<close>

definition set_op :: "(u32 \<Rightarrow> u32 \<Rightarrow> u32 \<Rightarrow> u32) \<Rightarrow> u32 list \<Rightarrow> digest_buffer \<Rightarrow> nat \<times> nat \<times> nat \<Rightarrow> digest_buffer" where
  "set_op fn X = (\<lambda>(a, b, c, d) (k, s, i).
     let t = a + fn b c d + X ! k + md5_t ! (i - 1) in (d, md5_rotate_left t s + b, b, c))"

definition round_1 :: "(nat \<times> nat \<times> nat) list" where
  "round_1 =
     [(0, 7, 1), (1, 12, 2), (2, 17, 3), (3, 22, 4), (4, 7, 5), (5, 12, 6), (6, 17, 7), (7, 22, 8),
      (8, 7, 9), (9, 12, 10), (10, 17, 11), (11, 22, 12), (12, 7, 13), (13, 12, 14), (14, 17, 15), (15, 22, 16)]"

definition round_2 :: "(nat \<times> nat \<times> nat) list" where
  "round_2 =
     [(1, 5, 17), (6, 9, 18), (11, 14, 19), (0, 20, 20), (5, 5, 21), (10, 9, 22), (15, 14, 23), (4, 20, 24),
      (9, 5, 25), (14, 9, 26), (3, 14, 27), (8, 20, 28), (13, 5, 29), (2, 9, 30), (7, 14, 31), (12, 20, 32)]"

definition round_3 :: "(nat \<times> nat \<times> nat) list" where
  "round_3 =
     [(5, 4, 33), (8, 11, 34), (11, 16, 35), (14, 23, 36), (1, 4, 37), (4, 11, 38), (7, 16, 39), (10, 23, 40),
      (13, 4, 41), (0, 11, 42), (3, 16, 43), (6, 23, 44), (9, 4, 45), (12, 11, 46), (15, 16, 47), (2, 23, 48)]"

definition round_4 :: "(nat \<times> nat \<times> nat) list" where
  "round_4 =
     [(0, 6, 49), (7, 10, 50), (14, 15, 51), (5, 21, 52), (12, 6, 53), (3, 10, 54), (10, 15, 55), (1, 21, 56),
      (8, 6, 57), (15, 10, 58), (6, 15, 59), (13, 21, 60), (4, 6, 61), (11, 10, 62), (2, 15, 63), (9, 21, 64)]"

definition block_words :: "bytes \<Rightarrow> u32 list" where
  "block_words bs = List.map (\<lambda>i. of_le (take 4 (drop (4 * i) bs))) [0..<16]"

definition md5_rounds :: "u32 list \<Rightarrow> digest_buffer \<Rightarrow> digest_buffer" where
  "md5_rounds X q =
     foldl (set_op md5_i X) (foldl (set_op md5_h X) (foldl (set_op md5_g X) (foldl (set_op md5_f X) q round_1) round_2) round_3) round_4"

fun add_buffer :: "digest_buffer \<Rightarrow> digest_buffer \<Rightarrow> digest_buffer" where
  "add_buffer (a, b, c, d) (a', b', c', d') = (a + a', b + b', c + c', d + d')"

definition md5_process :: "bytes \<Rightarrow> digest_buffer \<Rightarrow> digest_buffer" where
  "md5_process bs q = add_buffer q (md5_rounds (block_words bs) q)"

subsection \<open>The state\<close>

record md5_state =
  count0 :: u32
  count1 :: u32
  abcd :: digest_buffer
  md5_buf :: bytes

definition initial_buffer :: digest_buffer where
  "initial_buffer = (0x67452301, t_mask XOR 0x10325476, t_mask XOR 0x67452301, 0x10325476)"

definition md5_init :: "md5_state \<Rightarrow> md5_state" where
  "md5_init pms = pms\<lparr>count0 := 0, count1 := 0, abcd := initial_buffer\<rparr>"

definition count_bytes :: "bytes \<Rightarrow> md5_state \<Rightarrow> md5_state" where
  "count_bytes bs pms =
     (let nbytes = of_nat (length bs) :: u64; nbits = ucast (push_bit 3 nbytes) :: u32;
          c1 = count1 pms + ucast (drop_bit 29 nbytes); c0 = count0 pms + nbits
      in pms\<lparr>count0 := c0, count1 := (if c0 < nbits then c1 + 1 else c1)\<rparr>)"

text \<open>\<^verbatim>\<open>memcpy\<close> into the buffer of the partial block.\<close>

definition store :: "nat \<Rightarrow> bytes \<Rightarrow> md5_state \<Rightarrow> md5_state" where
  "store offset bs pms = pms\<lparr>md5_buf := take offset (md5_buf pms) @ bs @ drop (offset + length bs) (md5_buf pms)\<rparr>"

function append_blocks :: "bytes \<Rightarrow> md5_state \<Rightarrow> md5_state" where
  "append_blocks bs pms =
     (if length bs \<ge> 64 then append_blocks (drop 64 bs) (pms\<lparr>abcd := md5_process (take 64 bs) (abcd pms)\<rparr>)
      else if bs \<noteq> [] then store 0 bs pms else pms)"
  by pat_completeness auto
termination by (relation "measure (\<lambda>(bs, pms). length bs)") auto

declare append_blocks.simps [simp del]

text \<open>An array is shorter than \<open>2 ^ 64 - 64\<close> octets, so the sum of offset and size does not wrap.\<close>

definition md5_append :: "bytes \<Rightarrow> md5_state \<Rightarrow> md5_state" where
  "md5_append bs pms =
     (let offset = unat (drop_bit 3 (count0 pms) AND 63) in
      if bs = [] then pms
      else
        let pms = count_bytes bs pms in
        if offset \<noteq> 0
        then let copy = (if offset + length bs > 64 then 64 - offset else length bs); pms = store offset (take copy bs) pms in
          if offset + copy < 64 then pms
          else append_blocks (drop copy bs) (pms\<lparr>abcd := md5_process (md5_buf pms) (abcd pms)\<rparr>)
        else append_blocks bs pms)"

definition md5_padding :: bytes where "md5_padding = 0x80 # replicate 63 0"

fun buffer_bytes :: "digest_buffer \<Rightarrow> bytes" where
  "buffer_bytes (a, b, c, d) = le_bytes 4 a @ le_bytes 4 b @ le_bytes 4 c @ le_bytes 4 d"

definition md5_finish :: "md5_state \<Rightarrow> bytes" where
  "md5_finish pms =
     (let size = le_bytes 4 (count0 pms) @ le_bytes 4 (count1 pms);
          pms = md5_append (take (unat ((55 - drop_bit 3 (count0 pms)) AND 63) + 1) md5_padding) pms
      in buffer_bytes (abcd (md5_append size pms)))"

text \<open>The state is a local variable: what it holds before \<^verbatim>\<open>md5_init\<close> is an argument.\<close>

definition md5_hash_string :: "md5_state \<Rightarrow> bytes \<Rightarrow> bytes" where
  "md5_hash_string stack s = md5_finish (md5_append s (md5_init stack))"

definition hexval :: string where "hexval = ''0123456789abcdef''"

definition md5_hash_hex :: "md5_state \<Rightarrow> bytes \<Rightarrow> string" where
  "md5_hash_hex stack s =
     concat (List.map (\<lambda>b. [hexval ! unat (drop_bit 4 b AND 0xF), hexval ! unat (b AND 0x0F)]) (md5_hash_string stack s))"

subsection \<open>The standard\<close>

definition rfc_constants :: "u32 list" where
  "rfc_constants =
     [0xd76aa478, 0xe8c7b756, 0x242070db, 0xc1bdceee, 0xf57c0faf, 0x4787c62a, 0xa8304613, 0xfd469501,
      0x698098d8, 0x8b44f7af, 0xffff5bb1, 0x895cd7be, 0x6b901122, 0xfd987193, 0xa679438e, 0x49b40821,
      0xf61e2562, 0xc040b340, 0x265e5a51, 0xe9b6c7aa, 0xd62f105d, 0x02441453, 0xd8a1e681, 0xe7d3fbc8,
      0x21e1cde6, 0xc33707d6, 0xf4d50d87, 0x455a14ed, 0xa9e3e905, 0xfcefa3f8, 0x676f02d9, 0x8d2a4c8a,
      0xfffa3942, 0x8771f681, 0x6d9d6122, 0xfde5380c, 0xa4beea44, 0x4bdecfa9, 0xf6bb4b60, 0xbebfbc70,
      0x289b7ec6, 0xeaa127fa, 0xd4ef3085, 0x04881d05, 0xd9d4d039, 0xe6db99e5, 0x1fa27cf8, 0xc4ac5665,
      0xf4292244, 0x432aff97, 0xab9423a7, 0xfc93a039, 0x655b59c3, 0x8f0ccc92, 0xffeff47d, 0x85845dd1,
      0x6fa87e4f, 0xfe2ce6e0, 0xa3014314, 0x4e0811a1, 0xf7537e82, 0xbd3af235, 0x2ad7d2bb, 0xeb86d391]"

definition rfc_function :: "nat \<Rightarrow> u32 \<Rightarrow> u32 \<Rightarrow> u32 \<Rightarrow> u32" where
  "rfc_function i = [md5_f, md5_g, md5_h, md5_i] ! (i div 16)"

definition rfc_index :: "nat \<Rightarrow> nat" where
  "rfc_index i = [i, 5 * i + 1, 3 * i + 5, 7 * i] ! (i div 16) mod 16"

definition rfc_shift :: "nat \<Rightarrow> nat" where
  "rfc_shift i = [[7, 12, 17, 22], [5, 9, 14, 20], [4, 11, 16, 23], [6, 10, 15, 21]] ! (i div 16) ! (i mod 4)"

definition rfc_step :: "u32 list \<Rightarrow> digest_buffer \<Rightarrow> nat \<Rightarrow> digest_buffer" where
  "rfc_step X = (\<lambda>(a, b, c, d) i.
     (d, b + word_rotl (rfc_shift i) (a + rfc_function i b c d + X ! rfc_index i + rfc_constants ! i), b, c))"

definition rfc_compress :: "digest_buffer \<Rightarrow> bytes \<Rightarrow> digest_buffer" where
  "rfc_compress q block = add_buffer q (foldl (rfc_step (block_words block)) q [0..<64])"

definition rfc_pad :: "bytes \<Rightarrow> bytes" where
  "rfc_pad bs = bs @ [0x80] @ replicate ((119 - length bs mod 64) mod 64) 0 @ le_bytes 8 (of_nat (8 * length bs) :: u64)"

definition rfc_initial :: digest_buffer where
  "rfc_initial = (0x67452301, 0xefcdab89, 0x98badcfe, 0x10325476)"

definition rfc_md5 :: "bytes \<Rightarrow> bytes" where
  "rfc_md5 bs = buffer_bytes (foldl rfc_compress rfc_initial (blocks (rfc_pad bs)))"

subsection \<open>One block is that of the standard\<close>

lemma md5_rotate_left_rotl: "s < 32 \<Longrightarrow> md5_rotate_left x s = word_rotl s x"
  by (simp add: md5_rotate_left_def rotate_left_word_rotl)

lemma constants_eq: "md5_t = rfc_constants"
  unfolding md5_t_def rfc_constants_def t_mask_def by simp

lemma round_tables:
  "round_1 = List.map (\<lambda>i. (rfc_index i, rfc_shift i, Suc i)) [0..<16]"
  "round_2 = List.map (\<lambda>i. (rfc_index i, rfc_shift i, Suc i)) [16..<32]"
  "round_3 = List.map (\<lambda>i. (rfc_index i, rfc_shift i, Suc i)) [32..<48]"
  "round_4 = List.map (\<lambda>i. (rfc_index i, rfc_shift i, Suc i)) [48..<64]"
  by code_simp+

lemma set_op_step:
  assumes "rfc_function i = fn" "i < 64"
  shows "set_op fn X q (rfc_index i, rfc_shift i, Suc i) = rfc_step X q i"
proof -
  have "rfc_shift i < 32"
  proof -
    have "list_all (\<lambda>i. rfc_shift i < 32) [0..<64]" by code_simp
    then show ?thesis using assms(2) by (simp add: list_all_iff)
  qed
  then show ?thesis
    using assms(1) by (cases q) (simp add: set_op_def rfc_step_def constants_eq md5_rotate_left_rotl add.commute)
qed

lemma round_steps:
  assumes "hi \<le> 64" "\<And>i. lo \<le> i \<Longrightarrow> i < hi \<Longrightarrow> rfc_function i = fn"
  shows "foldl (set_op fn X) q (List.map (\<lambda>i. (rfc_index i, rfc_shift i, Suc i)) [lo..<hi]) = foldl (rfc_step X) q [lo..<hi]"
  unfolding foldl_map by (rule foldl_cong) (use assms set_op_step in auto)

lemma md5_process_compress: "md5_process bs q = rfc_compress q bs"
proof -
  have up: "[0..<64] = [0..<16] @ [16..<32] @ [32..<48] @ [48..<64::nat]" by code_simp
  have fn: "i < 16 \<Longrightarrow> rfc_function i = md5_f" "16 \<le> i \<Longrightarrow> i < 32 \<Longrightarrow> rfc_function i = md5_g"
    "32 \<le> i \<Longrightarrow> i < 48 \<Longrightarrow> rfc_function i = md5_h" "48 \<le> i \<Longrightarrow> i < 64 \<Longrightarrow> rfc_function i = md5_i" for i
  proof -
    have d: "i div 16 = k" if "16 * k \<le> i" "i < 16 * Suc k" for k
      using that by (intro div_nat_eqI) simp_all
    show "i < 16 \<Longrightarrow> rfc_function i = md5_f" using d [of 0] by (simp add: rfc_function_def)
    show "16 \<le> i \<Longrightarrow> i < 32 \<Longrightarrow> rfc_function i = md5_g" using d [of 1] by (simp add: rfc_function_def)
    show "32 \<le> i \<Longrightarrow> i < 48 \<Longrightarrow> rfc_function i = md5_h" using d [of 2] by (simp add: rfc_function_def numeral_2_eq_2)
    show "48 \<le> i \<Longrightarrow> i < 64 \<Longrightarrow> rfc_function i = md5_i" using d [of 3] by (simp add: rfc_function_def numeral_3_eq_3)
  qed
  show ?thesis
    unfolding md5_process_def rfc_compress_def md5_rounds_def round_tables up foldl_append
    by (simp add: round_steps fn del: upt_rec_numeral)
qed

subsection \<open>The counter\<close>

definition counts :: "nat \<Rightarrow> md5_state \<Rightarrow> bool" where
  "counts n pms \<longleftrightarrow> count0 pms = of_nat (8 * n) \<and> count1 pms = of_nat (8 * n div 2 ^ 32)"

lemma le_bytes_halves:
  "le_bytes 4 (of_nat N :: u32) @ le_bytes 4 (of_nat (N div 2 ^ 32) :: u32) = le_bytes 8 (of_nat N :: u64)"
proof (rule nth_equalityI)
  let ?l = "le_bytes 4 (of_nat N :: u32) @ le_bytes 4 (of_nat (N div 2 ^ 32) :: u32)"
  fix i assume i: "i < length ?l"
  show "?l ! i = le_bytes 8 (of_nat N :: u64) ! i"
  proof (rule bit_word_eqI)
    fix j assume j: "j < LENGTH(8)"
    have high: "bit (N div 2 ^ 32) (8 * (i - 4) + j) = bit N (8 * i + j)" if "4 \<le> i"
    proof -
      have "32 + (8 * (i - 4) + j) = 8 * i + j" using that by simp
      then show ?thesis by (metis drop_bit_eq_div bit_drop_bit_eq comp_apply)
    qed
    have rest: "i - 4 < 4" if "4 \<le> i" using i that by simp
    show "bit (?l ! i) j = bit (le_bytes 8 (of_nat N :: u64) ! i) j"
      using i j high rest
      by (cases "i < 4") (auto simp: nth_append bit_le_bytes_nth bit_word_of_nat simp del: nth_le_bytes)
  qed
qed simp

lemma counts_word: "counts n pms \<Longrightarrow> le_bytes 4 (count0 pms) @ le_bytes 4 (count1 pms) = le_bytes 8 (of_nat (8 * n) :: u64)"
  using le_bytes_halves [of "8 * n"] by (simp only: counts_def)

lemma counts_init: "counts 0 (md5_init pms)"
  by (simp add: counts_def md5_init_def)

lemma carry_nat:
  fixes a b c :: nat
  assumes "0 < c"
  shows "(a + b) div c = a div c + b div c + (if (a + b) mod c < b mod c then 1 else 0)"
proof -
  have carry: "(x + y) div c = (if (x + y) mod c < y then 1 else 0)" if "x < c" "y < c" for x y
    using that by (cases "x + y < c") (auto simp: le_mod_geq le_div_geq)
  have "(a mod c + b mod c) div c = (if (a mod c + b mod c) mod c < b mod c then 1 else 0)"
    using assms by (intro carry) simp_all
  then show ?thesis using div_add1_eq [of a b c] by (simp only: mod_add_eq)
qed

lemma counts_bytes:
  assumes "counts n pms" "length bs < 2 ^ 64"
  shows "counts (n + length bs) (count_bytes bs pms)"
proof -
  let ?m = "length bs"
  have bits: "(ucast (push_bit 3 (of_nat ?m :: u64)) :: u32) = of_nat (8 * ?m)"
  proof -
    have eight: "8 * ?m = push_bit 3 ?m" by (simp add: push_bit_eq_mult)
    show ?thesis unfolding eight by (rule bit_word_eqI) (auto simp: bit_simps bit_word_of_nat)
  qed
  have high: "(ucast (drop_bit 29 (of_nat ?m :: u64)) :: u32) = of_nat (8 * ?m div 2 ^ 32)"
  proof -
    have "8 * ?m div 2 ^ 32 = ?m div 2 ^ 29" by simp
    moreover have "unat (drop_bit 29 (of_nat ?m :: u64)) = ?m div 2 ^ 29"
      unfolding unat_drop_bit_eq using assms(2) by (simp add: unat_of_nat drop_bit_eq_div)
    ultimately show ?thesis by (metis of_nat_unat)
  qed
  have "count0 pms + of_nat (8 * ?m) < (of_nat (8 * ?m) :: u32) \<longleftrightarrow> (8 * n + 8 * ?m) mod 2 ^ 32 < 8 * ?m mod 2 ^ 32"
  proof -
    have "unat (of_nat k :: u32) = k mod 2 ^ 32" for k by (simp only: unat_of_nat) simp
    then show ?thesis using assms(1) by (simp only: counts_def word_less_nat_alt of_nat_add [symmetric])
  qed
  then show ?thesis
    using assms(1) carry_nat [of "2 ^ 32" "8 * n" "8 * ?m"]
    by (simp only: counts_def count_bytes_def Let_def bits high add_mult_distrib2) (simp add: add_ac)
qed

subsection \<open>The message so far\<close>

text \<open>The blocks that are complete have gone into the digest; the rest is at the start of the buffer.\<close>

definition taken_in :: "bytes \<Rightarrow> bytes \<Rightarrow> md5_state \<Rightarrow> bool" where
  "taken_in full part pms \<longleftrightarrow>
     length full mod 64 = 0 \<and> length part < 64 \<and> length (md5_buf pms) = 64 \<and> take (length part) (md5_buf pms) = part \<and>
     abcd pms = foldl rfc_compress rfc_initial (blocks full)"

definition holds :: "bytes \<Rightarrow> md5_state \<Rightarrow> bool" where
  "holds bs pms \<longleftrightarrow> counts (length bs) pms \<and> (\<exists>full part. bs = full @ part \<and> taken_in full part pms)"

lemma initial_buffer_rfc: "initial_buffer = rfc_initial"
  by (simp add: initial_buffer_def rfc_initial_def t_mask_def)

lemma taken_block:
  assumes "length full mod 64 = 0" "length block = 64" "abcd pms = foldl rfc_compress rfc_initial (blocks full)"
  shows "md5_process block (abcd pms) = foldl rfc_compress rfc_initial (blocks (full @ block))"
  using assms by (simp add: md5_process_compress blocks_append blocks_one)

lemma counts_frame [simp]:
  "counts n (pms\<lparr>abcd := q\<rparr>) = counts n pms" "counts n (store k bs pms) = counts n pms"
  by (simp_all add: counts_def store_def)

lemma append_blocks_taken:
  assumes "taken_in full [] pms"
  shows "(\<exists>full' part. full @ bs = full' @ part \<and> taken_in full' part (append_blocks bs pms)) \<and>
    (\<forall>n. counts n (append_blocks bs pms) = counts n pms)"
  using assms
proof (induction bs pms arbitrary: full rule: append_blocks.induct)
  case (1 bs pms)
  show ?case
  proof (cases "64 \<le> length bs")
    case True
    let ?p = "pms\<lparr>abcd := md5_process (take 64 bs) (abcd pms)\<rparr>"
    have "taken_in (full @ take 64 bs) [] ?p"
      using 1(2) True taken_block [of full "take 64 bs" pms] by (simp add: taken_in_def mod_add_self2)
    from 1(1) [OF True this] show ?thesis using True by (simp add: append_blocks.simps [of bs])
  next
    case False
    then have "taken_in full bs (append_blocks bs pms)"
      using 1(2) by (simp add: append_blocks.simps [of bs] taken_in_def store_def)
    moreover have "counts n (append_blocks bs pms) = counts n pms" for n
      using False by (simp add: append_blocks.simps [of bs])
    ultimately show ?thesis by blast
  qed
qed

lemma offset_part:
  assumes "counts (length (full @ part)) pms" "length full mod 64 = 0" "length part < 64"
  shows "unat (drop_bit 3 (count0 pms) AND 63) = length part"
proof -
  have mask: "(63 :: u32) = mask 6" by (simp add: mask_eq_exp_minus_1)
  have "unat (drop_bit 3 (count0 pms) AND 63) = unat (count0 pms) div 8 mod 64"
    unfolding mask take_bit_eq_mask [symmetric] unsigned_take_bit_eq unat_drop_bit_eq
    by (simp add: take_bit_eq_mod drop_bit_eq_div)
  also have "\<dots> = length (full @ part) mod 64"
  proof -
    have "unat (of_nat (8 * L) :: u32) div 8 mod 64 = L mod 64" for L
    proof -
      have "unat (of_nat (8 * L) :: u32) = 8 * L mod (8 * 2 ^ 29)"
        by (simp only: unat_of_nat) simp
      also have "\<dots> = 8 * (L mod 2 ^ 29)" by (rule mult_mod_right [symmetric])
      finally have "unat (of_nat (8 * L) :: u32) div 8 = L mod 2 ^ 29" by (simp only:)
      then show ?thesis by (simp only:) (simp add: mod_mod_cancel)
    qed
    then show ?thesis using assms(1) by (simp only: counts_def)
  qed
  also have "\<dots> = length part"
    using assms(2,3) by (metis length_append mod_add_left_eq mod_less add_0)
  finally show ?thesis .
qed

lemma holds_init: "length (md5_buf stack) = 64 \<Longrightarrow> holds [] (md5_init stack)"
  using counts_init [of stack]
  by (simp add: holds_def taken_in_def md5_init_def initial_buffer_rfc blocks.simps [of "[]"])

lemma count_bytes_fields [simp]: "md5_buf (count_bytes bs pms) = md5_buf pms" "abcd (count_bytes bs pms) = abcd pms"
  by (simp_all add: count_bytes_def Let_def)

lemma store_taken:
  assumes "taken_in full part pms" "length part + length bs \<le> 64"
  shows "length (md5_buf (store (length part) bs pms)) = 64"
    "take (length part + length bs) (md5_buf (store (length part) bs pms)) = part @ bs"
    "abcd (store (length part) bs pms) = abcd pms"
  using assms by (simp_all add: store_def taken_in_def)

lemma holds_append:
  assumes "holds bs pms" "length data < 2 ^ 64"
  shows "holds (bs @ data) (md5_append data pms)"
proof (cases "data = []")
  case True
  then show ?thesis using assms(1) by (simp add: md5_append_def)
next
  case False
  obtain full part where parts: "bs = full @ part" "taken_in full part pms" "counts (length (full @ part)) pms"
    using assms(1) by (auto simp: holds_def)
  then have sizes: "length full mod 64 = 0" "length part < 64" by (simp_all add: taken_in_def)
  note off = offset_part [OF parts(3) sizes]
  let ?p = "count_bytes data pms"
  have counted: "counts (length (bs @ data)) ?p" using counts_bytes [OF parts(3) assms(2)] by (simp add: parts(1) add.assoc)
  have taken: "taken_in full part ?p" using parts(2) by (simp add: taken_in_def)
  consider "part = []" | "part \<noteq> []" "length part + length data < 64" | "part \<noteq> []" "64 \<le> length part + length data" by linarith
  then show ?thesis
  proof cases
    case 1
    have "md5_append data pms = append_blocks data ?p" using False off 1 by (simp add: md5_append_def)
    then show ?thesis
      using append_blocks_taken [of full ?p data] taken counted 1 by (simp add: holds_def parts(1) add.assoc)
  next
    case 2
    have "md5_append data pms = store (length part) data ?p" using False off 2 by (simp add: md5_append_def Let_def)
    moreover have "taken_in full (part @ data) (store (length part) data ?p)"
      using store_taken [OF taken, of data] 2 taken by (simp add: taken_in_def)
    ultimately show ?thesis using counted by (auto simp: holds_def parts(1) add.assoc)
  next
    case 3
    let ?copy = "64 - length part"
    let ?s = "store (length part) (take ?copy data) ?p"
    let ?q = "?s\<lparr>abcd := md5_process (md5_buf ?s) (abcd ?s)\<rparr>"
    have len: "length (take ?copy data) = ?copy" "length part + ?copy = 64" using 3 sizes by simp_all
    have "md5_append data pms = append_blocks (drop ?copy data) ?q"
      using False off 3 len sizes by (cases "length part + length data = 64") (simp_all add: md5_append_def Let_def)
    moreover have "taken_in (full @ part @ take ?copy data) [] ?q"
    proof -
      have "md5_buf ?s = part @ take ?copy data" "length (md5_buf ?s) = 64"
        using store_taken [OF taken, of "take ?copy data"] len sizes by simp_all
      then show ?thesis
        using taken_block [of full "part @ take ?copy data" ?p] store_taken(3) [OF taken, of "take ?copy data"] taken len sizes
        by (simp add: taken_in_def flip: append_assoc)
    qed
    ultimately show ?thesis
      using append_blocks_taken [of "full @ part @ take ?copy data" ?q "drop ?copy data"] counted
      by (simp add: holds_def parts(1) add.assoc)
  qed
qed

subsection \<open>The whole\<close>

lemma holds_end:
  assumes "holds bs pms" "length bs mod 64 = 0"
  shows "abcd pms = foldl rfc_compress rfc_initial (blocks bs)"
proof -
  obtain full part where parts: "bs = full @ part" "taken_in full part pms" using assms(1) by (auto simp: holds_def)
  then have "length full mod 64 = 0" "length part < 64" "(length full + length part) mod 64 = 0"
    using assms(2) by (simp_all add: taken_in_def)
  then have "length part = 0" by presburger
  then show ?thesis using parts by (simp add: taken_in_def)
qed

lemma complement_mod:
  fixes a b :: nat
  assumes "(a + b) mod 64 = 55"
  shows "a mod 64 = (119 - b mod 64) mod 64"
proof -
  have rest: "p = (119 - q) mod 64" if "p < 64" "q < 64" "(p + q) mod 64 = 55" for p q :: nat
    using that by (cases "p + q < 64") (auto simp: le_mod_geq)
  show ?thesis by (rule rest) (use assms in \<open>simp_all add: mod_add_eq\<close>)
qed

lemma padding_length:
  assumes "holds bs pms"
  shows "unat ((55 - drop_bit 3 (count0 pms)) AND 63) = (119 - length bs mod 64) mod 64"
proof -
  obtain full part where parts: "bs = full @ part" "taken_in full part pms" "counts (length (full @ part)) pms"
    using assms by (auto simp: holds_def)
  then have sizes: "length full mod 64 = 0" "length part < 64" by (simp_all add: taken_in_def)
  have part: "length bs mod 64 = length part" using sizes by (simp add: parts(1)) (metis mod_add_left_eq mod_less add_0)
  let ?x = "drop_bit 3 (count0 pms)"
  have mask: "(63 :: u32) = mask 6" by (simp add: mask_eq_exp_minus_1)
  have x: "unat ?x mod 64 = length part"
    using offset_part [OF parts(3) sizes] unfolding mask take_bit_eq_mask [symmetric] unsigned_take_bit_eq by (simp add: take_bit_eq_mod)
  have "unat (55 - ?x) mod 64 = (119 - unat ?x mod 64) mod 64"
  proof -
    have "(55 - ?x) + ?x = 55" by simp
    then have "(unat (55 - ?x) + unat ?x) mod 2 ^ 32 = 55"
      using unat_word_ariths(1) [of "55 - ?x" ?x] by simp
    moreover have "(unat (55 - ?x) + unat ?x) mod 2 ^ 32 mod 64 = (unat (55 - ?x) + unat ?x) mod 64"
      by (rule mod_mod_cancel) simp
    ultimately have "(unat (55 - ?x) + unat ?x) mod 64 = 55" by simp
    then show ?thesis by (rule complement_mod)
  qed
  then show ?thesis
    unfolding mask take_bit_eq_mask [symmetric] unsigned_take_bit_eq by (simp add: take_bit_eq_mod x part)
qed

lemma padding_taken: "n < 64 \<Longrightarrow> take (n + 1) md5_padding = 0x80 # replicate n 0"
  by (simp add: md5_padding_def)

lemma finish_holds:
  assumes "holds bs pms"
  shows "md5_finish pms = rfc_md5 bs"
proof -
  let ?pad = "0x80 # replicate ((119 - length bs mod 64) mod 64) 0"
  let ?size = "le_bytes 8 (of_nat (8 * length bs) :: u64)"
  have pad: "take (unat ((55 - drop_bit 3 (count0 pms)) AND 63) + 1) md5_padding = ?pad"
    unfolding padding_length [OF assms] by (rule padding_taken) simp
  have size: "le_bytes 4 (count0 pms) @ le_bytes 4 (count1 pms) = ?size"
    using assms by (intro counts_word) (simp add: holds_def)
  have "holds ((bs @ ?pad) @ ?size) (md5_append ?size (md5_append ?pad pms))"
    by (intro holds_append assms) simp_all
  moreover have "(bs @ ?pad) @ ?size = rfc_pad bs" by (simp add: rfc_pad_def)
  moreover have "length (rfc_pad bs) mod 64 = 0"
  proof -
    define r where "r = length bs mod 64"
    then have "r < 64" by simp
    then have fill: "(r + (119 - r) mod 64 + 9) mod 64 = 0" by (cases "r \<le> 55") (auto simp: le_mod_geq)
    have "length (rfc_pad bs) = length bs + ((119 - r) mod 64 + 9)" by (simp add: rfc_pad_def r_def)
    then show ?thesis using fill mod_add_left_eq [of "length bs" 64 "(119 - r) mod 64 + 9"] by (simp add: add.assoc flip: r_def)
  qed
  ultimately show ?thesis
    using holds_end [of "rfc_pad bs"] by (simp only: md5_finish_def Let_def pad size rfc_md5_def)
qed

text \<open>Any number of pieces.\<close>

lemma holds_pieces:
  assumes "holds bs pms" "\<forall>p \<in> set ps. length p < 2 ^ 64"
  shows "holds (bs @ concat ps) (fold md5_append ps pms)"
  using assms
proof (induction ps arbitrary: bs pms)
  case (Cons p ps)
  from Cons.IH [of "bs @ p" "md5_append p pms"] holds_append [OF Cons.prems(1), of p] Cons.prems(2) show ?case by simp
qed simp

text \<open>
  C20: the digest is that of RFC 1321, for a message taken in any number of pieces of any size, and whatever the local
  state and the partial block held before. The number of bits is counted modulo 2 to the 64, as the standard asks, so there is
  no bound on the whole.
\<close>

theorem md5_is_rfc:
  assumes "length (md5_buf stack) = 64" "\<forall>p \<in> set ps. length p < 2 ^ 64"
  shows "md5_finish (fold md5_append ps (md5_init stack)) = rfc_md5 (concat ps)"
  using holds_pieces [OF holds_init [OF assms(1)] assms(2)] by (intro finish_holds) simp

theorem md5_is_rfc_witness:
  "md5_finish (fold md5_append [[0x61], [], [0x62, 0x63]]
     (md5_init \<lparr>count0 = 7, count1 = 7, abcd = (1, 2, 3, 4), md5_buf = replicate 64 9\<rparr>)) = rfc_md5 [0x61, 0x62, 0x63]"
  using md5_is_rfc [of "\<lparr>count0 = 7, count1 = 7, abcd = (1, 2, 3, 4), md5_buf = replicate 64 9\<rparr>" "[[0x61], [], [0x62, 0x63]]"] by simp

text \<open>The empty message and the word abc of the test suite of the RFC.\<close>

lemma rfc_test_suite:
  "rfc_md5 [] = [0xd4, 0x1d, 0x8c, 0xd9, 0x8f, 0x00, 0xb2, 0x04, 0xe9, 0x80, 0x09, 0x98, 0xec, 0xf8, 0x42, 0x7e]"
  "rfc_md5 [0x61, 0x62, 0x63] = [0x90, 0x01, 0x50, 0x98, 0x3c, 0xd2, 0x4f, 0xb0, 0xd6, 0x96, 0x3f, 0x7d, 0x28, 0xe1, 0x7f, 0x72]"
  by code_simp+

lemma md5_hash_string_rfc:
  assumes "length (md5_buf stack) = 64" "length s < 2 ^ 64"
  shows "md5_hash_string stack s = rfc_md5 s"
  using holds_append [OF holds_init [OF assms(1)] assms(2)] by (simp add: md5_hash_string_def finish_holds)

lemma length_buffer_bytes: "length (buffer_bytes q) = 16"
  by (cases q) simp

text \<open>The text form has two digits for each of the 16 octets, and the digits give the digest back.\<close>

definition hex_digit_value :: "char \<Rightarrow> nat" where
  "hex_digit_value c = length (takeWhile (\<lambda>d. d \<noteq> c) hexval)"

lemma hexval_value: "n < 16 \<Longrightarrow> hex_digit_value (hexval ! n) = n"
proof -
  assume "n < 16"
  moreover have "list_all (\<lambda>n. hex_digit_value (hexval ! n) = n) [0..<16]" by code_simp
  ultimately show ?thesis by (simp add: list_all_iff)
qed

fun hex_bytes :: "string \<Rightarrow> bytes" where
  "hex_bytes (c # d # cs) = of_nat (16 * hex_digit_value c + hex_digit_value d) # hex_bytes cs"
| "hex_bytes cs = []"

lemma hex_byte:
  fixes b :: u8
  shows "of_nat (16 * hex_digit_value (hexval ! unat (drop_bit 4 b AND 0xF)) + hex_digit_value (hexval ! unat (b AND 0x0F))) = b"
proof -
  have mask: "(15 :: u8) = mask 4" by (simp add: mask_eq_exp_minus_1)
  have "unat b div 16 < 16" by (rule less_mult_imp_div_less) simp
  then have high: "unat (drop_bit 4 b AND 15) = unat b div 16"
    unfolding mask take_bit_eq_mask [symmetric] unsigned_take_bit_eq unat_drop_bit_eq by (simp add: take_bit_eq_mod drop_bit_eq_div)
  have low: "unat (b AND 15) = unat b mod 16"
    unfolding mask take_bit_eq_mask [symmetric] unsigned_take_bit_eq by (simp add: take_bit_eq_mod)
  have "hex_digit_value (hexval ! (unat b div 16)) = unat b div 16" "hex_digit_value (hexval ! (unat b mod 16)) = unat b mod 16"
    by (rule hexval_value, fact, rule hexval_value, simp)
  then have "16 * hex_digit_value (hexval ! unat (drop_bit 4 b AND 15)) + hex_digit_value (hexval ! unat (b AND 15)) = unat b"
    unfolding high low by simp
  then show ?thesis by (simp only:) simp
qed

lemma md5_hash_hex_back: "hex_bytes (md5_hash_hex stack s) = md5_hash_string stack s"
proof -
  have "hex_bytes (concat (List.map (\<lambda>b. [hexval ! unat (drop_bit 4 b AND 0xF), hexval ! unat (b AND 0x0F)]) bs)) = bs" for bs :: bytes
    using hex_byte by (induction bs) (simp_all del: of_nat_add of_nat_mult)
  then show ?thesis by (simp add: md5_hash_hex_def)
qed

end
