(* ===== verification/Hybi00.thy ===== *)
theory Hybi00
  imports Handshake Message Md5
begin

text \<open>
  The processor of the draft without version numbers (\<^verbatim>\<open>processors/hybi00.hpp\<close>): text frames between an octet 0
  and an octet 255, and a handshake with two numbers hidden in keys and eight octets behind the
  header. The MD5 digest and whether the message manager has a buffer are arguments.
\<close>

subsection \<open>Handshake\<close>

definition hybi00_validate_handshake :: "request \<Rightarrow> ec" where
  "hybi00_validate_handshake r =
     (if m_method r \<noteq> ''GET'' then Some (Processor P_invalid_http_method)
      else if m_version r \<noteq> ''HTTP/1.1'' then Some (Processor P_invalid_http_version)
      else if get_header ''Sec-WebSocket-Key1'' r = [] \<or> get_header ''Sec-WebSocket-Key2'' r = [] \<or>
              get_header ''Sec-WebSocket-Key3'' r = []
      then Some (Processor P_missing_required_header)
      else None)"

text \<open>\<^verbatim>\<open>strtoul\<close> saturates at the largest \<^verbatim>\<open>unsigned long\<close>, which has 64 bits, and is then cut to 32 bits.\<close>

definition key_number :: "string \<Rightarrow> u32" where
  "key_number digits = of_nat (min (digits_value digits) 18446744073709551615)"

definition decode_client_key :: "string \<Rightarrow> bytes" where
  "decode_client_key key =
     (let spaces = of_nat (length (filter (\<lambda>c. c = CHR '' '') key)) :: u32;
          num = key_number (filter is_digit key)
      in if spaces > 0 \<and> num > 0 then rev (le_bytes 4 (num div spaces)) else [0, 0, 0, 0])"

text \<open>A third key shorter than 8 octets leaves the end of the buffer as it was: \<open>stack\<close> is what is there.\<close>

definition key_final :: "bytes \<Rightarrow> request \<Rightarrow> bytes" where
  "key_final stack req =
     (let key3 = take 8 (octets (get_header ''Sec-WebSocket-Key3'' req))
      in decode_client_key (get_header ''Sec-WebSocket-Key1'' req) @ decode_client_key (get_header ''Sec-WebSocket-Key2'' req) @
         key3 @ drop (length key3) stack)"

definition hybi00_get_uri :: "bool \<Rightarrow> request \<Rightarrow> uri" where
  "hybi00_get_uri secure r =
     (let h = get_header ''Host'' r in
      case rfind CHR '':'' h of
        None \<Rightarrow> uri_default secure h (m_uri r)
      | Some colon \<Rightarrow>
          if (case rfind CHR '']'' h of None \<Rightarrow> False | Some brace \<Rightarrow> brace > colon)
          then uri_default secure h (m_uri r)
          else uri_port_string secure (take colon h) (drop (colon + 1) h) (m_uri r))"

definition hybi00_process_handshake ::
  "(bytes \<Rightarrow> string) \<Rightarrow> bytes \<Rightarrow> bool \<Rightarrow> request \<Rightarrow> string \<Rightarrow> response \<Rightarrow> (ec \<times> response) http_result" where
  "hybi00_process_handshake md5 stack secure req subprotocol res =
     and_then (append_header ''Sec-WebSocket-Key3'' (md5 (key_final stack req)) res) (\<lambda>res.
     and_then (append_header ''Upgrade'' ''WebSocket'' res) (\<lambda>res.
     and_then (append_header ''Connection'' ''Upgrade'' res) (\<lambda>res.
     and_then (if get_header ''Sec-WebSocket-Origin'' res = []
               then append_header ''Sec-WebSocket-Origin'' (get_header ''Origin'' req) res else Value res) (\<lambda>res.
     and_then (if get_header ''Sec-WebSocket-Location'' res = []
               then append_header ''Sec-WebSocket-Location'' (uri_str (hybi00_get_uri secure req)) res else Value res) (\<lambda>res.
     Value (None, if subprotocol \<noteq> [] then replace_header ''Sec-WebSocket-Protocol'' subprotocol res else res))))))"

definition hybi00_client_handshake_request :: "request \<Rightarrow> uri \<Rightarrow> string list \<Rightarrow> ec" where
  "hybi00_client_handshake_request req u subprotocols = Some (Processor P_no_protocol_support)"

definition hybi00_validate_server_handshake_response :: "request \<Rightarrow> response \<Rightarrow> ec" where
  "hybi00_validate_server_handshake_response req res = Some (Processor P_no_protocol_support)"

definition hybi00_get_raw :: "response \<Rightarrow> string" where
  "hybi00_get_raw res =
     response_raw (remove_header ''Sec-WebSocket-Key3'' res) @ get_header ''Sec-WebSocket-Key3'' res"

definition hybi00_extract_subprotocols :: "request \<Rightarrow> string list \<Rightarrow> ec \<times> string list" where
  "hybi00_extract_subprotocols req names = (None, names)"

subsection \<open>Frames\<close>

datatype hybi00_state = H_header | H_payload | H_ready | H_fatal

record hybi00 =
  h_state :: hybi00_state
  h_msg :: "message option"

definition msg_hdr :: u8 where "msg_hdr = 0x00"
definition msg_ftr :: u8 where "msg_ftr = 0xff"

definition make_hybi00 :: hybi00 where
  "make_hybi00 = \<lparr>h_state = H_header, h_msg = None\<rparr>"

text \<open>
  The loop of \<^verbatim>\<open>consume\<close>: the octets left and the octets processed. In the state that reads a payload there is a
  message; nothing is read in the two other states.
\<close>

function hybi00_loop :: "message option \<Rightarrow> hybi00 \<Rightarrow> bytes \<Rightarrow> nat \<Rightarrow> (hybi00 \<times> nat \<times> ec) option" where
  "hybi00_loop buffer h buf p =
     (case buf of
        [] \<Rightarrow> Some (h, p, None)
      | b # rest \<Rightarrow>
          (case h_state h of
             H_header \<Rightarrow>
               if b = msg_hdr
               then case buffer of
                   None \<Rightarrow> Some (h\<lparr>h_msg := None, h_state := H_fatal\<rparr>, p + 1, Some (Lib E_no_incoming_buffers))
                 | Some m \<Rightarrow> hybi00_loop buffer (h\<lparr>h_msg := Some m, h_state := H_payload\<rparr>) rest (p + 1)
               else Some (h\<lparr>h_state := H_fatal\<rparr>, p, Some (Processor P_protocol_violation))
           | H_payload \<Rightarrow>
               (let part = takeWhile (\<lambda>c. c \<noteq> msg_ftr) buf in
                case h_msg h of
                  None \<Rightarrow> None
                | Some m \<Rightarrow>
                    let h' = h\<lparr>h_msg := Some (append_payload m part)\<rparr> in
                    if length part < length buf
                    then hybi00_loop buffer (h'\<lparr>h_state := H_ready\<rparr>) (drop (length part + 1) buf) (p + length part + 1)
                    else Some (h', p + length part, None))
           | _ \<Rightarrow> Some (h, p, None)))"
  by pat_completeness auto
termination
  by (relation "measure (\<lambda>(buffer, h, buf, p). length buf)") auto

declare hybi00_loop.simps [simp del]

definition hybi00_consume :: "hybi00 \<Rightarrow> bytes \<Rightarrow> (hybi00 \<times> nat \<times> ec) option" where
  "hybi00_consume h buf = hybi00_loop (alloc_get_message Text 1) h buf 0"

definition hybi00_ready :: "hybi00 \<Rightarrow> bool" where "hybi00_ready h \<longleftrightarrow> h_state h = H_ready"
definition hybi00_get_error :: "hybi00 \<Rightarrow> bool" where "hybi00_get_error h \<longleftrightarrow> False"

definition hybi00_get_message :: "hybi00 \<Rightarrow> message option \<times> hybi00" where
  "hybi00_get_message h = (h_msg h, h\<lparr>h_msg := None, h_state := H_header\<rparr>)"

definition hybi00_prepare_data_frame :: "message option \<Rightarrow> message option \<Rightarrow> ec \<times> message option" where
  "hybi00_prepare_data_frame in_msg out_msg =
     (case (in_msg, out_msg) of
        (Some i, Some out) \<Rightarrow>
          if msg_opcode i \<noteq> Text then (Some (Processor P_invalid_opcode), Some out)
          else if \<not> validate (msg_payload i) then (Some (Processor P_invalid_payload), Some out)
          else (None, Some (set_prepared (append_payload (set_payload (set_header out [msg_hdr]) (msg_payload i)) [msg_ftr]) True))
      | _ \<Rightarrow> (Some (Processor P_invalid_arguments), out_msg))"

definition hybi00_prepare_ping :: "bytes \<Rightarrow> message option \<Rightarrow> ec" where
  "hybi00_prepare_ping payload out = Some (Processor P_no_protocol_support)"

definition hybi00_prepare_pong :: "bytes \<Rightarrow> message option \<Rightarrow> ec" where
  "hybi00_prepare_pong payload out = Some (Processor P_no_protocol_support)"

definition hybi00_prepare_close :: "u16 \<Rightarrow> bytes \<Rightarrow> message option \<Rightarrow> ec \<times> message option" where
  "hybi00_prepare_close code reason out_msg =
     (case out_msg of
        None \<Rightarrow> (Some (Processor P_invalid_arguments), None)
      | Some out \<Rightarrow> (None, Some (set_prepared (set_payload out [0xff, 0x00]) True)))"

subsection \<open>Properties\<close>

lemma encoded_octets: "is_scalar c \<Longrightarrow> 0xFF \<notin> set (utf8_encode c)"
proof -
  assume c: "is_scalar c"
  have n: "(of_nat n :: u8) \<noteq> 0xFF" if "n < 255" for n
  proof
    assume "(of_nat n :: u8) = 0xFF"
    then have "unat (of_nat n :: u8) = unat (0xFF :: u8)" by simp
    with that show False by (simp add: unat_of_nat_small)
  qed
  have t: "tail_byte m \<noteq> 0xFF" for m using n [of "0x80 + m mod 64"] by (simp add: tail_byte_def)
  have "c < 0x110000" using c by (auto simp: is_scalar_def)
  then show ?thesis
    using n [of c] n [of "0xC0 + c div 64"] n [of "0xE0 + c div 4096"] n [of "0xF0 + c div 262144"] t
    by (auto simp: utf8_encode_def simp del: of_nat_add)
qed

lemma valid_without_footer: "validate s \<Longrightarrow> msg_ftr \<notin> set s"
  using encoded_octets by (auto simp: validate_runs runs_language msg_ftr_def list_all_iff)

lemma hybi00_loop_ready: "h_state h = H_ready \<Longrightarrow> hybi00_loop buffer h buf p = Some (h, p, None)"
  by (simp add: hybi00_loop.simps [of buffer h buf p] split: list.split)

lemma hybi00_loop_payload:
  assumes "h_state h = H_payload" "h_msg h = Some m" "msg_ftr \<notin> set part"
  shows "hybi00_loop buffer h part p = Some (h\<lparr>h_msg := Some (append_payload m part)\<rparr>, p + length part, None)"
    and "hybi00_loop buffer h (part @ msg_ftr # rest) p =
      Some (h\<lparr>h_msg := Some (append_payload m part), h_state := H_ready\<rparr>, p + length part + 1, None)"
proof -
  have all: "list_all (\<lambda>c. c \<noteq> msg_ftr) part" using assms(3) by (auto simp: list_all_iff)
  have keep: "h\<lparr>h_msg := Some (append_payload m [])\<rparr> = h"
    using assms(2) by (cases h) (simp add: append_payload_def)
  show "hybi00_loop buffer h part p = Some (h\<lparr>h_msg := Some (append_payload m part)\<rparr>, p + length part, None)"
  proof (cases part)
    case Nil
    then show ?thesis using keep by (simp add: hybi00_loop.simps [of buffer h "[]" p])
  next
    case (Cons a l)
    then show ?thesis
      using takeWhile_list_all [OF all] assms(1,2)
      by (simp add: hybi00_loop.simps [of buffer h "a # l" p] Let_def)
  qed
  have tw: "takeWhile (\<lambda>c. c \<noteq> msg_ftr) (part @ msg_ftr # rest) = part"
    using takeWhile_dropWhile_stop [OF all, of msg_ftr rest] by simp
  obtain c cs where c: "part @ msg_ftr # rest = c # cs" by (cases part) auto
  have "length part < length (part @ msg_ftr # rest)" "drop (length part + 1) (part @ msg_ftr # rest) = rest" by simp_all
  then have "hybi00_loop buffer h (c # cs) p =
      hybi00_loop buffer (h\<lparr>h_msg := Some (append_payload m part), h_state := H_ready\<rparr>) rest (p + length part + 1)"
    using tw assms(1,2) unfolding c by (simp add: hybi00_loop.simps [of buffer h "c # cs" p] Let_def)
  then show "hybi00_loop buffer h (part @ msg_ftr # rest) p =
      Some (h\<lparr>h_msg := Some (append_payload m part), h_state := H_ready\<rparr>, p + length part + 1, None)"
    by (simp add: c hybi00_loop_ready)
qed

text \<open>
  A text message of the draft protocol arrives. Valid UTF-8 holds no octet 255, so what \<^verbatim>\<open>prepare_data_frame\<close> makes
  of a valid text is read by a fresh processor up to its last octet, in one piece or cut anywhere
  behind its first octet, and handed over unchanged; a message that is not valid UTF-8 is not sent.
\<close>

theorem hybi00_text_exchange:
  assumes "hybi00_prepare_data_frame (Some m) (Some out) = (e, Some w)" "xs @ ys = msg_payload w @ rest"
    and "length xs \<le> length (msg_payload m)"
  shows "if msg_opcode m = Text \<and> validate (msg_payload m)
    then \<exists>h1 h2 d. e = None \<and>
      hybi00_consume make_hybi00 (msg_header w @ xs) = Some (h1, Suc (length xs), None) \<and>
      hybi00_consume h1 ys = Some (h2, length (msg_payload w) - length xs, None) \<and>
      hybi00_ready h2 \<and> fst (hybi00_get_message h2) = Some d \<and> msg_payload d = msg_payload m \<and>
      snd (hybi00_get_message h2) = make_hybi00
    else e \<noteq> None \<and> w = out"
proof (cases "msg_opcode m = Text \<and> validate (msg_payload m)")
  case True
  define s where "s = msg_payload m"
  have w: "msg_header w = [0]" "msg_payload w = s @ [msg_ftr]" "e = None"
    using assms(1) True by (auto simp: hybi00_prepare_data_frame_def set_prepared_def append_payload_def set_payload_def
        set_header_def msg_hdr_def s_def)
  have ftr: "msg_ftr \<notin> set s" using True valid_without_footer by (simp add: s_def)
  obtain zs where zs: "s = xs @ zs" "ys = zs @ msg_ftr # rest"
  proof (rule that)
    have "xs = take (length xs) (s @ msg_ftr # rest)" using assms(2) w(2) by (metis append.assoc append_Cons append_Nil append_eq_conv_conj)
    then show s: "s = xs @ drop (length xs) s" using assms(3) by (simp add: s_def) (metis append_take_drop_id)
    have "xs @ ys = xs @ drop (length xs) s @ msg_ftr # rest" using assms(2) w(2) s by (metis append.assoc append_Cons append_Nil)
    then show "ys = drop (length xs) s @ msg_ftr # rest" by simp
  qed
  have part: "msg_ftr \<notin> set xs" "msg_ftr \<notin> set zs" using ftr zs(1) by auto
  define b where "b = make_message Text 1"
  define h1 where "h1 = \<lparr>h_state = H_payload, h_msg = Some (append_payload b xs)\<rparr>"
  define h2 where "h2 = \<lparr>h_state = H_ready, h_msg = Some (append_payload (append_payload b xs) zs)\<rparr>"
  have c1: "hybi00_consume make_hybi00 (msg_header w @ xs) = Some (h1, Suc (length xs), None)"
    using hybi00_loop_payload(1) [of "\<lparr>h_state = H_payload, h_msg = Some b\<rparr>" b xs "Some b" 1] part(1)
    by (simp add: hybi00_consume_def w make_hybi00_def alloc_get_message_def msg_hdr_def b_def [symmetric] h1_def
        hybi00_loop.simps [of _ _ "0 # xs"])
  have c2: "hybi00_consume h1 ys = Some (h2, length (msg_payload w) - length xs, None)"
    using hybi00_loop_payload(2) [of h1 "append_payload b xs" zs "Some b" rest 0] part(2) zs
    by (simp add: hybi00_consume_def alloc_get_message_def b_def [symmetric] h1_def h2_def w)
  have "msg_payload (append_payload (append_payload b xs) zs) = s"
    by (simp add: append_payload_def zs(1) b_def)
  then show ?thesis
    using True w(3) c1 c2
    by (auto simp: hybi00_ready_def hybi00_get_message_def h2_def s_def make_hybi00_def)
next
  case False
  then show ?thesis using assms(1) by (auto simp: hybi00_prepare_data_frame_def split: if_splits)
qed

theorem hybi00_text_exchange_witness:
  "\<exists>h1 h2 d. hybi00_consume make_hybi00 [0, 0x48] = Some (h1, 2, None) \<and>
     hybi00_consume h1 [0x69, 0xFF, 0] = Some (h2, 2, None) \<and>
     hybi00_ready h2 \<and> fst (hybi00_get_message h2) = Some d \<and> msg_payload d = [0x48, 0x69]"
proof -
  define m where "m = (make_message Text 0)\<lparr>msg_payload := [0x48, 0x69]\<rparr>"
  define out where "out = make_message Text 0"
  define w where "w = out\<lparr>msg_header := [0], msg_payload := [0x48, 0x69, 0xFF], msg_prepared := True\<rparr>"
  have v: "validate [0x48, 0x69]" by code_simp
  then have p: "hybi00_prepare_data_frame (Some m) (Some out) = (None, Some w)"
    by (simp add: hybi00_prepare_data_frame_def m_def w_def out_def make_message_def set_prepared_def append_payload_def
        set_payload_def set_header_def msg_hdr_def msg_ftr_def)
  have "msg_opcode m = Text \<and> validate (msg_payload m)" using v by (simp add: m_def)
  then show ?thesis
    using hybi00_text_exchange [OF p, of "[0x48]" "[0x69, 0xFF, 0]" "[0]"]
    by (fastforce simp: w_def m_def numeral_2_eq_2)
qed


subsection \<open>The answer of the draft\<close>

lemma draft_names:
  "List.map to_lower [''Sec-WebSocket-Key3'', ''Upgrade'', ''Connection'', ''Sec-WebSocket-Origin'', ''Sec-WebSocket-Location''] =
   [''sec-websocket-key3'', ''upgrade'', ''connection'', ''sec-websocket-origin'', ''sec-websocket-location'']"
  "\<not> list_ex is_not_token_char ''Sec-WebSocket-Key3''" "\<not> list_ex is_not_token_char ''Upgrade''"
  "\<not> list_ex is_not_token_char ''Connection''" "\<not> list_ex is_not_token_char ''Sec-WebSocket-Origin''"
  "\<not> list_ex is_not_token_char ''Sec-WebSocket-Location''"
  by code_simp+

lemma append_header_token:
  "\<not> list_ex is_not_token_char k \<Longrightarrow> append_header k v p =
    Value (p\<lparr>m_headers := map_put to_lower k (if get_header k p = [] then v else get_header k p @ '', '' @ v) (m_headers p)\<rparr>)"
  by (simp add: append_header_def get_header_def)

definition draft_headers :: "string \<Rightarrow> string \<Rightarrow> string \<Rightarrow> header_list" where
  "draft_headers digest origin location =
     [(''Connection'', ''Upgrade''), (''Sec-WebSocket-Key3'', digest), (''Sec-WebSocket-Location'', location),
      (''Sec-WebSocket-Origin'', origin), (''Upgrade'', ''WebSocket'')]"

lemma draft_handshake_headers:
  assumes "m_headers res = []"
  shows "hybi00_process_handshake md5 stack secure req [] res =
    Value (None, res\<lparr>m_headers := draft_headers (md5 (key_final stack req)) (get_header ''Origin'' req) (uri_str (hybi00_get_uri secure req))\<rparr>)"
  using draft_names assms
  by (simp add: hybi00_process_handshake_def append_header_token get_header_def draft_headers_def)



end
