(* ===== verification/Hybi13.thy ===== *)
theory Hybi13
  imports Message Close_Status
begin

text \<open>
  The RFC 6455 frame processor of \<^verbatim>\<open>websocketpp/processors/hybi13.hpp\<close>: the incoming state machine
  (\<^verbatim>\<open>consume\<close> with its header and payload readers and validation), message hand-over, and the
  construction of outgoing data and control frames.

  Parameters stand for code outside the modelled sources: \<open>inflate\<close> is what one call of the
  negotiated extension's \<^verbatim>\<open>decompress\<close> appends to the message (its return code is not looked at),
  \<open>deflate\<close> the buffer left by \<^verbatim>\<open>compress\<close>, and \<open>rnd\<close> the value drawn from \<^verbatim>\<open>m_rng\<close>. Sizes and the
  number of bytes needed are 64-bit words, as \<^verbatim>\<open>size_t\<close> is on the plugin's hosts.
\<close>

subsection \<open>Processor state\<close>

datatype processor_state =
  HEADER_BASIC | HEADER_EXTENDED | EXTENSION | APPLICATION | READY | FATAL_ERROR

record msg_metadata =
  msg_ptr :: "message option"
  prepared_key :: u64
  msg_validator :: validator

datatype current_msg = No_msg | Data_msg | Control_msg

record 'z hybi13 =
  m_server :: bool
  m_max_message_size :: u64
  pmd_enabled :: bool
  pmd_stream :: 'z
  m_basic_header :: basic_header
  m_bytes_needed :: u64
  m_cursor :: nat
  m_data_msg :: msg_metadata
  m_control_msg :: msg_metadata
  m_current_msg :: current_msg
  m_extended_header :: extended_header
  proc_state :: processor_state

definition make_metadata :: "message option \<Rightarrow> u32 \<Rightarrow> msg_metadata" where
  "make_metadata m key =
     \<lparr>msg_ptr = m, prepared_key = prepare_masking_key key, msg_validator = validator_init\<rparr>"

definition empty_metadata :: msg_metadata where
  "empty_metadata = \<lparr>msg_ptr = None, prepared_key = 0, msg_validator = validator_init\<rparr>"

definition reset_headers :: "'z hybi13 \<Rightarrow> 'z hybi13" where
  "reset_headers h =
     h\<lparr>proc_state := HEADER_BASIC, m_bytes_needed := of_nat BASIC_HEADER_LENGTH,
       m_basic_header := \<lparr>b0 = 0, b1 = 0\<rparr>,
       m_extended_header := \<lparr>ext_bytes = replicate MAX_EXTENDED_HEADER_LENGTH 0\<rparr>\<rparr>"

definition make_hybi13 :: "bool \<Rightarrow> u64 \<Rightarrow> bool \<Rightarrow> 'z \<Rightarrow> 'z hybi13" where
  "make_hybi13 is_server max_size enabled z = reset_headers
     \<lparr>m_server = is_server, m_max_message_size = max_size, pmd_enabled = enabled, pmd_stream = z,
      m_basic_header = \<lparr>b0 = 0, b1 = 0\<rparr>, m_bytes_needed = 0, m_cursor = 0,
      m_data_msg = empty_metadata, m_control_msg = empty_metadata, m_current_msg = No_msg,
      m_extended_header = \<lparr>ext_bytes = []\<rparr>, proc_state = HEADER_BASIC\<rparr>"

definition current_metadata :: "'z hybi13 \<Rightarrow> msg_metadata" where
  "current_metadata h = (if m_current_msg h = Control_msg then m_control_msg h else m_data_msg h)"

definition set_current_metadata :: "'z hybi13 \<Rightarrow> msg_metadata \<Rightarrow> 'z hybi13" where
  "set_current_metadata h md =
     (if m_current_msg h = Control_msg then h\<lparr>m_control_msg := md\<rparr> else h\<lparr>m_data_msg := md\<rparr>)"

subsection \<open>Header readers and validation\<close>

definition copy_basic_header_bytes :: "'z hybi13 \<Rightarrow> bytes \<Rightarrow> 'z hybi13 \<times> nat" where
  "copy_basic_header_bytes h buf =
     (if length buf = 0 \<or> m_bytes_needed h = 0 then (h, 0)
      else if length buf > 1 then
        if m_bytes_needed h = 2
        then (h\<lparr>m_basic_header := \<lparr>b0 = buf ! 0, b1 = buf ! 1\<rparr>, m_bytes_needed := m_bytes_needed h - 2\<rparr>, 2)
        else (h\<lparr>m_basic_header := (m_basic_header h)\<lparr>b1 := buf ! 0\<rparr>, m_bytes_needed := m_bytes_needed h - 1\<rparr>, 1)
      else
        if m_bytes_needed h = 2
        then (h\<lparr>m_basic_header := (m_basic_header h)\<lparr>b0 := buf ! 0\<rparr>, m_bytes_needed := m_bytes_needed h - 1\<rparr>, 1)
        else (h\<lparr>m_basic_header := (m_basic_header h)\<lparr>b1 := buf ! 0\<rparr>, m_bytes_needed := m_bytes_needed h - 1\<rparr>, 1))"

definition copy_extended_header_bytes :: "'z hybi13 \<Rightarrow> bytes \<Rightarrow> 'z hybi13 \<times> nat" where
  "copy_extended_header_bytes h buf =
     (let bytes_to_read = min (unat (m_bytes_needed h)) (length buf)
      in (h\<lparr>m_extended_header :=
              \<lparr>ext_bytes = overwrite (ext_bytes (m_extended_header h)) (m_cursor h) (take bytes_to_read buf)\<rparr>,
            m_cursor := m_cursor h + bytes_to_read,
            m_bytes_needed := m_bytes_needed h - of_nat bytes_to_read\<rparr>,
          bytes_to_read))"

definition validate_incoming_basic_header :: "bool \<Rightarrow> basic_header \<Rightarrow> bool \<Rightarrow> bool \<Rightarrow> ec" where
  "validate_incoming_basic_header enabled h is_server new_msg =
     (let op = get_opcode h in
      if is_control op \<and> unat (get_basic_size h) > payload_size_basic
      then Some (Processor P_control_too_big)
      else if get_rsv1 h \<and> (\<not> enabled \<or> is_control op) then Some (Processor P_invalid_rsv_bit)
      else if get_rsv2 h \<or> get_rsv3 h then Some (Processor P_invalid_rsv_bit)
      else if opcode_reserved op then Some (Processor P_invalid_opcode)
      else if opcode_invalid op then Some (Processor P_invalid_opcode)
      else if is_control op \<and> \<not> get_fin h then Some (Processor P_fragmented_control)
      else if new_msg \<and> op = Continuation then Some (Processor P_invalid_continuation)
      else if \<not> new_msg \<and> \<not> is_control op \<and> op \<noteq> Continuation
      then Some (Processor P_invalid_continuation)
      else if is_server \<and> \<not> get_masked h then Some (Processor P_masking_required)
      else if \<not> is_server \<and> get_masked h then Some (Processor P_masking_forbidden)
      else None)"

text \<open>The branch for 32-bit hosts is dead on the 64-bit ones modelled here.\<close>

definition validate_incoming_extended_header :: "basic_header \<Rightarrow> extended_header \<Rightarrow> ec" where
  "validate_incoming_extended_header h e =
     (let basic_size = get_basic_size h; payload_size = get_payload_size h e in
      if basic_size = payload_size_code_16bit \<and> unat payload_size \<le> payload_size_basic
      then Some (Processor P_non_minimal_encoding)
      else if basic_size = payload_size_code_64bit \<and> unat payload_size \<le> payload_size_extended
      then Some (Processor P_non_minimal_encoding)
      else None)"

definition process_payload_bytes ::
  "('z \<Rightarrow> bytes \<Rightarrow> bytes \<times> 'z) \<Rightarrow> 'z hybi13 \<Rightarrow> bytes \<Rightarrow> 'z hybi13 \<times> nat \<times> ec" where
  "process_payload_bytes inflate h buf =
     (let md = current_metadata h;
          (data, key) = (if get_masked (m_basic_header h)
                         then word_mask_circ buf (length buf) (prepared_key md)
                         else (buf, prepared_key md));
          msg = the (msg_ptr md);
          old = length (msg_payload msg);
          compressed = (pmd_enabled h \<and> get_rsv1 (m_basic_header h));
          (added, z) = (if compressed then inflate (pmd_stream h) data else (data, pmd_stream h));
          out = msg_payload msg @ added;
          offset = (if compressed then length out - old else old);
          msg' = msg\<lparr>msg_payload := out\<rparr>;
          (ok, val) = (if msg_opcode msg = Text
                       then validator_decode (msg_validator md) (drop offset out)
                       else (True, msg_validator md));
          h' = (set_current_metadata h
                  (md\<lparr>msg_ptr := Some msg', prepared_key := key, msg_validator := val\<rparr>))\<lparr>pmd_stream := z\<rparr>
      in if ok then (h'\<lparr>m_bytes_needed := m_bytes_needed h - of_nat (length buf)\<rparr>, length buf, None)
         else (h', 0, Some (Processor P_invalid_utf8)))"

subsection \<open>The consume loop\<close>

text \<open>
  One iteration of the loop ends by going on, by leaving the loop with an error, or by returning 0
  with the general error.
\<close>

datatype 'z step_result =
    Go_on "'z hybi13" nat
  | Break_out "'z hybi13" nat error_code
  | Give_up "'z hybi13" error_code

definition step_header_basic :: "'z hybi13 \<Rightarrow> bytes \<Rightarrow> 'z step_result" where
  "step_header_basic h buf =
     (let (h1, n) = copy_basic_header_bytes h buf in
      if m_bytes_needed h1 > 0 then Go_on h1 n
      else case validate_incoming_basic_header (pmd_enabled h1) (m_basic_header h1) (m_server h1)
             (msg_ptr (m_data_msg h1) = None) of
        Some e \<Rightarrow> Break_out h1 n e
      | None \<Rightarrow>
          Go_on (h1\<lparr>proc_state := HEADER_EXTENDED, m_cursor := 0,
                    m_bytes_needed := of_nat (get_header_len (m_basic_header h1) - BASIC_HEADER_LENGTH)\<rparr>) n)"

definition start_message :: "'z hybi13 \<Rightarrow> ec \<times> 'z hybi13" where
  "start_message h =
     (let op = get_opcode (m_basic_header h);
          key = get_masking_key (m_basic_header h) (m_extended_header h)
      in if is_control op then
           (None, h\<lparr>m_control_msg := make_metadata (alloc_get_message op (m_bytes_needed h)) key,
                    m_current_msg := Control_msg\<rparr>)
         else case msg_ptr (m_data_msg h) of
           None \<Rightarrow>
             if m_bytes_needed h > m_max_message_size h then (Some (Processor P_message_too_big), h)
             else (None, h\<lparr>m_data_msg := make_metadata (alloc_get_message op (m_bytes_needed h)) key,
                           m_current_msg := Data_msg\<rparr>)
         | Some m \<Rightarrow>
             if of_nat (length (msg_payload m)) + m_bytes_needed h > m_max_message_size h
             then (Some (Processor P_message_too_big), h)
             else (None, h\<lparr>m_data_msg := (m_data_msg h)\<lparr>prepared_key := prepare_masking_key key\<rparr>,
                           m_current_msg := Data_msg\<rparr>))"

definition step_header_extended :: "'z hybi13 \<Rightarrow> bytes \<Rightarrow> 'z step_result" where
  "step_header_extended h buf =
     (let (h1, n) = copy_extended_header_bytes h buf in
      if m_bytes_needed h1 > 0 then Go_on h1 n
      else case validate_incoming_extended_header (m_basic_header h1) (m_extended_header h1) of
        Some e \<Rightarrow> Break_out h1 n e
      | None \<Rightarrow>
          (case start_message
             (h1\<lparr>proc_state := APPLICATION,
                 m_bytes_needed := get_payload_size (m_basic_header h1) (m_extended_header h1)\<rparr>) of
             (Some e, h2) \<Rightarrow> Break_out h2 n e
           | (None, h2) \<Rightarrow> Go_on h2 n))"

definition finish_frame :: "'z hybi13 \<Rightarrow> ec \<times> 'z hybi13" where
  "finish_frame h =
     (if get_fin (m_basic_header h) then
        if get_opcode (m_basic_header h) = Text \<and> \<not> complete (msg_validator (current_metadata h))
        then (Some (Processor P_invalid_utf8), h)
        else (None, h\<lparr>proc_state := READY\<rparr>)
      else (None, reset_headers h))"

definition step_application ::
  "('z \<Rightarrow> bytes \<Rightarrow> bytes \<times> 'z) \<Rightarrow> 'z hybi13 \<Rightarrow> bytes \<Rightarrow> 'z step_result" where
  "step_application inflate h buf =
     (let bytes_to_process = min (unat (m_bytes_needed h)) (length buf);
          (h1, n, err) = (if bytes_to_process > 0
                          then process_payload_bytes inflate h (take bytes_to_process buf)
                          else (h, 0, None))
      in case err of
           Some e \<Rightarrow> Break_out h1 n e
         | None \<Rightarrow>
             if m_bytes_needed h1 > 0 then Go_on h1 n
             else (case finish_frame h1 of
                     (Some e, h2) \<Rightarrow> Break_out h2 n e
                   | (None, h2) \<Rightarrow> Go_on h2 n))"

definition consume_step ::
  "('z \<Rightarrow> bytes \<Rightarrow> bytes \<times> 'z) \<Rightarrow> 'z hybi13 \<Rightarrow> bytes \<Rightarrow> 'z step_result" where
  "consume_step inflate h buf =
     (case proc_state h of
        HEADER_BASIC \<Rightarrow> step_header_basic h buf
      | HEADER_EXTENDED \<Rightarrow> step_header_extended h buf
      | EXTENSION \<Rightarrow> Go_on (h\<lparr>proc_state := APPLICATION\<rparr>) 0
      | APPLICATION \<Rightarrow> step_application inflate h buf
      | _ \<Rightarrow> Give_up h (Processor P_general))"

definition keep_going :: "'z hybi13 \<Rightarrow> bytes \<Rightarrow> bool" where
  "keep_going h buf \<longleftrightarrow>
     proc_state h \<noteq> READY \<and> proc_state h \<noteq> FATAL_ERROR \<and> (buf \<noteq> [] \<or> m_bytes_needed h = 0)"

text \<open>Rank of a state with nothing left to read for its current field.\<close>

definition idle_rank :: "'z hybi13 \<Rightarrow> nat" where
  "idle_rank h =
     (case proc_state h of
        HEADER_BASIC \<Rightarrow> (if m_bytes_needed h = 0 then 4 else 0)
      | HEADER_EXTENDED \<Rightarrow> 3
      | EXTENSION \<Rightarrow> 2
      | APPLICATION \<Rightarrow> 1
      | _ \<Rightarrow> 0)"

lemma min_unat_pos: "m_bytes_needed h \<noteq> 0 \<Longrightarrow> buf \<noteq> [] \<Longrightarrow> 0 < min (unat (m_bytes_needed h)) (length buf)"
  by (simp add: unat_gt_0)

lemma proc_state_set_current [simp]: "proc_state (set_current_metadata h md) = proc_state h"
  by (simp add: set_current_metadata_def)

lemma process_payload_bytes_progress:
  "process_payload_bytes inflate h buf = (h', n, None) \<Longrightarrow> n = length buf \<and> proc_state h' = proc_state h"
  by (auto simp: process_payload_bytes_def Let_def split: prod.splits if_splits)

lemma start_message_state: "start_message h = (e, h') \<Longrightarrow> proc_state h' = proc_state h"
  by (auto simp: start_message_def Let_def split: if_splits option.splits)

lemma consume_step_decreases:
  assumes "keep_going h buf" and "consume_step inflate h buf = Go_on h' n"
  shows "n \<le> length buf \<and> (0 < n \<or> idle_rank h' < idle_rank h)"
proof (cases "proc_state h")
  case HEADER_BASIC
  then have s: "step_header_basic h buf = Go_on h' n" using assms(2) by (simp add: consume_step_def)
  show ?thesis
  proof (cases "m_bytes_needed h = 0")
    case True
    then show ?thesis using s HEADER_BASIC
      by (auto simp: step_header_basic_def copy_basic_header_bytes_def idle_rank_def split: option.splits)
  next
    case False
    then have "buf \<noteq> []" using assms(1) by (simp add: keep_going_def)
    then have "length buf \<noteq> 0" "length buf = Suc 0 \<or> Suc 0 < length buf" by (cases buf; simp)+
    then show ?thesis using s False
      by (auto simp: step_header_basic_def copy_basic_header_bytes_def Let_def
          split: option.splits if_splits)
  qed
next
  case HEADER_EXTENDED
  then have s: "step_header_extended h buf = Go_on h' n" using assms(2) by (simp add: consume_step_def)
  have n: "n = min (unat (m_bytes_needed h)) (length buf)"
    using s by (auto simp: step_header_extended_def copy_extended_header_bytes_def Let_def
        split: option.splits if_splits prod.splits)
  show ?thesis
  proof (cases "m_bytes_needed h = 0")
    case True
    then show ?thesis using s HEADER_EXTENDED n
      by (auto simp: step_header_extended_def copy_extended_header_bytes_def Let_def idle_rank_def
          split: option.splits prod.splits dest!: start_message_state)
  next
    case False
    then have "buf \<noteq> []" using assms(1) by (simp add: keep_going_def)
    from min_unat_pos [OF False this] n show ?thesis by simp
  qed
next
  case EXTENSION
  then show ?thesis using assms(2) by (auto simp: consume_step_def idle_rank_def)
next
  case APPLICATION
  then have s: "step_application inflate h buf = Go_on h' n" using assms(2) by (simp add: consume_step_def)
  show ?thesis
  proof (cases "m_bytes_needed h = 0")
    case True
    then show ?thesis using s APPLICATION
      by (auto simp: step_application_def Let_def finish_frame_def reset_headers_def idle_rank_def
          BASIC_HEADER_LENGTH_def split: if_splits)
  next
    case False
    then have pos: "0 < min (unat (m_bytes_needed h)) (length buf)"
      using assms(1) by (intro min_unat_pos) (simp_all add: keep_going_def)
    then obtain h1 k where
      "process_payload_bytes inflate h (take (min (unat (m_bytes_needed h)) (length buf)) buf) = (h1, k, None)"
      "n = k"
      using s by (auto simp: step_application_def Let_def split: prod.splits option.splits if_splits)
    then have "n = min (unat (m_bytes_needed h)) (length buf)"
      by (auto dest!: process_payload_bytes_progress)
    with pos show ?thesis by simp
  qed
next
  case READY
  then show ?thesis using assms(1) by (simp add: keep_going_def)
next
  case FATAL_ERROR
  then show ?thesis using assms(1) by (simp add: keep_going_def)
qed

function consume_loop ::
  "('z \<Rightarrow> bytes \<Rightarrow> bytes \<times> 'z) \<Rightarrow> 'z hybi13 \<Rightarrow> bytes \<Rightarrow> nat \<Rightarrow> 'z hybi13 \<times> nat \<times> ec" where
  "consume_loop inflate h buf p =
     (if keep_going h buf then
        (case consume_step inflate h buf of
           Go_on h' n \<Rightarrow> consume_loop inflate h' (drop n buf) (p + n)
         | Break_out h' n e \<Rightarrow> (h', p + n, Some e)
         | Give_up h' e \<Rightarrow> (h', 0, Some e))
      else (h, p, None))"
  by pat_completeness auto
termination
proof (relation "measures [\<lambda>(inflate, h, buf, p). length buf, \<lambda>(inflate, h, buf, p). idle_rank h]", goal_cases)
  case (2 inflate h buf p h' n)
  with consume_step_decreases [OF 2] show ?case by (cases "n = 0") auto
qed simp

definition consume :: "('z \<Rightarrow> bytes \<Rightarrow> bytes \<times> 'z) \<Rightarrow> 'z hybi13 \<Rightarrow> bytes \<Rightarrow> 'z hybi13 \<times> nat \<times> ec" where
  "consume inflate h buf = consume_loop inflate h buf 0"

declare consume_loop.simps [simp del]

subsection \<open>Message hand-over\<close>

definition ready :: "'z hybi13 \<Rightarrow> bool" where
  "ready h \<longleftrightarrow> proc_state h = READY"

definition get_error :: "'z hybi13 \<Rightarrow> bool" where
  "get_error h \<longleftrightarrow> proc_state h = FATAL_ERROR"

definition get_bytes_needed :: "'z hybi13 \<Rightarrow> u64" where
  "get_bytes_needed h = m_bytes_needed h"

definition get_message :: "'z hybi13 \<Rightarrow> message option \<times> 'z hybi13" where
  "get_message h =
     (if \<not> ready h then (None, h)
      else let ret = msg_ptr (current_metadata h);
               h1 = set_current_metadata h ((current_metadata h)\<lparr>msg_ptr := None\<rparr>);
               h2 = (if is_control (msg_opcode (the ret))
                     then h1\<lparr>m_control_msg := (m_control_msg h1)\<lparr>msg_ptr := None\<rparr>\<rparr>
                     else h1\<lparr>m_data_msg := (m_data_msg h1)\<lparr>msg_ptr := None\<rparr>\<rparr>)
           in (ret, reset_headers h2))"

subsection \<open>Outgoing frames\<close>

definition masked_copy :: "bytes \<Rightarrow> u32 \<Rightarrow> bytes" where
  "masked_copy i key = word_mask_exact i (length i) key"

definition prepare_data_frame ::
  "(bytes \<Rightarrow> bytes \<Rightarrow> bytes) \<Rightarrow> bool \<Rightarrow> bool \<Rightarrow> u32 \<Rightarrow> message option \<Rightarrow> message option \<Rightarrow> ec \<times> message option" where
  "prepare_data_frame deflate is_server enabled rnd inp out =
     (case (inp, out) of
        (Some im, Some om) \<Rightarrow>
          let op = msg_opcode im; i = msg_payload im; o' = msg_payload om in
          if is_control op then (Some (Processor P_invalid_opcode), out)
          else if op = Text \<and> \<not> validate i then (Some (Processor P_invalid_payload), out)
          else
            let masked = (\<not> is_server);
                compressed = (enabled \<and> msg_compressed im);
                fin = msg_fin im;
                h = make_basic_header op (of_nat (length i)) fin masked compressed False False;
                e = (if masked then extended_header_masked (of_nat (length i)) rnd
                     else extended_header_sized (of_nat (length i)));
                om1 = set_header om (prepare_header h e);
                payload = (if compressed
                           then let z = deflate i o' in if masked then masked_copy z rnd else z
                           else if masked then masked_copy i rnd else i)
            in (None, Some (set_prepared (set_payload om1 payload) True))
      | _ \<Rightarrow> (Some (Processor P_invalid_arguments), out))"

definition prepare_control ::
  "bool \<Rightarrow> u32 \<Rightarrow> opcode \<Rightarrow> bytes \<Rightarrow> message option \<Rightarrow> ec \<times> message option" where
  "prepare_control is_server rnd op payload out =
     (case out of
        None \<Rightarrow> (Some (Processor P_invalid_arguments), out)
      | Some om \<Rightarrow>
          if \<not> is_control op then (Some (Processor P_invalid_opcode), out)
          else if length payload > payload_size_basic then (Some (Processor P_control_too_big), out)
          else
            let masked = (\<not> is_server);
                h = make_basic_header op (of_nat (length payload)) True masked False False False;
                e = (if masked then extended_header_masked (of_nat (length payload)) rnd
                     else extended_header_sized (of_nat (length payload)));
                om1 = set_header om (prepare_header h e);
                om2 = set_payload om1 (if masked then masked_copy payload rnd else payload)
            in (None, Some (set_prepared om2 True)))"

definition prepare_ping :: "bool \<Rightarrow> u32 \<Rightarrow> bytes \<Rightarrow> message option \<Rightarrow> ec \<times> message option" where
  "prepare_ping is_server rnd inp out = prepare_control is_server rnd Ping inp out"

definition prepare_pong :: "bool \<Rightarrow> u32 \<Rightarrow> bytes \<Rightarrow> message option \<Rightarrow> ec \<times> message option" where
  "prepare_pong is_server rnd inp out = prepare_control is_server rnd Pong inp out"

definition prepare_close ::
  "bool \<Rightarrow> u32 \<Rightarrow> u16 \<Rightarrow> bytes \<Rightarrow> message option \<Rightarrow> ec \<times> message option" where
  "prepare_close is_server rnd code reason out =
     (if status_reserved code then (Some (Processor P_reserved_close_code), out)
      else if status_invalid code \<and> code \<noteq> status_no_status
      then (Some (Processor P_invalid_close_code), out)
      else if code = status_no_status \<and> length reason > 0
      then (Some (Processor P_reason_requires_code), out)
      else if length reason > payload_size_basic - 2 then (Some (Processor P_control_too_big), out)
      else
        let payload = (if code \<noteq> status_no_status then le_bytes 2 (ntohs code) @ reason else [])
        in prepare_control is_server rnd Close payload out)"

subsection \<open>Running the loop over one frame\<close>

definition idle :: "'z hybi13 \<Rightarrow> bool" where
  "idle h \<longleftrightarrow> proc_state h = HEADER_BASIC \<and> m_bytes_needed h = 2 \<and>
     ext_bytes (m_extended_header h) = replicate 12 0"

lemma idle_reset_headers [simp]: "idle (reset_headers h)"
  by (simp add: idle_def reset_headers_def BASIC_HEADER_LENGTH_def MAX_EXTENDED_HEADER_LENGTH_def)

lemma idle_make_hybi13 [simp]: "idle (make_hybi13 srv mx en z)"
  by (simp add: make_hybi13_def)

definition after_header :: "'z hybi13 \<Rightarrow> basic_header \<Rightarrow> bytes \<Rightarrow> u64 \<Rightarrow> 'z hybi13" where
  "after_header h B ext sz =
     h\<lparr>m_basic_header := B, m_extended_header := \<lparr>ext_bytes = ext @ replicate (12 - length ext) 0\<rparr>,
       m_cursor := length ext, proc_state := APPLICATION, m_bytes_needed := sz\<rparr>"

lemma loop_stop: "\<not> keep_going h buf \<Longrightarrow> consume_loop inflate h buf p = (h, p, None)"
  by (simp add: consume_loop.simps)

lemma loop_go:
  "keep_going h buf \<Longrightarrow> consume_step inflate h buf = Go_on h' n \<Longrightarrow>
     consume_loop inflate h buf p = consume_loop inflate h' (drop n buf) (p + n)"
  by (subst consume_loop.simps) simp

lemma loop_break:
  "keep_going h buf \<Longrightarrow> consume_step inflate h buf = Break_out h' n e \<Longrightarrow>
     consume_loop inflate h buf p = (h', p + n, Some e)"
  by (subst consume_loop.simps) simp

lemma basic_header_step:
  assumes "idle h"
    and "validate_incoming_basic_header (pmd_enabled h) B (m_server h) (msg_ptr (m_data_msg h) = None) = None"
  shows "consume_loop inflate h (b0 B # b1 B # xs) p =
    consume_loop inflate
      (h\<lparr>m_basic_header := B, m_bytes_needed := of_nat (get_header_len B - 2),
         m_cursor := 0, proc_state := HEADER_EXTENDED\<rparr>) xs (p + 2)"
proof -
  have [simp]: "\<lparr>b0 = b0 B, b1 = b1 B\<rparr> = B" by (cases B) simp
  have step: "consume_step inflate h (b0 B # b1 B # xs) =
      Go_on (h\<lparr>m_basic_header := B, m_bytes_needed := of_nat (get_header_len B - 2),
         m_cursor := 0, proc_state := HEADER_EXTENDED\<rparr>) 2"
    using assms by (simp add: idle_def consume_step_def step_header_basic_def
        copy_basic_header_bytes_def BASIC_HEADER_LENGTH_def)
  have kg: "keep_going h (b0 B # b1 B # xs)" using assms(1) by (simp add: keep_going_def idle_def)
  show ?thesis using loop_go [OF kg step] by simp
qed

lemma extended_header_step:
  assumes "proc_state h = HEADER_EXTENDED" "m_cursor h = 0" "m_bytes_needed h = of_nat (length ext)"
    and "length ext \<le> 12" "ext_bytes (m_extended_header h) = replicate 12 0"
    and "validate_incoming_extended_header (m_basic_header h)
          \<lparr>ext_bytes = ext @ replicate (12 - length ext) 0\<rparr> = None"
    and "get_payload_size (m_basic_header h) \<lparr>ext_bytes = ext @ replicate (12 - length ext) 0\<rparr> = sz"
  shows "consume_loop inflate h (ext @ xs) p =
    (case start_message (after_header h (m_basic_header h) ext sz) of
       (Some e, h2) \<Rightarrow> (h2, p + length ext, Some e)
     | (None, h2) \<Rightarrow> consume_loop inflate h2 xs (p + length ext))"
proof -
  have un: "unat (of_nat (length ext) :: u64) = length ext"
    using assms(4) by (simp add: unat_of_nat_small)
  have kg: "keep_going h (ext @ xs)" using assms(1,3) by (auto simp: keep_going_def)
  have copy: "copy_extended_header_bytes h (ext @ xs) =
      (h\<lparr>m_extended_header := \<lparr>ext_bytes = ext @ replicate (12 - length ext) 0\<rparr>,
         m_cursor := length ext, m_bytes_needed := 0\<rparr>, length ext)"
    using assms(2-5) un by (simp add: copy_extended_header_bytes_def Let_def overwrite_def)
  have step: "consume_step inflate h (ext @ xs) =
      (case start_message (after_header h (m_basic_header h) ext sz) of
         (Some e, h2) \<Rightarrow> Break_out h2 (length ext) e
       | (None, h2) \<Rightarrow> Go_on h2 (length ext))"
    using assms(1,6,7) by (simp add: consume_step_def step_header_extended_def copy after_header_def)
  show ?thesis
    using kg step by (auto simp: loop_go loop_break split: prod.splits option.splits)
qed

lemma size_code_minimal:
  "validate_incoming_extended_header (make_basic_header op sz fin m r1 r2 r3) e = None"
  if "get_payload_size (make_basic_header op sz fin m r1 r2 r3) e = sz"
  using that by (auto simp: validate_incoming_extended_header_def Let_def size_bytes_def
      payload_size_basic_def payload_size_extended_def)

definition wire_ext :: "u64 \<Rightarrow> bool \<Rightarrow> u32 \<Rightarrow> bytes" where
  "wire_ext sz m key = size_bytes sz @ (if m then le_bytes 4 key else [])"

lemma length_wire_ext: "length (wire_ext sz m key) \<le> 12"
  using length_size_bytes [of sz] by (simp add: wire_ext_def)

lemma wire_ext_facts:
  fixes op sz fin m r1 r2 r3 key
  defines "B \<equiv> make_basic_header op sz fin m r1 r2 r3"
    and "E \<equiv> \<lparr>ext_bytes = wire_ext sz m key @ replicate (12 - length (wire_ext sz m key)) 0\<rparr>"
  shows "get_header_len B - 2 = length (wire_ext sz m key) \<and>
    get_payload_size B E = sz \<and> get_masking_key B E = (if m then key else 0)"
proof (intro conjI)
  show "get_header_len B - 2 = length (wire_ext sz m key)" by (simp add: B_def wire_ext_def)
  show "get_payload_size B E = sz"
    unfolding B_def by (rule get_payload_size_make) (simp add: E_def wire_ext_def)
  show "get_masking_key B E = (if m then key else 0)"
  proof (cases m)
    case True
    then show ?thesis
      unfolding B_def by (simp add: get_masking_key_make E_def wire_ext_def)
  next
    case False
    then show ?thesis by (simp add: B_def get_masking_key_def)
  qed
qed

lemma header_steps:
  fixes op sz fin m r1 key
  defines "B \<equiv> make_basic_header op sz fin m r1 False False"
  assumes "idle h"
    and "validate_incoming_basic_header (pmd_enabled h) B (m_server h) (msg_ptr (m_data_msg h) = None) = None"
  shows "consume_loop inflate h (b0 B # b1 B # wire_ext sz m key @ xs) p =
    (case start_message (after_header h B (wire_ext sz m key) sz) of
       (Some e, h2) \<Rightarrow> (h2, p + 2 + length (wire_ext sz m key), Some e)
     | (None, h2) \<Rightarrow> consume_loop inflate h2 xs (p + 2 + length (wire_ext sz m key)))"
proof -
  let ?h = "h\<lparr>m_basic_header := B, m_bytes_needed := of_nat (get_header_len B - 2),
         m_cursor := 0, proc_state := HEADER_EXTENDED\<rparr>"
  note W = wire_ext_facts [where op = op and sz = sz and fin = fin and m = m and ?r1.0 = r1
    and ?r2.0 = False and ?r3.0 = False and key = key, folded B_def]
  have "consume_loop inflate ?h (wire_ext sz m key @ xs) (p + 2) =
    (case start_message (after_header ?h (m_basic_header ?h) (wire_ext sz m key) sz) of
       (Some e, h2) \<Rightarrow> (h2, p + 2 + length (wire_ext sz m key), Some e)
     | (None, h2) \<Rightarrow> consume_loop inflate h2 xs (p + 2 + length (wire_ext sz m key)))"
    by (rule extended_header_step)
      (use W length_wire_ext [of sz m key] assms(2) size_code_minimal [where op = op and sz = sz and fin = fin and m = m and ?r1.0 = r1
    and ?r2.0 = False and ?r3.0 = False, folded B_def] in
        \<open>simp_all add: idle_def\<close>)
  moreover have "after_header ?h (m_basic_header ?h) (wire_ext sz m key) sz = after_header h B (wire_ext sz m key) sz"
    by (simp add: after_header_def)
  ultimately show ?thesis
    using basic_header_step [OF assms(2,3)] by simp
qed

end
