(* ===== verification/Connection.thy ===== *)
theory Connection
  imports Hybi00 Hybi13
begin

text \<open>
  One connection (\<^verbatim>\<open>connection.hpp\<close>, \<^verbatim>\<open>impl/connection_impl.hpp\<close>): the opening handshake of both roles, the loop
  that reads frames, the queue of outgoing messages, the closing handshake, time-outs and termination. The
  transport is the set of operations outstanding on it; a step of the world completes one of them with any
  result, or is a call of the application. Application handlers are a function of the environment: what
  each call does to the connection, and what it returns. The extension class is the one of the
  default configuration, which is disabled.
\<close>

subsection \<open>State\<close>

datatype session_state = Connecting | Open | Closing | Closed

datatype internal_state =
    USER_INIT | TRANSPORT_INIT | READ_HTTP_REQUEST | WRITE_HTTP_REQUEST | READ_HTTP_RESPONSE
  | WRITE_HTTP_RESPONSE | PROCESS_HTTP_REQUEST | PROCESS_CONNECTION

datatype terminate_status = Term_failed | Term_closed | Term_unknown

datatype processor =
    Processor00 hybi00 | Processor07 "unit hybi13" | Processor08 "unit hybi13" | Processor13 "unit hybi13"

datatype timer = Open_timer | Close_timer | Pong_timer bytes

text \<open>What can be outstanding on the transport, with the handler that will be called.\<close>

datatype operation =
    Op_init | Op_read_handshake | Op_read_response | Op_read_frame
  | Op_write_request string | Op_write_response string | Op_write_frames "bytes list"
  | Op_timer nat timer | Op_shutdown terminate_status
  | Op_dispatch_write | Op_dispatch_pause | Op_dispatch_resume | Op_interrupt

datatype callback =
    On_open | On_close | On_fail | On_message message | On_ping bytes | On_pong bytes | On_pong_timeout bytes
  | On_interrupt | On_http | On_validate | On_termination

datatype handler =
    Open_handler | Close_handler | Fail_handler | Message_handler | Ping_handler | Pong_handler
  | Pong_timeout_handler | Interrupt_handler | Http_handler | Validate_handler | Termination_handler

fun callback_handler :: "callback \<Rightarrow> handler" where
  "callback_handler On_open = Open_handler"
| "callback_handler On_close = Close_handler"
| "callback_handler On_fail = Fail_handler"
| "callback_handler (On_message m) = Message_handler"
| "callback_handler (On_ping s) = Ping_handler"
| "callback_handler (On_pong s) = Pong_handler"
| "callback_handler (On_pong_timeout s) = Pong_timeout_handler"
| "callback_handler On_interrupt = Interrupt_handler"
| "callback_handler On_http = Http_handler"
| "callback_handler On_validate = Validate_handler"
| "callback_handler On_termination = Termination_handler"

text \<open>What is seen from outside, in order.\<close>

datatype event = Started operation | Cancelled nat | Called callback

record connection =
  c_is_server :: bool
  c_user_agent :: string
  c_handlers :: "handler list"
  c_open_timeout :: int
  c_close_timeout :: int
  c_pong_timeout :: int
  c_max_message_size :: u64
  c_state :: session_state
  c_internal_state :: internal_state
  c_processor :: "processor option"
  c_request :: request
  c_response :: response
  c_uri :: "uri option"
  c_subprotocol :: string
  c_requested_subprotocols :: "string list"
  c_handshake_buffer :: string
  c_buf :: bytes
  c_handshake_timer :: "nat option"
  c_ping_timer :: "nat option"
  c_next_timer :: nat
  c_send_queue :: "message list"
  c_send_buffer_size :: u64
  c_current_msgs :: "message list"
  c_send_buffer :: "bytes list"
  c_write_flag :: bool
  c_read_flag :: bool
  c_local_close_code :: u16
  c_local_close_reason :: bytes
  c_remote_close_code :: u16
  c_remote_close_reason :: bytes
  c_ec :: ec
  c_was_clean :: bool
  c_draws :: nat
  c_trace :: "event list"
  c_outstanding :: "operation list"

text \<open>
  The compile-time configuration, whether the transport is secure and has timers, the MD5 digest, the random numbers in
  the order drawn, and what uninitialised memory holds.
\<close>

record settings =
  s_drop_on_protocol_error :: bool
  s_silent_close :: bool
  s_enable_extensions :: bool
  s_client_version :: int
  s_read_buffer_size :: nat
  s_secure :: bool
  s_timers :: bool
  s_md5 :: "bytes \<Rightarrow> string"
  s_rng :: "nat \<Rightarrow> u32"
  s_stack :: bytes
  s_stack_opcode :: opcode

record env = settings +
  application :: "callback \<Rightarrow> connection \<Rightarrow> bool \<times> connection"

definition make_connection :: "bool \<Rightarrow> string \<Rightarrow> int \<Rightarrow> int \<Rightarrow> int \<Rightarrow> u64 \<Rightarrow> connection" where
  "make_connection is_server user_agent open_timeout close_timeout pong_timeout max_size =
     \<lparr>c_is_server = is_server, c_user_agent = user_agent, c_handlers = [], c_open_timeout = open_timeout,
      c_close_timeout = close_timeout, c_pong_timeout = pong_timeout, c_max_message_size = max_size,
      c_state = Connecting, c_internal_state = USER_INIT, c_processor = None,
      c_request = make_request, c_response = make_response, c_uri = None, c_subprotocol = [],
      c_requested_subprotocols = [], c_handshake_buffer = [], c_buf = [], c_handshake_timer = None,
      c_ping_timer = None, c_next_timer = 0, c_send_queue = [], c_send_buffer_size = 0, c_current_msgs = [],
      c_send_buffer = [], c_write_flag = False, c_read_flag = True,
      c_local_close_code = status_abnormal_close, c_local_close_reason = [],
      c_remote_close_code = status_abnormal_close, c_remote_close_reason = [], c_ec = None, c_was_clean = False,
      c_draws = 0, c_trace = [], c_outstanding = []\<rparr>"

text \<open>A handler that throws leaves the connection as it is then; one that dereferences a null pointer has no meaning.\<close>

datatype exn = Error_code error_code | Http_exception string int

datatype outcome = Done connection | Throws exn connection | Undefined

fun after :: "outcome \<Rightarrow> (connection \<Rightarrow> outcome) \<Rightarrow> outcome" where
  "after (Done c) f = f c"
| "after (Throws e c) f = Throws e c"
| "after Undefined f = Undefined"

fun lift_http :: "connection \<Rightarrow> 'a http_result \<Rightarrow> ('a \<Rightarrow> outcome) \<Rightarrow> outcome" where
  "lift_http c (Value x) f = f x"
| "lift_http c (Throw m code) f = Throws (Http_exception m code) c"
| "lift_http c Bad_range f = Undefined"

subsection \<open>The transport and the application\<close>

definition start_op :: "operation \<Rightarrow> connection \<Rightarrow> connection" where
  "start_op op c = c\<lparr>c_outstanding := c_outstanding c @ [op], c_trace := c_trace c @ [Started op]\<rparr>"

definition cancel_timer :: "nat \<Rightarrow> connection \<Rightarrow> connection" where
  "cancel_timer n c = c\<lparr>c_trace := c_trace c @ [Cancelled n]\<rparr>"

definition set_timer :: "'e settings_scheme \<Rightarrow> timer \<Rightarrow> connection \<Rightarrow> nat option \<times> connection" where
  "set_timer env t c =
     (if s_timers env
      then (Some (c_next_timer c), start_op (Op_timer (c_next_timer c) t) (c\<lparr>c_next_timer := c_next_timer c + 1\<rparr>))
      else (None, c))"

text \<open>The handshake timer, for a duration above 0. A timer that is already there is not cancelled.\<close>

definition set_handshake_timer :: "'e settings_scheme \<Rightarrow> int \<Rightarrow> timer \<Rightarrow> connection \<Rightarrow> connection" where
  "set_handshake_timer env duration t c =
     (if duration > 0 then let (n, c) = set_timer env t c in c\<lparr>c_handshake_timer := n\<rparr> else c)"

definition has_handler :: "handler \<Rightarrow> connection \<Rightarrow> bool" where
  "has_handler h c \<longleftrightarrow> List.member (c_handlers c) h"

definition call_handler :: "env \<Rightarrow> callback \<Rightarrow> connection \<Rightarrow> bool \<times> connection" where
  "call_handler env cb c = application env cb (c\<lparr>c_trace := c_trace c @ [Called cb]\<rparr>)"

definition notify :: "env \<Rightarrow> callback \<Rightarrow> connection \<Rightarrow> connection" where
  "notify env cb c = (if has_handler (callback_handler cb) c then snd (call_handler env cb c) else c)"

definition atomic_state_check :: "internal_state \<Rightarrow> connection \<Rightarrow> outcome" where
  "atomic_state_check req c =
     (if c_internal_state c \<noteq> req then Throws (Error_code (Lib E_invalid_state)) c else Done c)"

definition atomic_state_change :: "internal_state \<Rightarrow> internal_state \<Rightarrow> connection \<Rightarrow> outcome" where
  "atomic_state_change req dest c =
     (if c_internal_state c \<noteq> req then Throws (Error_code (Lib E_invalid_state)) c
      else Done (c\<lparr>c_internal_state := dest\<rparr>))"

definition atomic_state_change_both ::
  "internal_state \<Rightarrow> internal_state \<Rightarrow> session_state \<Rightarrow> session_state \<Rightarrow> connection \<Rightarrow> outcome" where
  "atomic_state_change_both internal_req internal_dest external_req external_dest c =
     (if c_internal_state c \<noteq> internal_req \<or> c_state c \<noteq> external_req
      then Throws (Error_code (Lib E_invalid_state)) c
      else Done (c\<lparr>c_internal_state := internal_dest, c_state := external_dest\<rparr>))"

subsection \<open>Processors\<close>

text \<open>
  The virtual functions of the processor, by protocol version. Versions 7 and 8 inherit from 13 and refuse
  to be clients; version 8 and with it 7 take the origin from another header. The disabled extension
  decompresses and compresses nothing.
\<close>

definition null_inflate :: "unit \<Rightarrow> bytes \<Rightarrow> bytes \<times> unit" where "null_inflate z data = ([], z)"
definition null_deflate :: "bytes \<Rightarrow> bytes \<Rightarrow> bytes" where "null_deflate inp out = out"

definition null_negotiate :: "attribute_list \<Rightarrow> unit \<Rightarrow> (unit option \<times> string) \<times> unit" where
  "null_negotiate attributes z = ((Some (), []), z)"

definition versions_supported :: "int list" where "versions_supported = [0, 7, 8, 13]"

definition get_processor :: "'e settings_scheme \<Rightarrow> int \<Rightarrow> connection \<Rightarrow> processor option" where
  "get_processor env version c =
     (let h = make_hybi13 (c_is_server c) (c_max_message_size c) False () in
      if version = 0 then Some (Processor00 make_hybi00)
      else if version = 7 then Some (Processor07 h)
      else if version = 8 then Some (Processor08 h)
      else if version = 13 then Some (Processor13 h)
      else None)"

fun processor_version :: "processor \<Rightarrow> int" where
  "processor_version (Processor00 h) = 0"
| "processor_version (Processor07 h) = 7"
| "processor_version (Processor08 h) = 8"
| "processor_version (Processor13 h) = 13"

fun processor_set_max :: "u64 \<Rightarrow> processor \<Rightarrow> processor" where
  "processor_set_max n (Processor00 h) = Processor00 h"
| "processor_set_max n (Processor07 h) = Processor07 (h\<lparr>m_max_message_size := n\<rparr>)"
| "processor_set_max n (Processor08 h) = Processor08 (h\<lparr>m_max_message_size := n\<rparr>)"
| "processor_set_max n (Processor13 h) = Processor13 (h\<lparr>m_max_message_size := n\<rparr>)"

fun processor_validate_handshake :: "processor \<Rightarrow> request \<Rightarrow> ec" where
  "processor_validate_handshake (Processor00 h) r = hybi00_validate_handshake r"
| "processor_validate_handshake _ r = validate_handshake r"

fun processor_negotiate :: "'e settings_scheme \<Rightarrow> processor \<Rightarrow> request \<Rightarrow> ec \<times> string" where
  "processor_negotiate env (Processor00 h) r = (None, [])"
| "processor_negotiate env _ r = fst (negotiate_extensions (s_enable_extensions env) False null_negotiate r ())"

fun processor_get_uri :: "'e settings_scheme \<Rightarrow> processor \<Rightarrow> request \<Rightarrow> uri" where
  "processor_get_uri env (Processor00 h) r = hybi00_get_uri (s_secure env) r"
| "processor_get_uri env _ r = get_uri (s_secure env) r"

fun processor_get_origin :: "processor \<Rightarrow> request \<Rightarrow> string" where
  "processor_get_origin (Processor00 h) r = get_header ''Origin'' r"
| "processor_get_origin (Processor13 h) r = get_origin r"
| "processor_get_origin _ r = get_header ''Sec-WebSocket-Origin'' r"

fun processor_extract_subprotocols :: "processor \<Rightarrow> request \<Rightarrow> string list \<Rightarrow> ec \<times> string list" where
  "processor_extract_subprotocols (Processor00 h) r names = hybi00_extract_subprotocols r names"
| "processor_extract_subprotocols _ r names = extract_subprotocols r names"

fun processor_process_handshake ::
  "'e settings_scheme \<Rightarrow> processor \<Rightarrow> request \<Rightarrow> string \<Rightarrow> response \<Rightarrow> (ec \<times> response) http_result" where
  "processor_process_handshake env (Processor00 h) r sub res =
     hybi00_process_handshake (s_md5 env) (s_stack env) (s_secure env) r sub res"
| "processor_process_handshake env _ r sub res = process_handshake r sub res"

fun processor_get_raw :: "processor \<Rightarrow> response \<Rightarrow> string" where
  "processor_get_raw (Processor00 h) res = hybi00_get_raw res"
| "processor_get_raw _ res = response_raw res"

text \<open>The client of version 13 draws four random numbers for its key.\<close>

fun processor_client_request ::
  "u32 list \<Rightarrow> processor \<Rightarrow> request \<Rightarrow> uri \<Rightarrow> string list \<Rightarrow> (ec \<times> request) http_result" where
  "processor_client_request rnd (Processor13 h) r u subs = client_handshake_request rnd u subs r"
| "processor_client_request rnd _ r u subs = Value (Some (Processor P_no_protocol_support), r)"

fun processor_validate_response :: "processor \<Rightarrow> request \<Rightarrow> response \<Rightarrow> ec" where
  "processor_validate_response (Processor00 h) r res = hybi00_validate_server_handshake_response r res"
| "processor_validate_response _ r res = validate_server_handshake_response r res"

fun processor_consume :: "processor \<Rightarrow> bytes \<Rightarrow> (processor \<times> nat \<times> ec) option" where
  "processor_consume (Processor00 h) buf = map_option (apfst Processor00) (hybi00_consume h buf)"
| "processor_consume (Processor07 h) buf = Some (apfst Processor07 (consume null_inflate h buf))"
| "processor_consume (Processor08 h) buf = Some (apfst Processor08 (consume null_inflate h buf))"
| "processor_consume (Processor13 h) buf = Some (apfst Processor13 (consume null_inflate h buf))"

fun processor_ready :: "processor \<Rightarrow> bool" where
  "processor_ready (Processor00 h) = hybi00_ready h"
| "processor_ready (Processor07 h) = ready h"
| "processor_ready (Processor08 h) = ready h"
| "processor_ready (Processor13 h) = ready h"

fun processor_get_message :: "processor \<Rightarrow> message option \<times> processor" where
  "processor_get_message (Processor00 h) = apsnd Processor00 (hybi00_get_message h)"
| "processor_get_message (Processor07 h) = apsnd Processor07 (get_message h)"
| "processor_get_message (Processor08 h) = apsnd Processor08 (get_message h)"
| "processor_get_message (Processor13 h) = apsnd Processor13 (get_message h)"

fun processor_prepare_data_frame ::
  "bool \<Rightarrow> u32 \<Rightarrow> processor \<Rightarrow> message option \<Rightarrow> message option \<Rightarrow> ec \<times> message option" where
  "processor_prepare_data_frame server rnd (Processor00 h) inp out = hybi00_prepare_data_frame inp out"
| "processor_prepare_data_frame server rnd _ inp out = prepare_data_frame null_deflate server False rnd inp out"

fun processor_prepare_ping :: "bool \<Rightarrow> u32 \<Rightarrow> processor \<Rightarrow> bytes \<Rightarrow> message option \<Rightarrow> ec \<times> message option" where
  "processor_prepare_ping server rnd (Processor00 h) payload out = (hybi00_prepare_ping payload out, out)"
| "processor_prepare_ping server rnd _ payload out = prepare_ping server rnd payload out"

fun processor_prepare_pong :: "bool \<Rightarrow> u32 \<Rightarrow> processor \<Rightarrow> bytes \<Rightarrow> message option \<Rightarrow> ec \<times> message option" where
  "processor_prepare_pong server rnd (Processor00 h) payload out = (hybi00_prepare_pong payload out, out)"
| "processor_prepare_pong server rnd _ payload out = prepare_pong server rnd payload out"

fun processor_prepare_close ::
  "bool \<Rightarrow> u32 \<Rightarrow> processor \<Rightarrow> u16 \<Rightarrow> bytes \<Rightarrow> message option \<Rightarrow> ec \<times> message option" where
  "processor_prepare_close server rnd (Processor00 h) code reason out = hybi00_prepare_close code reason out"
| "processor_prepare_close server rnd _ code reason out = prepare_close server rnd code reason out"

text \<open>A frame prepared by a client of versions 7 to 13 took one random number as its key.\<close>

definition draw :: "connection \<Rightarrow> ec \<Rightarrow> connection" where
  "draw c ec =
     (case c_processor c of
        Some (Processor00 h) \<Rightarrow> c
      | _ \<Rightarrow> if c_is_server c \<or> ec \<noteq> None then c else c\<lparr>c_draws := c_draws c + 1\<rparr>)"

subsection \<open>The queue of outgoing messages\<close>

definition write_push :: "message option \<Rightarrow> connection \<Rightarrow> connection" where
  "write_push msg c =
     (case msg of
        None \<Rightarrow> c
      | Some m \<Rightarrow> c\<lparr>c_send_buffer_size := c_send_buffer_size c + of_nat (length (msg_payload m)),
                    c_send_queue := c_send_queue c @ [m]\<rparr>)"

definition write_pop :: "connection \<Rightarrow> message option \<times> connection" where
  "write_pop c =
     (case c_send_queue c of
        [] \<Rightarrow> (None, c)
      | m # ms \<Rightarrow> (Some m, c\<lparr>c_send_buffer_size := c_send_buffer_size c - of_nat (length (msg_payload m)),
                              c_send_queue := ms\<rparr>))"

definition needs_writing :: "connection \<Rightarrow> bool" where
  "needs_writing c \<longleftrightarrow> \<not> c_write_flag c \<and> c_send_queue c \<noteq> []"

text \<open>The end of every sending operation: push the message, and dispatch a write when none is under way.\<close>

definition push_and_dispatch :: "message option \<Rightarrow> connection \<Rightarrow> connection" where
  "push_and_dispatch msg c =
     (let c = write_push msg c in if needs_writing c then start_op Op_dispatch_write c else c)"

function pop_messages :: "connection \<Rightarrow> connection" where
  "pop_messages c =
     (case write_pop c of
        (None, c) \<Rightarrow> c
      | (Some m, c) \<Rightarrow>
          let c = c\<lparr>c_current_msgs := c_current_msgs c @ [m]\<rparr>
          in if msg_terminal m then c else pop_messages c)"
  by pat_completeness auto
termination
  by (relation "measure (\<lambda>c. length (c_send_queue c))") (auto simp: write_pop_def split: list.splits)

declare pop_messages.simps [simp del]

definition write_frame :: "connection \<Rightarrow> connection" where
  "write_frame c =
     (if c_write_flag c then c
      else let c = pop_messages c in
        if c_current_msgs c = [] then c
        else let c = c\<lparr>c_write_flag := True,
                       c_send_buffer := c_send_buffer c @
                         concat (List.map (\<lambda>m. [msg_header m, msg_payload m]) (c_current_msgs c))\<rparr>
          in start_op (Op_write_frames (c_send_buffer c)) c)"

subsection \<open>Termination\<close>

definition cancel_handshake_timer :: "connection \<Rightarrow> connection" where
  "cancel_handshake_timer c =
     (case c_handshake_timer c of None \<Rightarrow> c | Some n \<Rightarrow> (cancel_timer n c)\<lparr>c_handshake_timer := None\<rparr>)"

definition terminate :: "ec \<Rightarrow> connection \<Rightarrow> connection" where
  "terminate ec c =
     (let c = cancel_handshake_timer c;
          c = (case ec of
                 None \<Rightarrow> c
               | Some e \<Rightarrow> c\<lparr>c_ec := ec, c_local_close_code := status_abnormal_close,
                             c_local_close_reason := octets (error_message e)\<rparr>)
      in case c_state c of
           Connecting \<Rightarrow> start_op (Op_shutdown Term_failed) (c\<lparr>c_state := Closed\<rparr>)
         | Closed \<Rightarrow> c
         | _ \<Rightarrow> start_op (Op_shutdown Term_closed) (c\<lparr>c_state := Closed\<rparr>))"

definition handle_terminate :: "env \<Rightarrow> terminate_status \<Rightarrow> ec \<Rightarrow> connection \<Rightarrow> connection" where
  "handle_terminate env tstat ec c =
     (let c = (case tstat of
                 Term_failed \<Rightarrow> notify env On_fail c
               | Term_closed \<Rightarrow> notify env On_close c
               | Term_unknown \<Rightarrow> c)
      in notify env On_termination c)"

definition handle_write_frame :: "ec \<Rightarrow> connection \<Rightarrow> outcome" where
  "handle_write_frame ec c =
     (if c_current_msgs c = [] then Undefined
      else let terminal = msg_terminal (last (c_current_msgs c)); c = c\<lparr>c_send_buffer := [], c_current_msgs := []\<rparr> in
        if ec \<noteq> None then Done (terminate ec c)
        else if terminal then Done (terminate None c)
        else let c = c\<lparr>c_write_flag := False\<rparr>
          in Done (if c_send_queue c \<noteq> [] then start_op Op_dispatch_write c else c))"

definition handle_open_handshake_timeout :: "ec \<Rightarrow> connection \<Rightarrow> connection" where
  "handle_open_handshake_timeout ec c =
     (if ec = Some (Transport T_operation_aborted) then c
      else if ec \<noteq> None then c
      else terminate (Some (Lib E_open_handshake_timeout)) c)"

definition handle_close_handshake_timeout :: "ec \<Rightarrow> connection \<Rightarrow> connection" where
  "handle_close_handshake_timeout ec c =
     (if ec = Some (Transport T_operation_aborted) then c
      else if ec \<noteq> None then c
      else terminate (Some (Lib E_close_handshake_timeout)) c)"

subsection \<open>Sending\<close>

text \<open>In state \<open>Open\<close> there is a processor; without one these operations dereference a null pointer.\<close>

definition send :: "env \<Rightarrow> message \<Rightarrow> connection \<Rightarrow> (ec \<times> connection) option" where
  "send env msg c =
     (if c_state c \<noteq> Open then Some (Some (Lib E_invalid_state), c)
      else if msg_prepared msg then Some (None, push_and_dispatch (Some msg) c)
      else case alloc_get_empty (s_stack_opcode env) of
          None \<Rightarrow> Some (Some (Lib E_no_outgoing_buffers), c)
        | Some out \<Rightarrow>
            (case c_processor c of
               None \<Rightarrow> None
             | Some p \<Rightarrow>
                 let (ec, outgoing) = processor_prepare_data_frame (c_is_server c) (s_rng env (c_draws c)) p (Some msg) (Some out);
                     c = draw c ec
                 in if ec \<noteq> None then Some (ec, c) else Some (None, push_and_dispatch outgoing c)))"

definition send_payload :: "env \<Rightarrow> bytes \<Rightarrow> opcode \<Rightarrow> connection \<Rightarrow> (ec \<times> connection) option" where
  "send_payload env payload op c =
     (case alloc_get_message op (of_nat (length payload)) of
        None \<Rightarrow> None
      | Some msg \<Rightarrow> send env (append_payload msg payload) c)"

text \<open>The timer of a ping is set when somebody listens for its end.\<close>

definition set_ping_timer :: "env \<Rightarrow> bytes \<Rightarrow> connection \<Rightarrow> connection" where
  "set_ping_timer env payload c =
     (if has_handler Pong_timeout_handler c
      then let c = (case c_ping_timer c of None \<Rightarrow> c | Some n \<Rightarrow> cancel_timer n c)
        in if c_pong_timeout c > 0
           then let (t, c) = set_timer env (Pong_timer payload) c in c\<lparr>c_ping_timer := t\<rparr>
           else c
      else c)"

definition ping :: "env \<Rightarrow> bytes \<Rightarrow> connection \<Rightarrow> (ec \<times> connection) option" where
  "ping env payload c =
     (if c_state c \<noteq> Open then Some (Some (Lib E_invalid_state), c)
      else case alloc_get_empty (s_stack_opcode env) of
          None \<Rightarrow> Some (Some (Lib E_no_outgoing_buffers), c)
        | Some out \<Rightarrow>
            (case c_processor c of
               None \<Rightarrow> None
             | Some p \<Rightarrow>
                 let (ec, msg) = processor_prepare_ping (c_is_server c) (s_rng env (c_draws c)) p payload (Some out);
                     c = draw c ec
                 in if ec \<noteq> None then Some (ec, c)
                    else Some (None, push_and_dispatch msg (set_ping_timer env payload c))))"

definition handle_pong_timeout :: "env \<Rightarrow> bytes \<Rightarrow> ec \<Rightarrow> connection \<Rightarrow> connection" where
  "handle_pong_timeout env payload ec c =
     (if ec \<noteq> None then c else notify env (On_pong_timeout payload) c)"

definition pong :: "env \<Rightarrow> bytes \<Rightarrow> connection \<Rightarrow> (ec \<times> connection) option" where
  "pong env payload c =
     (if c_state c \<noteq> Open then Some (Some (Lib E_invalid_state), c)
      else case alloc_get_empty (s_stack_opcode env) of
          None \<Rightarrow> Some (Some (Lib E_no_outgoing_buffers), c)
        | Some out \<Rightarrow>
            (case c_processor c of
               None \<Rightarrow> None
             | Some p \<Rightarrow>
                 let (ec, msg) = processor_prepare_pong (c_is_server c) (s_rng env (c_draws c)) p payload (Some out);
                     c = draw c ec
                 in if ec \<noteq> None then Some (ec, c) else Some (None, push_and_dispatch msg c)))"

definition set_close_info :: "'e settings_scheme \<Rightarrow> u16 \<Rightarrow> bytes \<Rightarrow> bool \<Rightarrow> connection \<Rightarrow> connection" where
  "set_close_info env code reason ack c =
     (if s_silent_close env then c\<lparr>c_local_close_code := status_no_status, c_local_close_reason := []\<rparr>
      else if code \<noteq> status_blank then c\<lparr>c_local_close_code := code, c_local_close_reason := reason\<rparr>
      else if \<not> ack then c\<lparr>c_local_close_code := status_no_status, c_local_close_reason := []\<rparr>
      else if c_remote_close_code c = status_no_status
      then c\<lparr>c_local_close_code := status_normal, c_local_close_reason := []\<rparr>
      else c\<lparr>c_local_close_code := c_remote_close_code c, c_local_close_reason := c_remote_close_reason c\<rparr>)"

definition send_close_frame :: "env \<Rightarrow> u16 \<Rightarrow> bytes \<Rightarrow> bool \<Rightarrow> bool \<Rightarrow> connection \<Rightarrow> (ec \<times> connection) option" where
  "send_close_frame env code reason ack terminal c =
     (let c = set_close_info env code reason ack c in
      case alloc_get_empty (s_stack_opcode env) of
        None \<Rightarrow> Some (Some (Lib E_no_outgoing_buffers), c)
      | Some out \<Rightarrow>
          (case c_processor c of
             None \<Rightarrow> None
           | Some p \<Rightarrow>
               let (ec, msg) = processor_prepare_close (c_is_server c) (s_rng env (c_draws c)) p
                     (c_local_close_code c) (c_local_close_reason c) (Some out);
                   c = draw c ec
               in if ec \<noteq> None then Some (ec, c)
                  else
                    let msg = (if terminal then map_option (\<lambda>m. set_terminal m True) msg else msg);
                        c = c\<lparr>c_state := Closing, c_was_clean := c_was_clean c \<or> ack\<rparr>;
                        c = set_handshake_timer env (c_close_timeout c) Close_timer c
                    in Some (None, push_and_dispatch msg c)))"

definition send_close_ack :: "env \<Rightarrow> u16 \<Rightarrow> bytes \<Rightarrow> connection \<Rightarrow> (ec \<times> connection) option" where
  "send_close_ack env code reason c = send_close_frame env code reason True (c_is_server c) c"

definition close :: "env \<Rightarrow> u16 \<Rightarrow> bytes \<Rightarrow> connection \<Rightarrow> (ec \<times> connection) option" where
  "close env code reason c =
     (if c_state c \<noteq> Open then Some (Some (Lib E_invalid_state), c)
      else send_close_frame env code (take close_reason_size reason) False (status_terminal code) c)"

subsection \<open>Reading frames\<close>

definition read_frame :: "connection \<Rightarrow> connection" where
  "read_frame c = (if c_read_flag c then start_op Op_read_frame c else c)"

text \<open>A null pointer dereferenced on the way is \<open>None\<close>. The codes answered by the sending operations are only logged.\<close>

definition process_ping :: "env \<Rightarrow> message \<Rightarrow> connection \<Rightarrow> connection option" where
  "process_ping env msg c =
     (let (should_reply, c) = (if has_handler Ping_handler c then call_handler env (On_ping (msg_payload msg)) c else (True, c))
      in if should_reply then map_option snd (pong env (msg_payload msg) c) else Some c)"

definition process_pong :: "env \<Rightarrow> message \<Rightarrow> connection \<Rightarrow> connection" where
  "process_pong env msg c =
     (let c = notify env (On_pong (msg_payload msg)) c
      in case c_ping_timer c of None \<Rightarrow> c | Some n \<Rightarrow> cancel_timer n c)"

text \<open>A close frame with an invalid code or reason is answered in any state but \<open>Closed\<close>.\<close>

definition refuse_close :: "env \<Rightarrow> ec \<Rightarrow> string \<Rightarrow> connection \<Rightarrow> connection option" where
  "refuse_close env ec reason c =
     (if s_drop_on_protocol_error env then Some (terminate ec c)
      else map_option snd (send_close_ack env status_protocol_error (octets reason) c))"

definition process_close :: "env \<Rightarrow> message \<Rightarrow> connection \<Rightarrow> connection option" where
  "process_close env msg c =
     (let (code, ec) = extract_code (msg_payload msg); c = c\<lparr>c_remote_close_code := code\<rparr> in
      if ec \<noteq> None then refuse_close env ec ''Invalid close code'' c
      else let (reason, ec) = extract_reason (msg_payload msg); c = c\<lparr>c_remote_close_reason := reason\<rparr> in
        if ec \<noteq> None then refuse_close env ec ''Invalid close reason'' c
        else if c_state c = Open then map_option snd (send_close_ack env status_blank [] c)
        else if c_state c = Closing \<and> \<not> c_was_clean c
        then let c = c\<lparr>c_was_clean := True\<rparr> in Some (if c_is_server c then terminate None c else c)
        else Some c)"

definition process_control_frame :: "env \<Rightarrow> message \<Rightarrow> connection \<Rightarrow> connection option" where
  "process_control_frame env msg c =
     (if c_state c = Closed then Some c
      else if msg_opcode msg \<noteq> Close \<and> c_state c \<noteq> Open then Some c
      else if msg_opcode msg = Ping then process_ping env msg c
      else if msg_opcode msg = Pong then Some (process_pong env msg c)
      else if msg_opcode msg = Close then process_close env msg c
      else Some c)"

definition consume_failed :: "env \<Rightarrow> error_code \<Rightarrow> connection \<Rightarrow> outcome" where
  "consume_failed env e c =
     (if s_drop_on_protocol_error env then Done (terminate (Some e) c)
      else case close env (to_ws e) (octets (error_message e)) c of
          None \<Rightarrow> Undefined
        | Some (None, c) \<Rightarrow> Done c
        | Some (Some close_ec, c) \<Rightarrow> Done (terminate (Some close_ec) c))"

definition dispatch_ready :: "env \<Rightarrow> processor \<Rightarrow> connection \<Rightarrow> connection option" where
  "dispatch_ready env p c =
     (if processor_ready p
      then let (msg, p) = processor_get_message p; c = c\<lparr>c_processor := Some p\<rparr> in
        case msg of
          None \<Rightarrow> Some c
        | Some m \<Rightarrow>
            if \<not> is_control (msg_opcode m)
            then if c_state c \<noteq> Open then Some c else Some (notify env (On_message m) c)
            else process_control_frame env m c
      else Some c)"

text \<open>
  The loop of \<^verbatim>\<open>handle_read_frame\<close> over the octets of one read. It ends only if the processor makes progress: a
  processor that takes nothing, reports nothing and has nothing ready keeps it running, which is the value \<open>None\<close>.
\<close>

partial_function (option) read_loop :: "env \<Rightarrow> bytes \<Rightarrow> connection \<Rightarrow> outcome option" where
  "read_loop env buf c =
     (if buf = [] then Some (Done (read_frame c))
      else case c_processor c of
          None \<Rightarrow> Some Undefined
        | Some p \<Rightarrow>
            (case processor_consume p buf of
               None \<Rightarrow> Some Undefined
             | Some (p', n, Some e) \<Rightarrow> Some (consume_failed env e (c\<lparr>c_processor := Some p'\<rparr>))
             | Some (p', n, None) \<Rightarrow>
                 (case dispatch_ready env p' (c\<lparr>c_processor := Some p'\<rparr>) of
                    None \<Rightarrow> Some Undefined
                  | Some c' \<Rightarrow> read_loop env (drop n buf) c')))"

definition read_frame_error :: "error_code \<Rightarrow> connection \<Rightarrow> connection" where
  "read_frame_error e c =
     (if e = Transport T_eof \<and> c_state c = Closed then c
      else if e = Transport T_eof \<and> c_state c = Closing \<and> \<not> c_is_server c then terminate None c
      else if e = Transport T_tls_short_read \<and> c_state c = Closed then terminate None c
      else terminate (Some e) c)"

fun after_option :: "outcome \<Rightarrow> (connection \<Rightarrow> outcome option) \<Rightarrow> outcome option" where
  "after_option (Done c) f = f c"
| "after_option (Throws e c) f = Some (Throws e c)"
| "after_option Undefined f = Some Undefined"

definition handle_read_frame :: "env \<Rightarrow> ec \<Rightarrow> bytes \<Rightarrow> connection \<Rightarrow> outcome option" where
  "handle_read_frame env ec buf c =
     after_option (atomic_state_check PROCESS_CONNECTION c) (\<lambda>c.
       case ec of Some e \<Rightarrow> Some (Done (read_frame_error e c)) | None \<Rightarrow> read_loop env buf c)"

subsection \<open>The application's view\<close>

definition con_set_status :: "int \<Rightarrow> connection \<Rightarrow> outcome" where
  "con_set_status code c =
     (if c_internal_state c \<noteq> PROCESS_HTTP_REQUEST then Throws (Error_code (Lib E_invalid_state)) c
      else Done (c\<lparr>c_response := set_status code (c_response c)\<rparr>))"

definition con_set_status_msg :: "int \<Rightarrow> string \<Rightarrow> connection \<Rightarrow> outcome" where
  "con_set_status_msg code msg c =
     (if c_internal_state c \<noteq> PROCESS_HTTP_REQUEST then Throws (Error_code (Lib E_invalid_state)) c
      else Done (c\<lparr>c_response := set_status_msg code msg (c_response c)\<rparr>))"

definition con_set_body :: "string \<Rightarrow> connection \<Rightarrow> outcome" where
  "con_set_body body c =
     (if c_internal_state c \<noteq> PROCESS_HTTP_REQUEST then Throws (Error_code (Lib E_invalid_state)) c
      else Done (c\<lparr>c_response := set_body body (c_response c)\<rparr>))"

definition con_append_header :: "string \<Rightarrow> string \<Rightarrow> connection \<Rightarrow> outcome" where
  "con_append_header key val c =
     (if c_is_server c then
        if c_internal_state c = PROCESS_HTTP_REQUEST
        then lift_http c (append_header key val (c_response c)) (\<lambda>r. Done (c\<lparr>c_response := r\<rparr>))
        else Throws (Error_code (Lib E_invalid_state)) c
      else if c_internal_state c = USER_INIT
      then lift_http c (append_header key val (c_request c)) (\<lambda>r. Done (c\<lparr>c_request := r\<rparr>))
      else Throws (Error_code (Lib E_invalid_state)) c)"

definition con_replace_header :: "string \<Rightarrow> string \<Rightarrow> connection \<Rightarrow> outcome" where
  "con_replace_header key val c =
     (if c_is_server c then
        if c_internal_state c = PROCESS_HTTP_REQUEST
        then Done (c\<lparr>c_response := replace_header key val (c_response c)\<rparr>)
        else Throws (Error_code (Lib E_invalid_state)) c
      else if c_internal_state c = USER_INIT then Done (c\<lparr>c_request := replace_header key val (c_request c)\<rparr>)
      else Throws (Error_code (Lib E_invalid_state)) c)"

definition con_remove_header :: "string \<Rightarrow> connection \<Rightarrow> outcome" where
  "con_remove_header key c =
     (if c_is_server c then
        if c_internal_state c = PROCESS_HTTP_REQUEST
        then Done (c\<lparr>c_response := remove_header key (c_response c)\<rparr>)
        else Throws (Error_code (Lib E_invalid_state)) c
      else if c_internal_state c = USER_INIT then Done (c\<lparr>c_request := remove_header key (c_request c)\<rparr>)
      else Throws (Error_code (Lib E_invalid_state)) c)"

text \<open>On success these two leave the error code of the caller as it was, but for an empty name.\<close>

definition add_subprotocol :: "string \<Rightarrow> ec \<Rightarrow> connection \<Rightarrow> ec \<times> connection" where
  "add_subprotocol name ec c =
     (if c_is_server c then (Some (Lib E_client_only), c)
      else if name = [] \<or> list_ex is_not_token_char name then (Some (Lib E_invalid_subprotocol), c)
      else (ec, c\<lparr>c_requested_subprotocols := c_requested_subprotocols c @ [name]\<rparr>))"

definition select_subprotocol :: "string \<Rightarrow> ec \<Rightarrow> connection \<Rightarrow> ec \<times> connection" where
  "select_subprotocol name ec c =
     (if \<not> c_is_server c then (Some (Lib E_server_only), c)
      else if name = [] then (None, c)
      else if name \<notin> set (c_requested_subprotocols c) then (Some (Lib E_unrequested_subprotocol), c)
      else (ec, c\<lparr>c_subprotocol := name\<rparr>))"

definition set_max_message_size :: "u64 \<Rightarrow> connection \<Rightarrow> connection" where
  "set_max_message_size n c =
     c\<lparr>c_max_message_size := n, c_processor := map_option (processor_set_max n) (c_processor c)\<rparr>"

definition set_handler :: "handler \<Rightarrow> bool \<Rightarrow> connection \<Rightarrow> connection" where
  "set_handler h b c = c\<lparr>c_handlers := (if b then h # c_handlers c else filter (\<lambda>k. k \<noteq> h) (c_handlers c))\<rparr>"

definition con_set_uri :: "uri \<Rightarrow> connection \<Rightarrow> connection" where "con_set_uri u c = c\<lparr>c_uri := Some u\<rparr>"
definition set_open_handshake_timeout :: "int \<Rightarrow> connection \<Rightarrow> connection" where
  "set_open_handshake_timeout n c = c\<lparr>c_open_timeout := n\<rparr>"
definition set_close_handshake_timeout :: "int \<Rightarrow> connection \<Rightarrow> connection" where
  "set_close_handshake_timeout n c = c\<lparr>c_close_timeout := n\<rparr>"
definition set_pong_timeout :: "int \<Rightarrow> connection \<Rightarrow> connection" where
  "set_pong_timeout n c = c\<lparr>c_pong_timeout := n\<rparr>"

definition interrupt :: "connection \<Rightarrow> connection" where "interrupt c = start_op Op_interrupt c"
definition handle_interrupt :: "env \<Rightarrow> connection \<Rightarrow> connection" where
  "handle_interrupt env c = notify env On_interrupt c"

definition pause_reading :: "connection \<Rightarrow> connection" where "pause_reading c = start_op Op_dispatch_pause c"
definition handle_pause_reading :: "connection \<Rightarrow> connection" where
  "handle_pause_reading c = c\<lparr>c_read_flag := False\<rparr>"

definition resume_reading :: "connection \<Rightarrow> connection" where "resume_reading c = start_op Op_dispatch_resume c"
definition handle_resume_reading :: "connection \<Rightarrow> connection" where
  "handle_resume_reading c = read_frame (c\<lparr>c_read_flag := True\<rparr>)"

subsection \<open>The opening handshake of a server\<close>

definition read_handshake :: "'e settings_scheme \<Rightarrow> connection \<Rightarrow> connection" where
  "read_handshake env c =
     start_op Op_read_handshake (set_handshake_timer env (c_open_timeout c) Open_timer c)"

fun list_versions :: "int list \<Rightarrow> string" where
  "list_versions [] = []"
| "list_versions [v] = decimal_int v"
| "list_versions (v # w # vs) = decimal_int v @ '','' @ list_versions (w # vs)"

definition initialize_processor :: "'e settings_scheme \<Rightarrow> connection \<Rightarrow> bool \<times> connection" where
  "initialize_processor env c =
     (if \<not> is_websocket_handshake (c_request c) then (True, c)
      else let version = get_websocket_version (c_request c) in
        if version < 0
        then (False, c\<lparr>c_response := set_status (status_value S_bad_request) (c_response c)\<rparr>)
        else let c = c\<lparr>c_processor := get_processor env version c\<rparr> in
          if c_processor c \<noteq> None then (True, c)
          else (False, c\<lparr>c_response := replace_header ''Sec-WebSocket-Version'' (list_versions versions_supported)
                           (set_status (status_value S_bad_request) (c_response c))\<rparr>))"

definition respond_status :: "http_status \<Rightarrow> connection \<Rightarrow> connection" where
  "respond_status s c = c\<lparr>c_response := set_status (status_value s) (c_response c)\<rparr>"

definition process_http_request :: "env \<Rightarrow> connection \<Rightarrow> outcome" where
  "process_http_request env c =
     (let u = get_uri_from_host (c_request c) (if s_secure env then ''https'' else ''http''); c = c\<lparr>c_uri := Some u\<rparr> in
      if \<not> m_valid u then Done (respond_status S_bad_request c)
      else if has_handler Http_handler c then Done (snd (call_handler env On_http c))
      else con_set_status (status_value S_upgrade_required) c)"

text \<open>The application accepts or rejects a valid handshake.\<close>

definition answer_handshake :: "env \<Rightarrow> processor \<Rightarrow> connection \<Rightarrow> outcome" where
  "answer_handshake env p c =
     (let (accepted, c) = (if has_handler Validate_handler c then call_handler env On_validate c else (True, c)) in
      if accepted
      then let c = respond_status S_switching_protocols c in
        lift_http c (processor_process_handshake env p (c_request c) (c_subprotocol c) (c_response c))
          (\<lambda>(ec, res). let c = c\<lparr>c_response := res\<rparr>
             in Done (if ec \<noteq> None then respond_status S_internal_server_error c else c))
      else Done (if m_status_code (c_response c) = status_value S_uninitialized
                 then respond_status S_bad_request c else c))"

text \<open>The answer whether the handshake succeeded is used by no caller. The code of the subprotocols is ignored.\<close>

definition process_handshake_request :: "env \<Rightarrow> connection \<Rightarrow> outcome" where
  "process_handshake_request env c =
     (if \<not> is_websocket_handshake (c_request c) then process_http_request env c
      else case c_processor c of
          None \<Rightarrow> Undefined
        | Some p \<Rightarrow>
            if processor_validate_handshake p (c_request c) \<noteq> None then Done (respond_status S_bad_request c)
            else let (ec, answer) = processor_negotiate env p (c_request c) in
              if ec \<noteq> None then Done (respond_status S_bad_request c)
              else
                let c = (if answer \<noteq> []
                         then c\<lparr>c_response := replace_header ''Sec-WebSocket-Extensions'' answer (c_response c)\<rparr> else c);
                    u = processor_get_uri env p (c_request c);
                    c = c\<lparr>c_uri := Some u\<rparr>
                in if \<not> m_valid u then Done (respond_status S_bad_request c)
                   else
                     let (subp_ec, subs) = processor_extract_subprotocols p (c_request c) (c_requested_subprotocols c)
                     in answer_handshake env p (c\<lparr>c_requested_subprotocols := subs\<rparr>))"

definition send_http_response :: "connection \<Rightarrow> connection" where
  "send_http_response c =
     (let res = c_response c;
          res = (if m_status_code res = status_value S_uninitialized
                 then set_status (status_value S_internal_server_error) res else res);
          res = set_version ''HTTP/1.1'' res;
          res = (if get_header ''Server'' res = []
                 then if c_user_agent c \<noteq> [] then replace_header ''Server'' (c_user_agent c) res
                      else remove_header ''Server'' res
                 else res);
          raw = (case c_processor c of Some p \<Rightarrow> processor_get_raw p res | None \<Rightarrow> response_raw res)
      in start_op (Op_write_response raw) (c\<lparr>c_response := res, c_handshake_buffer := raw\<rparr>))"

definition send_http_response_error :: "connection \<Rightarrow> outcome" where
  "send_http_response_error c =
     after (atomic_state_change READ_HTTP_REQUEST PROCESS_HTTP_REQUEST c) (\<lambda>c. Done (send_http_response c))"

text \<open>
  A request that is complete. The draft without a version needs eight octets behind the header, in the same read; \<open>n\<close>
  octets of \<open>buf\<close> have been processed.
\<close>

definition request_complete :: "env \<Rightarrow> bytes \<Rightarrow> nat \<Rightarrow> connection \<Rightarrow> outcome" where
  "request_complete env buf n c =
     (let (known, c) = initialize_processor env c in
      if \<not> known then send_http_response_error c
      else
        let draft = (case c_processor c of Some p \<Rightarrow> processor_version p = 0 | None \<Rightarrow> False) in
        if draft \<and> (of_nat (length buf) - of_nat n :: u64) < 8
        then send_http_response_error (respond_status S_internal_server_error c)
        else
          let c = (if draft
                   then c\<lparr>c_request := replace_header ''Sec-WebSocket-Key3'' (octets_text (take 8 (drop n buf))) (c_request c)\<rparr>
                   else c);
              c = c\<lparr>c_buf := drop (if draft then n + 8 else n) buf\<rparr>
          in after (atomic_state_change READ_HTTP_REQUEST PROCESS_HTTP_REQUEST c) (\<lambda>c.
             after (process_handshake_request env c) (\<lambda>c. Done (send_http_response c))))"

definition handle_read_handshake :: "env \<Rightarrow> ec \<Rightarrow> bytes \<Rightarrow> connection \<Rightarrow> outcome" where
  "handle_read_handshake env ec buf c =
     after (atomic_state_check READ_HTTP_REQUEST c) (\<lambda>c.
       if ec \<noteq> None then
         if ec = Some (Transport T_eof) \<and> c_state c = Closed then Done c else Done (terminate ec c)
       else if length buf > s_read_buffer_size env then Done (terminate (Some (Lib E_general)) c)
       else case request_consume (octets_text buf) (c_request c) of
           Throw msg code \<Rightarrow> send_http_response_error (c\<lparr>c_response := set_status_msg code msg (c_response c)\<rparr>)
         | Bad_range \<Rightarrow> Undefined
         | Value (r, n) \<Rightarrow>
             let c = c\<lparr>c_request := r\<rparr> in
             if n > s_read_buffer_size env then Done (terminate (Some (Lib E_general)) c)
             else if m_ready r then request_complete env buf n c
             else Done (start_op Op_read_handshake c))"

definition handle_send_http_response :: "env \<Rightarrow> ec \<Rightarrow> connection \<Rightarrow> outcome option" where
  "handle_send_http_response env ec c =
     after_option (atomic_state_check PROCESS_HTTP_REQUEST c) (\<lambda>c.
       if ec \<noteq> None then Some (Done (terminate ec c))
       else let c = cancel_handshake_timer c in
         if m_status_code (c_response c) \<noteq> status_value S_switching_protocols
         then Some (Done (terminate (Some (Lib E_http_connection_ended)) c))
         else after_option (atomic_state_change_both PROCESS_HTTP_REQUEST PROCESS_CONNECTION Connecting Open c) (\<lambda>c.
           let c = notify env On_open c in handle_read_frame env None (c_buf c) c))"

subsection \<open>The opening handshake of a client\<close>

definition send_http_request :: "env \<Rightarrow> connection \<Rightarrow> outcome" where
  "send_http_request env c =
     (case c_processor c of
        None \<Rightarrow> Done c
      | Some p \<Rightarrow>
          if processor_version p = 13 \<and> c_uri c = None then Undefined
          else
            let keys = List.map (\<lambda>i. s_rng env (c_draws c + i)) [0..<4] in
            lift_http c (processor_client_request keys p (c_request c) (the (c_uri c)) (c_requested_subprotocols c))
              (\<lambda>(ec, req).
                if ec \<noteq> None then Done (c\<lparr>c_request := req\<rparr>)
                else
                  let req = (if get_header ''User-Agent'' req = []
                             then if c_user_agent c \<noteq> [] then replace_header ''User-Agent'' (c_user_agent c) req
                                  else remove_header ''User-Agent'' req
                             else req);
                      raw = request_raw req;
                      c = c\<lparr>c_request := req, c_draws := c_draws c + 4, c_handshake_buffer := raw\<rparr>;
                      c = set_handshake_timer env (c_open_timeout c) Open_timer c
                  in Done (start_op (Op_write_request raw) c)))"

definition handle_send_http_request :: "ec \<Rightarrow> connection \<Rightarrow> outcome" where
  "handle_send_http_request ec c =
     after (atomic_state_check WRITE_HTTP_REQUEST c) (\<lambda>c.
       if ec \<noteq> None then Done (terminate ec c)
       else after (atomic_state_change WRITE_HTTP_REQUEST READ_HTTP_RESPONSE c) (\<lambda>c.
         Done (start_op Op_read_response c)))"

definition handle_read_http_response :: "env \<Rightarrow> ec \<Rightarrow> bytes \<Rightarrow> connection \<Rightarrow> outcome option" where
  "handle_read_http_response env ec buf c =
     after_option (atomic_state_check READ_HTTP_RESPONSE c) (\<lambda>c.
       if ec \<noteq> None then Some (Done (terminate ec c))
       else case response_consume (octets_text buf) (c_response c) of
           Throw msg code \<Rightarrow> Some (Done (terminate (Some (Lib E_general)) c))
         | Bad_range \<Rightarrow> Some Undefined
         | Value (res, n) \<Rightarrow>
             let c = c\<lparr>c_response := res\<rparr> in
             if headers_ready res then
               let c = cancel_handshake_timer c in
               case c_processor c of
                 None \<Rightarrow> Some Undefined
               | Some p \<Rightarrow>
                   let validate_ec = processor_validate_response p (c_request c) res in
                   if validate_ec \<noteq> None then Some (Done (terminate validate_ec c))
                   else after_option (atomic_state_change_both READ_HTTP_RESPONSE PROCESS_CONNECTION Connecting Open c) (\<lambda>c.
                     let c = notify env On_open c; c = c\<lparr>c_buf := drop n buf\<rparr>
                     in handle_read_frame env None (c_buf c) c)
             else Some (Done (start_op Op_read_response c)))"

subsection \<open>Start\<close>

definition start :: "connection \<Rightarrow> outcome" where
  "start c = after (atomic_state_change USER_INIT TRANSPORT_INIT c) (\<lambda>c. Done (start_op Op_init c))"

definition handle_transport_init :: "env \<Rightarrow> ec \<Rightarrow> connection \<Rightarrow> outcome" where
  "handle_transport_init env ec c =
     (if c_internal_state c \<noteq> TRANSPORT_INIT then Throws (Error_code (Lib E_invalid_state)) c
      else if ec \<noteq> None then Done (terminate ec c)
      else if c_is_server c then Done (read_handshake env (c\<lparr>c_internal_state := READ_HTTP_REQUEST\<rparr>))
      else let c = c\<lparr>c_internal_state := WRITE_HTTP_REQUEST\<rparr>
        in send_http_request env (c\<lparr>c_processor := get_processor env (s_client_version env) c\<rparr>))"

subsection \<open>Steps\<close>

text \<open>The handler of an operation, called with its result: an error code and the octets read.\<close>

fun complete_op :: "env \<Rightarrow> operation \<Rightarrow> ec \<Rightarrow> bytes \<Rightarrow> connection \<Rightarrow> outcome option" where
  "complete_op env Op_init ec buf c = Some (handle_transport_init env ec c)"
| "complete_op env Op_read_handshake ec buf c = Some (handle_read_handshake env ec buf c)"
| "complete_op env Op_read_response ec buf c = handle_read_http_response env ec buf c"
| "complete_op env Op_read_frame ec buf c = handle_read_frame env ec buf c"
| "complete_op env (Op_write_request s) ec buf c = Some (handle_send_http_request ec c)"
| "complete_op env (Op_write_response s) ec buf c = handle_send_http_response env ec c"
| "complete_op env (Op_write_frames bs) ec buf c = Some (handle_write_frame ec c)"
| "complete_op env (Op_timer n Open_timer) ec buf c = Some (Done (handle_open_handshake_timeout ec c))"
| "complete_op env (Op_timer n Close_timer) ec buf c = Some (Done (handle_close_handshake_timeout ec c))"
| "complete_op env (Op_timer n (Pong_timer payload)) ec buf c = Some (Done (handle_pong_timeout env payload ec c))"
| "complete_op env (Op_shutdown tstat) ec buf c = Some (Done (handle_terminate env tstat ec c))"
| "complete_op env Op_dispatch_write ec buf c = Some (Done (write_frame c))"
| "complete_op env Op_dispatch_pause ec buf c = Some (Done (handle_pause_reading c))"
| "complete_op env Op_dispatch_resume ec buf c = Some (Done (handle_resume_reading c))"
| "complete_op env Op_interrupt ec buf c = Some (Done (handle_interrupt env c))"

text \<open>The calls of the application and of the endpoint; the error codes they answer are left out.\<close>

datatype api =
    Send message | Send_payload bytes opcode | Send_ping bytes | Send_pong bytes | Send_close u16 bytes
  | Call_interrupt | Call_pause | Call_resume | Set_handler handler bool
  | Set_open_timeout int | Set_close_timeout int | Set_pong_timeout int | Set_max_message_size u64
  | Set_uri uri | Add_subprotocol string | Select_subprotocol string
  | Set_status int | Set_status_msg int string | Set_body string
  | Append_header string string | Replace_header string string | Remove_header string
  | Start | Terminate ec

definition sent :: "(ec \<times> connection) option \<Rightarrow> outcome" where
  "sent r = (case r of None \<Rightarrow> Undefined | Some (ec, c) \<Rightarrow> Done c)"

fun api_call :: "env \<Rightarrow> api \<Rightarrow> connection \<Rightarrow> outcome" where
  "api_call env (Send msg) c = sent (send env msg c)"
| "api_call env (Send_payload payload op) c = sent (send_payload env payload op c)"
| "api_call env (Send_ping payload) c = sent (ping env payload c)"
| "api_call env (Send_pong payload) c = sent (pong env payload c)"
| "api_call env (Send_close code reason) c = sent (close env code reason c)"
| "api_call env Call_interrupt c = Done (interrupt c)"
| "api_call env Call_pause c = Done (pause_reading c)"
| "api_call env Call_resume c = Done (resume_reading c)"
| "api_call env (Set_handler h b) c = Done (set_handler h b c)"
| "api_call env (Set_open_timeout n) c = Done (set_open_handshake_timeout n c)"
| "api_call env (Set_close_timeout n) c = Done (set_close_handshake_timeout n c)"
| "api_call env (Set_pong_timeout n) c = Done (set_pong_timeout n c)"
| "api_call env (Set_max_message_size n) c = Done (set_max_message_size n c)"
| "api_call env (Set_uri u) c = Done (con_set_uri u c)"
| "api_call env (Add_subprotocol s) c = Done (snd (add_subprotocol s None c))"
| "api_call env (Select_subprotocol s) c = Done (snd (select_subprotocol s None c))"
| "api_call env (Set_status code) c = con_set_status code c"
| "api_call env (Set_status_msg code msg) c = con_set_status_msg code msg c"
| "api_call env (Set_body body) c = con_set_body body c"
| "api_call env (Append_header k v) c = con_append_header k v c"
| "api_call env (Replace_header k v) c = con_replace_header k v c"
| "api_call env (Remove_header k) c = con_remove_header k c"
| "api_call env Start c = start c"
| "api_call env (Terminate ec) c = Done (terminate ec c)"

text \<open>The connection a handler leaves, whether it returns or throws.\<close>

inductive leaves :: "outcome \<Rightarrow> connection \<Rightarrow> bool" where
  "leaves (Done c) c"
| "leaves (Throws e c) c"

inductive_simps leaves_simps [simp]: "leaves (Done c) c'" "leaves (Throws e c) c'" "leaves Undefined c'"

text \<open>Any number of calls, one after the other: what an application handler may do.\<close>

inductive calls :: "env \<Rightarrow> connection \<Rightarrow> connection \<Rightarrow> bool" for env where
  no_calls: "calls env c c"
| more_calls: "calls env c c1 \<Longrightarrow> leaves (api_call env a c1) c2 \<Longrightarrow> calls env c c2"

definition app_ok :: "env \<Rightarrow> bool" where
  "app_ok env \<longleftrightarrow> (\<forall>cb c. calls env c (snd (application env cb c)))"

definition take_op :: "operation \<Rightarrow> connection \<Rightarrow> connection" where
  "take_op op c = c\<lparr>c_outstanding := remove1 op (c_outstanding c)\<rparr>"

text \<open>A successful read delivers at least one octet and no more than the buffer holds.\<close>

definition result_ok :: "'e settings_scheme \<Rightarrow> operation \<Rightarrow> ec \<Rightarrow> bytes \<Rightarrow> bool" where
  "result_ok env op ec buf \<longleftrightarrow>
     op \<notin> {Op_read_handshake, Op_read_response, Op_read_frame} \<or> ec \<noteq> None \<or>
     0 < length buf \<and> length buf \<le> s_read_buffer_size env"

inductive step :: "env \<Rightarrow> connection \<Rightarrow> connection \<Rightarrow> bool" for env where
  by_call: "leaves (api_call env a c) c' \<Longrightarrow> step env c c'"
| by_completion: "op \<in> set (c_outstanding c) \<Longrightarrow> result_ok env op ec buf \<Longrightarrow>
    complete_op env op ec buf (take_op op c) = Some r \<Longrightarrow> leaves r c' \<Longrightarrow> step env c c'"

inductive con_reachable :: "env \<Rightarrow> connection \<Rightarrow> bool" for env where
  fresh: "con_reachable env (make_connection is_server ua ot ct pt mx)"
| next_state: "con_reachable env c \<Longrightarrow> step env c c' \<Longrightarrow> con_reachable env c'"

end
