(* ===== verification/Connection_Steps.thy ===== *)
theory Connection_Steps
  imports Connection
begin

text \<open>
  What every operation of a connection respects. A relation between connections that is a preorder, ignores
  private fields and holds for the few updates of shared state holds for every call of the application and for every
  completion. The relations proved this way: the invariant of the writer and of termination, the
  progress of the session state, and the order of outgoing messages.
\<close>

subsection \<open>Kinds of operations\<close>

fun phase_of :: "operation \<Rightarrow> internal_state option" where
  "phase_of Op_init = Some TRANSPORT_INIT"
| "phase_of Op_read_handshake = Some READ_HTTP_REQUEST"
| "phase_of (Op_write_response s) = Some PROCESS_HTTP_REQUEST"
| "phase_of (Op_write_request s) = Some WRITE_HTTP_REQUEST"
| "phase_of Op_read_response = Some READ_HTTP_RESPONSE"
| "phase_of Op_read_frame = Some PROCESS_CONNECTION"
| "phase_of _ = None"

fun is_write :: "operation \<Rightarrow> bool" where
  "is_write (Op_write_frames bs) = True"
| "is_write _ = False"

fun is_shutdown :: "operation \<Rightarrow> bool" where
  "is_shutdown (Op_shutdown t) = True"
| "is_shutdown _ = False"

text \<open>The callbacks that hand something received to the application, or tell it that it may send.\<close>

fun delivers :: "callback \<Rightarrow> bool" where
  "delivers On_open = True"
| "delivers (On_message m) = True"
| "delivers (On_ping s) = True"
| "delivers (On_pong s) = True"
| "delivers _ = False"

text \<open>The operations any part of the code may start.\<close>

definition ordinary :: "operation \<Rightarrow> bool" where
  "ordinary op \<longleftrightarrow> phase_of op = None \<and> \<not> is_write op \<and> \<not> is_shutdown op"

lemma ordinary_simps [simp]:
  "ordinary Op_dispatch_write" "ordinary Op_dispatch_pause" "ordinary Op_dispatch_resume" "ordinary Op_interrupt"
  "ordinary (Op_timer n t)"
  by (simp_all add: ordinary_def)

text \<open>Connections that agree on everything the relations speak of.\<close>

definition same_core :: "connection \<Rightarrow> connection \<Rightarrow> bool" where
  "same_core c c' \<longleftrightarrow>
     c_is_server c' = c_is_server c \<and> c_state c' = c_state c \<and> c_internal_state c' = c_internal_state c \<and>
     c_processor c' = c_processor c \<and> c_send_queue c' = c_send_queue c \<and> c_send_buffer_size c' = c_send_buffer_size c \<and>
     c_current_msgs c' = c_current_msgs c \<and> c_send_buffer c' = c_send_buffer c \<and> c_write_flag c' = c_write_flag c \<and>
     c_trace c' = c_trace c \<and> c_outstanding c' = c_outstanding c"

lemma leaves_lift [simp]:
  "leaves (lift_http c r f) c' \<longleftrightarrow> (\<exists>x. r = Value x \<and> leaves (f x) c') \<or> (\<exists>m k. r = Throw m k \<and> c' = c)"
  by (cases r) auto

lemma leaves_after [simp]:
  "leaves (after r f) c' \<longleftrightarrow> (\<exists>c. r = Done c \<and> leaves (f c) c') \<or> (\<exists>e. r = Throws e c')"
  by (cases r) auto

lemma after_option_leaves:
  "after_option r f = Some r' \<Longrightarrow> leaves r' c' \<Longrightarrow>
     (\<exists>c. r = Done c \<and> f c = Some r') \<or> (\<exists>e. r = Throws e c')"
  by (cases r) auto

lemma atomic_simps [simp]:
  "atomic_state_check i c = Done c' \<longleftrightarrow> c_internal_state c = i \<and> c' = c"
  "atomic_state_check i c = Throws e c' \<longleftrightarrow> c_internal_state c \<noteq> i \<and> e = Error_code (Lib E_invalid_state) \<and> c' = c"
  "atomic_state_change i j c = Done c' \<longleftrightarrow> c_internal_state c = i \<and> c' = c\<lparr>c_internal_state := j\<rparr>"
  "atomic_state_change i j c = Throws e c' \<longleftrightarrow> c_internal_state c \<noteq> i \<and> e = Error_code (Lib E_invalid_state) \<and> c' = c"
  "atomic_state_change_both i j s t c = Done c' \<longleftrightarrow>
     c_internal_state c = i \<and> c_state c = s \<and> c' = c\<lparr>c_internal_state := j, c_state := t\<rparr>"
  "atomic_state_change_both i j s t c = Throws e c' \<longleftrightarrow>
     \<not> (c_internal_state c = i \<and> c_state c = s) \<and> e = Error_code (Lib E_invalid_state) \<and> c' = c"
  by (auto simp: atomic_state_check_def atomic_state_change_def atomic_state_change_both_def)

lemma same_core_updates [simp, intro]:
  "same_core c (c\<lparr>c_handshake_timer := n\<rparr>)" "same_core c (c\<lparr>c_ping_timer := n\<rparr>)" "same_core c (c\<lparr>c_next_timer := k\<rparr>)"
  "same_core c (c\<lparr>c_was_clean := w\<rparr>)" "same_core c (c\<lparr>c_draws := k\<rparr>)" "same_core c (c\<lparr>c_response := res\<rparr>)"
  "same_core c (c\<lparr>c_request := req\<rparr>)" "same_core c (c\<lparr>c_uri := u\<rparr>)" "same_core c (c\<lparr>c_subprotocol := sub\<rparr>)"
  "same_core c (c\<lparr>c_requested_subprotocols := subs\<rparr>)" "same_core c (c\<lparr>c_handshake_buffer := s\<rparr>)"
  "same_core c (c\<lparr>c_buf := buf\<rparr>)" "same_core c (c\<lparr>c_read_flag := w\<rparr>)" "same_core c (c\<lparr>c_handlers := hs\<rparr>)"
  "same_core c (c\<lparr>c_open_timeout := i\<rparr>)" "same_core c (c\<lparr>c_close_timeout := i\<rparr>)" "same_core c (c\<lparr>c_pong_timeout := i\<rparr>)"
  "same_core c (c\<lparr>c_remote_close_code := code\<rparr>)" "same_core c (c\<lparr>c_remote_close_reason := buf\<rparr>)" "same_core c c"
  by (simp_all add: same_core_def)

lemma state_simps [simp]:
  "c_state (start_op op c) = c_state c" "c_state (cancel_timer n c) = c_state c"
  "c_state (snd (set_timer env t c)) = c_state c" "c_state (draw c ec) = c_state c"
  "c_state (write_push m c) = c_state c" "c_state (push_and_dispatch m c) = c_state c"
  "c_state (set_close_info env code reason ack c) = c_state c"
  by (simp_all add: start_op_def cancel_timer_def set_timer_def draw_def write_push_def push_and_dispatch_def
      set_close_info_def Let_def split: option.split processor.split)

lemma state_timers [simp]:
  "c_state (set_handshake_timer env n t c) = c_state c" "c_state (set_ping_timer env payload c) = c_state c"
  using state_simps(3) [of env t c]
  by (simp_all add: set_handshake_timer_def set_ping_timer_def set_timer_def Let_def split: prod.split option.split)

subsection \<open>Calls of the application and control frames\<close>

locale connection_relation =
  fixes R :: "connection \<Rightarrow> connection \<Rightarrow> bool"
  assumes refl [simp]: "R c c"
    and trans: "R c c1 \<Longrightarrow> R c1 c2 \<Longrightarrow> R c c2"
    and hidden: "same_core c c' \<Longrightarrow> R c c'"
    and op: "ordinary op \<Longrightarrow> R c (start_op op c)"
    and cancel: "R c (cancel_timer n c)"
    and called: "cb \<noteq> On_close \<Longrightarrow> cb \<noteq> On_fail \<Longrightarrow> (delivers cb \<longrightarrow> c_state c = Open) \<Longrightarrow>
      R c (c\<lparr>c_trace := c_trace c @ [Called cb]\<rparr>)"
    and push: "c_state c \<noteq> Closed \<Longrightarrow> R c (push_and_dispatch m c)"
    and closing: "c_state c \<noteq> Closed \<Longrightarrow> R c (c\<lparr>c_state := Closing\<rparr>)"
    and terminated: "R c (terminate ec c)"
    and started: "c_internal_state c = USER_INIT \<Longrightarrow> R c (start_op Op_init (c\<lparr>c_internal_state := TRANSPORT_INIT\<rparr>))"
    and resized: "R c (set_max_message_size mx c)"
begin

lemma hidden_last: "R c c1 \<Longrightarrow> same_core c1 c2 \<Longrightarrow> R c c2"
  using hidden trans by blast

lemma hidden_first: "R c1 c2 \<Longrightarrow> same_core c c1 \<Longrightarrow> R c c2"
  using hidden trans by blast

lemma timer: "set_timer env t c = (n, c') \<Longrightarrow> R c c'"
  by (auto simp: set_timer_def split: if_splits intro!: trans [OF hidden op])

lemma handshake_timer: "R c (set_handshake_timer env n t c)"
  by (auto simp: set_handshake_timer_def split: prod.split intro: hidden_last [OF timer])

lemma cancelled: "R c (case n of None \<Rightarrow> c | Some n \<Rightarrow> cancel_timer n c)"
  using cancel by (simp split: option.split)

lemma ping_timer: "R c (set_ping_timer env payload c)"
  by (auto simp: set_ping_timer_def Let_def cancelled split: prod.split intro: hidden_last [OF trans [OF cancelled timer]])

lemma drawn: "R c (draw c ec)"
  by (rule hidden) (simp add: draw_def same_core_def split: option.split processor.split)

lemma drawn_push: "c_state c \<noteq> Closed \<Longrightarrow> R c (push_and_dispatch m (draw c ec))"
  by (rule trans [OF drawn push]) simp

lemma drawn_ping: "c_state c \<noteq> Closed \<Longrightarrow> R c (push_and_dispatch m (set_ping_timer env payload (draw c ec)))"
  by (rule trans [OF trans [OF drawn ping_timer] push]) simp

lemma sending: "send env msg c = Some (ec, c') \<Longrightarrow> R c c'"
  using push [of c] drawn_push [of c] drawn [of c]
  by (auto simp: send_def Let_def split: if_splits option.splits prod.splits)

lemma sending_payload: "send_payload env payload op c = Some (ec, c') \<Longrightarrow> R c c'"
  using sending by (auto simp: send_payload_def split: option.splits)

lemma pinging: "ping env payload c = Some (ec, c') \<Longrightarrow> R c c'"
  using drawn_ping [of c] drawn [of c] by (auto simp: ping_def Let_def split: if_splits option.splits prod.splits)

lemma ponging: "pong env payload c = Some (ec, c') \<Longrightarrow> R c c'"
  using drawn_push [of c] drawn [of c] by (auto simp: pong_def Let_def split: if_splits option.splits prod.splits)

lemma close_info: "R c (set_close_info env code reason ack c)"
  by (rule hidden) (simp add: set_close_info_def same_core_def)

lemma drawn_info: "R c (draw (set_close_info env code reason ack c) ec)"
  by (rule trans [OF close_info drawn])

lemma closing_frame:
  assumes "c_state c \<noteq> Closed" "send_close_frame env code reason ack terminal c = Some (ec, c')"
  shows "R c c'"
proof -
  let ?d = "\<lambda>ec. draw (set_close_info env code reason ack c) ec"
  have "R c (push_and_dispatch m (set_handshake_timer env n Close_timer
      ((?d ec)\<lparr>c_state := Closing, c_was_clean := w\<rparr>)))" for m n w ec
  proof (rule trans [OF drawn_info])
    let ?e = "(?d ec)\<lparr>c_state := Closing, c_was_clean := w\<rparr>"
    have "R (?d ec) ?e"
      using hidden_last [OF closing same_core_updates(4)] assms(1) by simp
    moreover have "R ?e (push_and_dispatch m (set_handshake_timer env n Close_timer ?e))"
      by (rule trans [OF handshake_timer push]) simp
    ultimately show "R (?d ec) (push_and_dispatch m (set_handshake_timer env n Close_timer ?e))"
      by (rule trans)
  qed
  then show ?thesis
    using assms(2) drawn_info close_info
    by (auto simp: send_close_frame_def Let_def split: if_splits option.splits prod.splits)
qed

end
context connection_relation
begin

lemma acking: "c_state c \<noteq> Closed \<Longrightarrow> send_close_ack env code reason c = Some (ec, c') \<Longrightarrow> R c c'"
  by (auto simp: send_close_ack_def intro: closing_frame)

lemma closed: "close env code reason c = Some (ec, c') \<Longrightarrow> R c c'"
  by (auto simp: close_def split: if_splits intro: closing_frame)

lemma calling: "leaves (api_call env a c) c' \<Longrightarrow> R c c'"
proof (induction env a c rule: api_call.induct)
  case (23 env c)
  then show ?case using started [of c] by (auto simp: start_def)
qed (auto simp: sent_def interrupt_def pause_reading_def resume_reading_def set_handler_def con_set_uri_def
      set_open_handshake_timeout_def set_close_handshake_timeout_def set_pong_timeout_def add_subprotocol_def
      select_subprotocol_def con_set_status_def con_set_status_msg_def con_set_body_def con_append_header_def
      con_replace_header_def con_remove_header_def resized terminated op
    split: option.splits if_splits
    intro: sending sending_payload pinging ponging closed hidden)

lemma many_calls: "calls env c c' \<Longrightarrow> R c c'"
  by (induction rule: calls.induct) (auto intro: trans calling)

lemma application_call: "app_ok env \<Longrightarrow> R c (snd (application env cb c))"
  unfolding app_ok_def by (blast intro: many_calls)

lemma handler_call:
  assumes "app_ok env" "cb \<noteq> On_close" "cb \<noteq> On_fail" "delivers cb \<longrightarrow> c_state c = Open"
  shows "R c (snd (call_handler env cb c))" "R c (notify env cb c)"
  using trans [OF called application_call] assms by (simp_all add: call_handler_def notify_def)

lemma ping_processed: "app_ok env \<Longrightarrow> c_state c = Open \<Longrightarrow> process_ping env msg c = Some c' \<Longrightarrow> R c c'"
  using handler_call(1) [of env "On_ping (msg_payload msg)" c]
  by (auto simp: process_ping_def Let_def split: prod.splits if_splits option.splits intro: ponging trans [OF _ ponging])

lemma pong_processed: "app_ok env \<Longrightarrow> c_state c = Open \<Longrightarrow> R c (process_pong env msg c)"
  by (simp add: process_pong_def Let_def trans [OF handler_call(2) cancelled])

lemma refused: "c_state c \<noteq> Closed \<Longrightarrow> refuse_close env ec reason c = Some c' \<Longrightarrow> R c c'"
  by (auto simp: refuse_close_def terminated split: if_splits intro: acking)

lemma close_processed:
  assumes "c_state c \<noteq> Closed" "process_close env msg c = Some c'"
  shows "R c c'"
proof -
  let ?c1 = "\<lambda>code. c\<lparr>c_remote_close_code := code\<rparr>"
  let ?c2 = "\<lambda>code reason. c\<lparr>c_remote_close_code := code, c_remote_close_reason := reason\<rparr>"
  let ?c3 = "\<lambda>code reason. c\<lparr>c_remote_close_code := code, c_remote_close_reason := reason, c_was_clean := True\<rparr>"
  have R: "R c (?c1 code)" "R c (?c2 code reason)" "R c (?c3 code reason)" for code reason
    by (rule hidden; simp add: same_core_def)+
  show ?thesis
    using assms R
    by (auto simp: process_close_def Let_def split: prod.splits if_splits
        intro: trans [OF R(1) refused] trans [OF R(2) refused] trans [OF R(2) acking] trans [OF R(3) terminated])
qed

lemma control_processed:
  assumes "app_ok env" "process_control_frame env msg c = Some c'"
  shows "R c c'"
  using assms by (auto simp: process_control_frame_def split: if_splits intro: ping_processed pong_processed close_processed)

lemma failed: "leaves (consume_failed env e c) c' \<Longrightarrow> R c c'"
  by (auto simp: consume_failed_def terminated split: if_splits option.splits prod.splits intro: closed trans [OF closed terminated])

end
subsection \<open>Completions\<close>

locale step_relation = connection_relation +
  assumes processor: "R c (c\<lparr>c_processor := p\<rparr>)"
    and phase: "phase_of op \<noteq> None \<Longrightarrow> R c (start_op op c)"
    and internal: "R c (c\<lparr>c_internal_state := i\<rparr>)"
    and opened: "c_state c = Connecting \<Longrightarrow> R c (c\<lparr>c_internal_state := i, c_state := Open\<rparr>)"
    and writing: "Op_dispatch_write \<in> set (c_outstanding c) \<Longrightarrow> R c (write_frame (take_op Op_dispatch_write c))"
    and taken: "\<not> is_write op \<Longrightarrow> \<not> is_shutdown op \<Longrightarrow> op \<noteq> Op_dispatch_write \<Longrightarrow> R c (take_op op c)"
    and written: "op \<in> set (c_outstanding c) \<Longrightarrow> is_write op \<Longrightarrow> handle_write_frame ec (take_op op c) = Done c' \<Longrightarrow> R c c'"
    and shut: "Op_shutdown t \<in> set (c_outstanding c) \<Longrightarrow> R c (take_op (Op_shutdown t) c)"
    and shut_called: "Op_shutdown t \<in> set (c_outstanding c) \<Longrightarrow> cb = On_close \<or> cb = On_fail \<Longrightarrow>
      R c ((take_op (Op_shutdown t) c)\<lparr>c_trace := c_trace c @ [Called cb]\<rparr>)"
begin

lemma cancelled_handshake: "R c (cancel_handshake_timer c)"
  unfolding cancel_handshake_timer_def using hidden_last [OF cancel same_core_updates(1)]
  by (simp split: option.split)

lemma reading: "R c (read_frame c)"
  by (simp add: read_frame_def phase)

lemma dispatched: "app_ok env \<Longrightarrow> dispatch_ready env p c = Some c' \<Longrightarrow> R c c'"
  by (auto simp: dispatch_ready_def Let_def processor split: if_splits prod.splits option.splits
      intro: trans [OF processor handler_call(2)] trans [OF processor control_processed])

lemma loop:
  assumes "app_ok env" "read_loop env buf c = Some r" "leaves r c'"
  shows "R c c'"
proof -
  have "app_ok env \<longrightarrow> leaves r c' \<longrightarrow> R c c'"
  proof (rule read_loop.raw_induct [where P = "\<lambda>env buf c r. app_ok env \<longrightarrow> leaves r c' \<longrightarrow> R c c'", OF _ assms(2)],
      intro impI)
    fix f env buf c r
    assume IH: "\<And>env buf c r. f env buf c = Some r \<Longrightarrow> app_ok env \<longrightarrow> leaves r c' \<longrightarrow> R c c'"
      and body: "(if buf = [] then Some (Done (read_frame c))
          else case c_processor c of
              None \<Rightarrow> Some Undefined
            | Some p \<Rightarrow>
                (case processor_consume p buf of
                   None \<Rightarrow> Some Undefined
                 | Some (p', n, Some e) \<Rightarrow> Some (consume_failed env e (c\<lparr>c_processor := Some p'\<rparr>))
                 | Some (p', n, None) \<Rightarrow>
                     (case dispatch_ready env p' (c\<lparr>c_processor := Some p'\<rparr>) of
                        None \<Rightarrow> Some Undefined
                      | Some c' \<Rightarrow> f env (drop n buf) c'))) = Some r"
      and ok: "app_ok env" and r: "leaves r c'"
    have step: "R c d" if "dispatch_ready env p (c\<lparr>c_processor := Some p'\<rparr>) = Some d" for p p' d
      by (rule trans [OF processor dispatched [OF ok that]])
    have fail: "R c c'" if "leaves (consume_failed env e (c\<lparr>c_processor := Some p'\<rparr>)) c'" for e p'
      by (rule trans [OF processor failed]) (rule that)
    have go: "R d c'" if "f env bs d = Some r" for bs d
      using IH [OF that] ok r by simp
    show "R c c'"
      using body r
      by (auto simp: reading split: if_splits option.splits prod.splits intro: fail trans [OF step go])
  qed
  then show ?thesis using assms by simp
qed

end
context step_relation
begin

lemma frame_read: "app_ok env \<Longrightarrow> handle_read_frame env ec buf c = Some r \<Longrightarrow> leaves r c' \<Longrightarrow> R c c'"
  by (auto simp: handle_read_frame_def read_frame_error_def terminated atomic_state_check_def
      split: option.splits if_splits intro: loop)

lemma response_sent: "R c (send_http_response c)"
  unfolding send_http_response_def Let_def
  by (rule trans [OF hidden phase]) (simp_all add: same_core_def)

lemma error_sent: "leaves (send_http_response_error c) c' \<Longrightarrow> R c c'"
  by (auto simp: send_http_response_error_def intro: trans [OF internal response_sent])

lemma responded: "R c (respond_status s c)"
  by (rule hidden) (simp add: respond_status_def)

lemma initialized: "initialize_processor env c = (b, c') \<Longrightarrow> R c c'"
  by (auto simp: initialize_processor_def Let_def processor hidden hidden_last [OF processor same_core_updates(6)] split: if_splits)

lemma http_processed: "app_ok env \<Longrightarrow> leaves (process_http_request env c) c' \<Longrightarrow> R c c'"
  by (auto simp: process_http_request_def con_set_status_def respond_status_def Let_def same_core_def
      split: if_splits intro: hidden hidden_last trans [OF hidden handler_call(1)])

lemma responded_after: "R c d \<Longrightarrow> R c (respond_status s d)"
  by (rule trans [OF _ responded])

lemma answered:
  assumes "app_ok env" "leaves (answer_handshake env p c) c'"
  shows "R c c'"
proof -
  obtain b d where d: "(if has_handler Validate_handler c then call_handler env On_validate c else (True, c)) = (b, d)"
    by fastforce
  then have R: "R c d" using handler_call(1) [of env On_validate c] assms(1) by (auto split: if_splits)
  have "R c ((respond_status s d)\<lparr>c_response := res\<rparr>)" for s res
    by (rule hidden_last [OF responded_after [OF R]]) (rule same_core_updates)
  then show ?thesis
    using assms(2) d R responded_after
    by (auto simp: answer_handshake_def Let_def split: if_splits)
qed

lemma handshake_processed:
  assumes "app_ok env" "leaves (process_handshake_request env c) c'"
  shows "R c c'"
proof -
  have [simp]: "same_core c (respond_status s (c\<lparr>c_response := res, c_uri := u\<rparr>))"
    "same_core c (respond_status s (c\<lparr>c_uri := u\<rparr>))" "same_core c (respond_status s c)"
    "same_core c (c\<lparr>c_uri := u, c_requested_subprotocols := subs\<rparr>)"
    "same_core c (c\<lparr>c_response := res, c_uri := u, c_requested_subprotocols := subs\<rparr>)" for s u res subs
    by (simp_all add: respond_status_def same_core_def)
  have "R c c'" if "leaves (answer_handshake env p d) c'" "same_core c d" for p d
    by (rule trans [OF hidden [OF that(2)] answered [OF assms(1) that(1)]])
  then show ?thesis
    using assms(2)
    by (auto simp: process_handshake_request_def Let_def hidden
        split: if_splits option.splits prod.splits intro: http_processed [OF assms(1)])
qed

lemma request_completed:
  assumes "app_ok env" "leaves (request_complete env buf n c) c'"
  shows "R c c'"
proof -
  obtain known d where d: "initialize_processor env c = (known, d)" by fastforce
  have R: "R c d" by (rule initialized [OF d])
  have go: "R c c'" if "leaves (after (atomic_state_change READ_HTTP_REQUEST PROCESS_HTTP_REQUEST e) (\<lambda>c.
      after (process_handshake_request env c) (\<lambda>c. Done (send_http_response c)))) c'" "same_core d e" for e
  proof -
    have e: "R c e" by (rule hidden_last [OF R that(2)])
    have i: "R c (e\<lparr>c_internal_state := PROCESS_HTTP_REQUEST\<rparr>)" by (rule trans [OF e internal])
    have "R c f" if "leaves (process_handshake_request env (e\<lparr>c_internal_state := PROCESS_HTTP_REQUEST\<rparr>)) f" for f
      by (rule trans [OF i handshake_processed [OF assms(1) that]])
    then show ?thesis using that(1) e by (auto intro: trans [OF _ response_sent] leaves.intros)
  qed
  have core: "same_core d (d\<lparr>c_request := r, c_buf := b\<rparr>)" for r b by (simp add: same_core_def)
  show ?thesis
    using assms(2) unfolding request_complete_def d Let_def prod.case
    by (auto simp: core simp del: leaves_after split: if_splits dest!: go error_sent
        intro: trans [OF R] trans [OF responded_after [OF R]])
qed

lemma handshake_read: "app_ok env \<Longrightarrow> leaves (handle_read_handshake env ec buf c) c' \<Longrightarrow> R c c'"
  by (auto simp: handle_read_handshake_def Let_def terminated phase
      split: if_splits http_result.splits
      intro!: hidden_first [OF terminated] hidden_first [OF phase] dest!: error_sent request_completed
      intro: hidden_first)

end
context step_relation
begin

lemma opened_read:
  assumes "app_ok env" "c_state c = Connecting" "same_core (notify env On_open (c\<lparr>c_internal_state := i, c_state := Open\<rparr>)) d"
    and "handle_read_frame env ec buf d = Some r" "leaves r c'"
  shows "R c c'"
  by (rule trans [OF trans [OF opened [OF assms(2)] handler_call(2)] hidden_first [OF frame_read]])
    (use assms in simp_all)

lemma response_written:
  assumes "app_ok env" "handle_send_http_response env ec c = Some r" "leaves r c'"
  shows "R c c'"
proof -
  let ?d = "cancel_handshake_timer c"
  have go: "R c c'" if "c_state ?d = Connecting"
    "handle_read_frame env None buf (notify env On_open (?d\<lparr>c_internal_state := i, c_state := Open\<rparr>)) = Some r" for i buf
    by (rule trans [OF cancelled_handshake opened_read [OF assms(1) that(1) _ that(2) assms(3), of i]]) simp
  note ended = trans [OF cancelled_handshake terminated, of c "Some (Lib E_http_connection_ended)"]
  show ?thesis
  proof (cases "c_internal_state c = PROCESS_HTTP_REQUEST \<and> ec = None \<and>
      m_status_code (c_response ?d) = status_value S_switching_protocols")
    case True
    then have r: "after_option (atomic_state_change_both PROCESS_HTTP_REQUEST PROCESS_CONNECTION Connecting Open ?d)
        (\<lambda>c. let c = notify env On_open c in handle_read_frame env None (c_buf c) c) = Some r"
      using assms(2) by (simp add: handle_send_http_response_def atomic_state_check_def Let_def)
    show ?thesis
      using after_option_leaves [OF r assms(3)] by (auto simp: Let_def cancelled_handshake intro: go)
  next
    case False
    then show ?thesis
      using assms(2,3) ended terminated [of c ec]
      by (auto simp: handle_send_http_response_def atomic_state_check_def Let_def split: if_splits)
  qed
qed

lemma request_written: "leaves (handle_send_http_request ec c) c' \<Longrightarrow> R c c'"
  by (auto simp: handle_send_http_request_def terminated split: if_splits intro: trans [OF internal phase])

lemma request_sent: "leaves (send_http_request env c) c' \<Longrightarrow> R c c'"
proof -
  have "R c (start_op (Op_write_request raw) (set_handshake_timer env n t d))" if "same_core c d" for raw n t d
    by (rule trans [OF hidden_first [OF handshake_timer that] phase]) simp
  moreover have "same_core c (c\<lparr>c_request := req, c_draws := k, c_handshake_buffer := raw\<rparr>)" for req k raw
    by (simp add: same_core_def)
  ultimately show "leaves (send_http_request env c) c' \<Longrightarrow> R c c'"
    by (auto simp: send_http_request_def Let_def hidden split: option.splits if_splits prod.splits)
qed

lemma transport_ready: "leaves (handle_transport_init env ec c) c' \<Longrightarrow> R c c'"
  by (auto simp: handle_transport_init_def read_handshake_def Let_def terminated split: if_splits
      intro: trans [OF trans [OF internal handshake_timer] phase] trans [OF trans [OF internal processor] request_sent])

end
context step_relation
begin

lemma response_read:
  assumes "app_ok env" "handle_read_http_response env ec buf c = Some r" "leaves r c'"
  shows "R c c'"
proof (cases "c_internal_state c = READ_HTTP_RESPONSE \<and> ec = None")
  case False
  then show ?thesis
    using assms(2,3) terminated [of c ec]
    by (auto simp: handle_read_http_response_def atomic_state_check_def split: if_splits)
next
  case True
  show ?thesis
  proof (cases "response_consume (octets_text buf) (c_response c)")
    case (Value x)
    obtain res n where x: "x = (res, n)" by fastforce
    define d where "d = cancel_handshake_timer (c\<lparr>c_response := res\<rparr>)"
    have R: "R c d" unfolding d_def by (rule hidden_first [OF cancelled_handshake]) simp
    have go: "R c c'" if "c_state d = Connecting"
      "handle_read_frame env None b ((notify env On_open (d\<lparr>c_internal_state := i, c_state := Open\<rparr>))\<lparr>c_buf := b'\<rparr>) = Some r" for i b b'
      by (rule trans [OF R opened_read [OF assms(1) that(1) _ that(2) assms(3), of i]]) simp
    have opens: "R c c'" if "after_option (atomic_state_change_both READ_HTTP_RESPONSE PROCESS_CONNECTION Connecting Open d)
        (\<lambda>c. let c = notify env On_open c; c = c\<lparr>c_buf := drop n buf\<rparr> in handle_read_frame env None (c_buf c) c) = Some r"
      using after_option_leaves [OF that assms(3)] by (auto simp: Let_def R intro: go)
    have more: "R c (start_op Op_read_response (c\<lparr>c_response := res\<rparr>))"
      by (rule hidden_first [OF phase]) simp_all
    show ?thesis
      using assms(2,3) True Value opens more trans [OF R terminated]
      by (auto simp: x handle_read_http_response_def atomic_state_check_def Let_def d_def [symmetric]
          split: if_splits option.splits)
  qed (use assms(2,3) True terminated in \<open>auto simp: handle_read_http_response_def atomic_state_check_def\<close>)
qed

lemma terminating:
  assumes "app_ok env" "Op_shutdown t \<in> set (c_outstanding c)"
  shows "R c (handle_terminate env t ec (take_op (Op_shutdown t) c))"
proof -
  let ?d = "take_op (Op_shutdown t) c"
  have "R c (notify env cb ?d)" if "cb = On_close \<or> cb = On_fail" for cb
    using trans [OF shut_called [OF assms(2) that] application_call [OF assms(1)]] shut [OF assms(2)]
    by (simp add: notify_def call_handler_def take_op_def)
  then have "R c (case t of Term_failed \<Rightarrow> notify env On_fail ?d | Term_closed \<Rightarrow> notify env On_close ?d | Term_unknown \<Rightarrow> ?d)"
    using shut [OF assms(2)] by (cases t) simp_all
  then show ?thesis
    unfolding handle_terminate_def Let_def by (rule trans [OF _ handler_call(2) [OF assms(1)]]) simp_all
qed

lemma resumed: "R c (read_frame (c\<lparr>c_read_flag := b\<rparr>))"
  using hidden_first [OF reading same_core_updates(13)] .

theorem completion:
  assumes "app_ok env" "op \<in> set (c_outstanding c)" "complete_op env op ec buf (take_op op c) = Some r" "leaves r c'"
  shows "R c c'"
proof (cases "is_write op \<or> is_shutdown op \<or> op = Op_dispatch_write")
  case True
  then show ?thesis
  proof (elim disjE)
    assume w: "is_write op"
    have "handle_write_frame ec (take_op op c) = Done c'"
      using w assms(3,4) by (cases op) (auto simp: handle_write_frame_def Let_def split: if_splits)
    then show ?thesis using written [OF assms(2) w] by simp
  next
    assume "is_shutdown op"
    then show ?thesis using assms terminating by (cases op) auto
  next
    assume "op = Op_dispatch_write"
    then show ?thesis using assms writing by auto
  qed
next
  case False
  let ?d = "take_op op c"
  have R: "R c ?d" using False taken by simp
  have "R ?d c'"
    using assms(1,3,4) False
  proof (induction env op ec buf ?d rule: complete_op.induct)
    case (8 env n ec buf)
    then show ?case by (auto simp: handle_open_handshake_timeout_def terminated split: if_splits)
  next
    case (9 env n ec buf)
    then show ?case by (auto simp: handle_close_handshake_timeout_def terminated split: if_splits)
  qed (auto simp: handle_pong_timeout_def handle_pause_reading_def handle_resume_reading_def handle_interrupt_def
      handler_call hidden resumed intro: transport_ready handshake_read response_read frame_read request_written
        response_written)
  then show ?thesis by (rule trans [OF R])
qed

theorem stepping: "app_ok env \<Longrightarrow> step env c c' \<Longrightarrow> R c c'"
  by (erule step.cases) (auto intro: calling completion)

end

end
