(* ===== verification/Connection_Safety.thy ===== *)
theory Connection_Safety
  imports Connection_Steps "HOL-Library.Sublist"
begin

text \<open>
  What holds of every connection that \<^verbatim>\<open>start\<close>, calls of the application and completions of the transport can lead to:
  the invariant of the writer, of its queue and of the end of the connection; the state only moves forward; outgoing
  messages keep their order. Each is the relation \<open>sound_step\<close>, for which the laws of \<open>step_relation\<close> are proved.
\<close>

subsection \<open>The session state\<close>

fun session_rank :: "session_state \<Rightarrow> nat" where
  "session_rank Connecting = 0"
| "session_rank Open = 1"
| "session_rank Closing = 2"
| "session_rank Closed = 3"

lemma session_rank_inject [simp]: "session_rank s = session_rank t \<longleftrightarrow> s = t"
  by (cases s; cases t) simp_all

instantiation session_state :: linorder
begin

definition less_eq_session_state :: "session_state \<Rightarrow> session_state \<Rightarrow> bool" where
  "less_eq_session_state s t \<longleftrightarrow> session_rank s \<le> session_rank t"

definition less_session_state :: "session_state \<Rightarrow> session_state \<Rightarrow> bool" where
  "less_session_state s t \<longleftrightarrow> session_rank s < session_rank t"

instance
  by standard (auto simp: less_eq_session_state_def less_session_state_def)

end

lemma session_order [simp]: "s \<le> Closed" "Connecting \<le> s" "s \<noteq> Closed \<Longrightarrow> s \<le> Closing" "Closed \<le> s \<longleftrightarrow> s = Closed"
  by (cases s; simp add: less_eq_session_state_def)+

subsection \<open>The invariant of the writer and of termination\<close>

text \<open>The buffers of a list of messages, and the buffers handed to the transport so far.\<close>

definition buffers :: "message list \<Rightarrow> bytes list" where
  "buffers ms = concat (List.map (\<lambda>m. [msg_header m, msg_payload m]) ms)"

fun written_by :: "event \<Rightarrow> bytes list" where
  "written_by (Started (Op_write_frames bs)) = bs"
| "written_by _ = []"

definition written :: "connection \<Rightarrow> bytes list" where
  "written c = concat (List.map written_by (c_trace c))"

fun starts_shutdown :: "event \<Rightarrow> bool" where
  "starts_shutdown (Started op) = is_shutdown op"
| "starts_shutdown _ = False"

definition reports_end :: "event \<Rightarrow> bool" where
  "reports_end e \<longleftrightarrow> e = Called On_close \<or> e = Called On_fail"

definition count :: "('a \<Rightarrow> bool) \<Rightarrow> 'a list \<Rightarrow> nat" where
  "count P xs = length (filter P xs)"

lemma count_simps [simp]: "count P [] = 0" "count P (xs @ ys) = count P xs + count P ys"
  "count P (x # xs) = (if P x then 1 else 0) + count P xs"
  by (simp_all add: count_def)

text \<open>
  While a write is under way its messages are the current ones, and its operation is the only write
  outstanding; a writer that saw an error or a last message keeps its flag on a closed connection.
\<close>

definition writer_ok :: "connection \<Rightarrow> bool" where
  "writer_ok c \<longleftrightarrow>
     (if c_current_msgs c \<noteq> []
      then c_write_flag c \<and> c_send_buffer c = buffers (c_current_msgs c) \<and>
           filter is_write (c_outstanding c) = [Op_write_frames (c_send_buffer c)]
      else (c_write_flag c \<longrightarrow> c_state c = Closed) \<and> c_send_buffer c = [] \<and> filter is_write (c_outstanding c) = [])"

text \<open>Messages never wait unattended: the writer is at work, or on its way.\<close>

definition wake_ok :: "connection \<Rightarrow> bool" where
  "wake_ok c \<longleftrightarrow> (c_send_queue c \<noteq> [] \<longrightarrow> c_write_flag c \<or> Op_dispatch_write \<in> set (c_outstanding c))"

definition size_ok :: "connection \<Rightarrow> bool" where
  "size_ok c \<longleftrightarrow> c_send_buffer_size c = (\<Sum>m\<leftarrow>c_send_queue c. of_nat (length (msg_payload m)))"

definition end_ok :: "connection \<Rightarrow> bool" where
  "end_ok c \<longleftrightarrow>
     count starts_shutdown (c_trace c) = (if c_state c = Closed then 1 else 0) \<and>
     count is_shutdown (c_outstanding c) + count reports_end (c_trace c) \<le> count starts_shutdown (c_trace c)"

text \<open>Nothing is delivered to the application once the shutdown of the transport has been started.\<close>

fun is_delivery :: "event \<Rightarrow> bool" where
  "is_delivery (Called cb) = delivers cb"
| "is_delivery _ = False"

definition quiet :: "connection \<Rightarrow> bool" where
  "quiet c \<longleftrightarrow> count is_delivery (dropWhile (\<lambda>e. \<not> starts_shutdown e) (c_trace c)) = 0"

definition connection_ok :: "connection \<Rightarrow> bool" where
  "connection_ok c \<longleftrightarrow> writer_ok c \<and> wake_ok c \<and> size_ok c \<and> end_ok c \<and> quiet c"

text \<open>
  What a step does to a sound connection: it stays sound, its state does not go back, what has been seen stays
  seen, and what was written or queued stays in order, followed by new messages only while it is not closed.
\<close>

definition goes_on :: "connection \<Rightarrow> connection \<Rightarrow> bool" where
  "goes_on c c' \<longleftrightarrow> c_is_server c' = c_is_server c \<and> c_state c \<le> c_state c' \<and>
     prefix (c_trace c) (c_trace c') \<and>
     (\<exists>new. written c' @ buffers (c_send_queue c') = written c @ buffers (c_send_queue c) @ new \<and>
        (c_state c = Closed \<longrightarrow> new = []))"

definition sound_step :: "connection \<Rightarrow> connection \<Rightarrow> bool" where
  "sound_step c c' \<longleftrightarrow> (connection_ok c \<longrightarrow> connection_ok c' \<and> goes_on c c')"

lemma goes_on_refl [simp]: "goes_on c c"
  by (auto simp: goes_on_def less_eq_session_state_def)

lemma goes_on_trans:
  assumes "goes_on c c1" "goes_on c1 c2"
  shows "goes_on c c2"
proof -
  obtain a b where "written c1 @ buffers (c_send_queue c1) = written c @ buffers (c_send_queue c) @ a"
      and a: "c_state c = Closed \<longrightarrow> a = []"
      and "written c2 @ buffers (c_send_queue c2) = written c1 @ buffers (c_send_queue c1) @ b"
      and b: "c_state c1 = Closed \<longrightarrow> b = []"
    using assms unfolding goes_on_def by blast
  then have "written c2 @ buffers (c_send_queue c2) = written c @ buffers (c_send_queue c) @ (a @ b)"
    by (metis append.assoc)
  moreover have "c_state c = Closed \<longrightarrow> a @ b = []"
    using a b assms(1) by (auto simp: goes_on_def)
  ultimately have "\<exists>new. written c2 @ buffers (c_send_queue c2) = written c @ buffers (c_send_queue c) @ new \<and>
      (c_state c = Closed \<longrightarrow> new = [])" by blast
  then show ?thesis using assms unfolding goes_on_def by (auto intro: prefix_order.trans)
qed

lemma goes_onI:
  assumes "c_is_server c' = c_is_server c" "c_state c \<le> c_state c'" "c_trace c' = c_trace c @ es"
    and "concat (List.map written_by es) @ buffers (c_send_queue c') = buffers (c_send_queue c) @ new"
    and "c_state c = Closed \<Longrightarrow> new = []"
  shows "goes_on c c'"
  unfolding goes_on_def written_def using assms by (auto intro!: exI [of _ new])

lemma quiet_add:
  assumes "quiet c" "end_ok c" "c_trace c' = c_trace c @ es" "count is_delivery es = 0 \<or> c_state c \<noteq> Closed \<and> count starts_shutdown es = 0"
  shows "quiet c'"
proof (cases "c_state c = Closed")
  case True
  then have "filter starts_shutdown (c_trace c) \<noteq> []" using assms(2) by (auto simp: end_ok_def count_def)
  then obtain e where "e \<in> set (c_trace c)" "starts_shutdown e" by (auto simp: filter_empty_conv)
  then show ?thesis using assms True by (auto simp: quiet_def dropWhile_append1 [of e])
next
  case False
  then have "\<forall>e\<in>set (c_trace c). \<not> starts_shutdown e"
    using assms(2) by (auto simp: end_ok_def count_def filter_empty_conv)
  then have *: "dropWhile (\<lambda>e. \<not> starts_shutdown e) (c_trace c') = dropWhile (\<lambda>e. \<not> starts_shutdown e) es"
    using assms(3) by (simp add: dropWhile_append2)
  show ?thesis
    using assms(4)
  proof
    assume "count is_delivery es = 0"
    then have "\<forall>e\<in>set es. \<not> is_delivery e" by (auto simp: count_def filter_empty_conv)
    then show ?thesis unfolding quiet_def * by (auto simp: count_def filter_empty_conv dest: set_dropWhileD)
  next
    assume "c_state c \<noteq> Closed \<and> count starts_shutdown es = 0"
    then have none: "dropWhile (\<lambda>e. \<not> starts_shutdown e) es = []"
      by (simp add: count_def filter_empty_conv dropWhile_eq_Nil_conv)
    show ?thesis unfolding quiet_def * none by simp
  qed
qed

text \<open>Updates that touch neither the writer nor the end of the connection.\<close>

lemma sound_step_same:
  assumes "c_is_server c' = c_is_server c" "c_state c \<le> c_state c'" "c_state c = Closed \<longleftrightarrow> c_state c' = Closed"
    and "c_send_queue c' = c_send_queue c" "c_send_buffer_size c' = c_send_buffer_size c"
    and "c_current_msgs c' = c_current_msgs c" "c_send_buffer c' = c_send_buffer c" "c_write_flag c' = c_write_flag c"
    and t: "c_trace c' = c_trace c @ es" and "count starts_shutdown es = 0" "count reports_end es = 0"
    and "concat (List.map written_by es) = []" "count is_delivery es = 0 \<or> c_state c \<noteq> Closed"
    and "filter is_write (c_outstanding c') = filter is_write (c_outstanding c)"
    and "count is_shutdown (c_outstanding c') = count is_shutdown (c_outstanding c)"
    and "Op_dispatch_write \<in> set (c_outstanding c) \<Longrightarrow> Op_dispatch_write \<in> set (c_outstanding c')"
  shows "sound_step c c'"
proof -
  have "goes_on c c'" by (rule goes_onI [where es = es and new = "[]"]) (use assms in simp_all)
  moreover have "quiet c'" if "quiet c" "end_ok c"
    by (rule quiet_add [OF that t]) (use assms in blast)
  moreover have "writer_ok c \<longleftrightarrow> writer_ok c'" "size_ok c \<longleftrightarrow> size_ok c'" "end_ok c \<longleftrightarrow> end_ok c'"
    using assms by (simp_all add: writer_ok_def size_ok_def end_ok_def)
  moreover have "wake_ok c \<Longrightarrow> wake_ok c'" using assms by (auto simp: wake_ok_def)
  ultimately show ?thesis by (auto simp: sound_step_def connection_ok_def)
qed

subsection \<open>The single updates\<close>

lemma connection_parts:
  assumes "connection_ok c"
  shows "writer_ok c" "size_ok c" "end_ok c" "quiet c" "wake_ok c"
  using assms by (simp_all add: connection_ok_def)

lemma sound_stepI:
  assumes "connection_ok c \<Longrightarrow> c_is_server c' = c_is_server c" "connection_ok c \<Longrightarrow> c_state c \<le> c_state c'"
    and "connection_ok c \<Longrightarrow> c_trace c' = c_trace c @ es"
    and "connection_ok c \<Longrightarrow> concat (List.map written_by es) @ buffers (c_send_queue c') = buffers (c_send_queue c) @ new"
    and "connection_ok c \<Longrightarrow> c_state c = Closed \<Longrightarrow> new = []" and "count is_delivery es = 0"
    and "connection_ok c \<Longrightarrow> writer_ok c'" "connection_ok c \<Longrightarrow> size_ok c'" "connection_ok c \<Longrightarrow> end_ok c'"
    and "connection_ok c \<Longrightarrow> wake_ok c'"
  shows "sound_step c c'"
proof -
  have "goes_on c c'" if "connection_ok c"
    by (rule goes_onI [where es = es and new = new]) (use assms that in simp_all)
  moreover have "quiet c'" if "connection_ok c"
    by (rule quiet_add [OF connection_parts(4,3) [OF that] assms(3) [OF that]]) (simp add: assms(6))
  ultimately show ?thesis using assms(7-10) by (simp add: sound_step_def connection_ok_def)
qed

lemma buffers_simps [simp]: "buffers [] = []" "buffers (m # ms) = msg_header m # msg_payload m # buffers ms"
  "buffers (ms @ ns) = buffers ms @ buffers ns"
  by (simp_all add: buffers_def)

lemma buffers_empty [simp]: "buffers ms = [] \<longleftrightarrow> ms = []" "[] = buffers ms \<longleftrightarrow> ms = []"
  by (cases ms; simp)+

lemma sound_core: "same_core c c' \<Longrightarrow> sound_step c c'"
  by (rule sound_step_same [where es = "[]"]) (simp_all add: same_core_def)

lemma sound_op:
  assumes "\<not> is_write op" "\<not> is_shutdown op"
  shows "sound_step c (start_op op c)"
  by (rule sound_step_same [where es = "[Started op]"]) (use assms in \<open>cases op; simp add: start_op_def reports_end_def\<close>)+

lemma terminate_same [simp]:
  "c_is_server (terminate ec c) = c_is_server c" "c_send_queue (terminate ec c) = c_send_queue c"
  "c_send_buffer_size (terminate ec c) = c_send_buffer_size c" "c_current_msgs (terminate ec c) = c_current_msgs c"
  "c_send_buffer (terminate ec c) = c_send_buffer c" "c_write_flag (terminate ec c) = c_write_flag c"
  "c_state (terminate ec c) = Closed" "filter is_write (c_outstanding (terminate ec c)) = filter is_write (c_outstanding c)"
  "count is_shutdown (c_outstanding (terminate ec c)) = count is_shutdown (c_outstanding c) + (if c_state c = Closed then 0 else 1)"
  by (simp_all add: terminate_def cancel_handshake_timer_def cancel_timer_def start_op_def Let_def
      split: option.split session_state.split)

lemma terminate_wakes [simp]: "wake_ok (terminate ec c) \<longleftrightarrow> wake_ok c"
  by (auto simp: wake_ok_def terminate_def cancel_handshake_timer_def cancel_timer_def start_op_def Let_def
      split: option.split session_state.split)

lemma terminate_trace:
  obtains es where "c_trace (terminate ec c) = c_trace c @ es" "concat (List.map written_by es) = []" "count is_delivery es = 0"
    "count reports_end es = 0" "count starts_shutdown es = (if c_state c = Closed then 0 else 1)"
proof
  let ?cs = "(case c_handshake_timer c of None \<Rightarrow> [] | Some n \<Rightarrow> [Cancelled n])"
  let ?ss = "(if c_state c = Closed then []
    else [Started (Op_shutdown (if c_state c = Connecting then Term_failed else Term_closed))])"
  show "c_trace (terminate ec c) = c_trace c @ (?cs @ ?ss)"
    by (simp add: terminate_def cancel_handshake_timer_def cancel_timer_def start_op_def Let_def
        split: option.split session_state.split)
  show "concat (List.map written_by (?cs @ ?ss)) = []" "count is_delivery (?cs @ ?ss) = 0" "count reports_end (?cs @ ?ss) = 0"
    "count starts_shutdown (?cs @ ?ss) = (if c_state c = Closed then 0 else 1)"
    by (auto simp: reports_end_def split: option.split)
qed

lemma sound_terminate: "sound_step c (terminate ec c)"
proof -
  obtain es where es: "c_trace (terminate ec c) = c_trace c @ es" "concat (List.map written_by es) = []" "count is_delivery es = 0"
    "count reports_end es = 0" "count starts_shutdown es = (if c_state c = Closed then 0 else 1)"
    by (rule terminate_trace)
  show ?thesis
    by (rule sound_stepI [where es = es and new = "[]"])
      (use es in \<open>auto simp: connection_ok_def writer_ok_def size_ok_def end_ok_def split: if_splits\<close>)
qed

lemma sound_push:
  assumes "c_state c \<noteq> Closed"
  shows "sound_step c (push_and_dispatch msg c)"
proof -
  let ?new = "case msg of None \<Rightarrow> [] | Some m \<Rightarrow> [m]"
  let ?ops = "if needs_writing (write_push msg c) then [Op_dispatch_write] else []"
  let ?d = "push_and_dispatch msg c"
  have d: "c_is_server ?d = c_is_server c" "c_state ?d = c_state c" "c_current_msgs ?d = c_current_msgs c"
    "c_write_flag ?d = c_write_flag c" "c_send_buffer ?d = c_send_buffer c" "c_send_queue ?d = c_send_queue c @ ?new"
    "c_send_buffer_size ?d = c_send_buffer_size c + (\<Sum>m\<leftarrow>?new. of_nat (length (msg_payload m)))"
    "c_outstanding ?d = c_outstanding c @ ?ops" "c_trace ?d = c_trace c @ List.map Started ?ops"
    by (simp_all add: push_and_dispatch_def write_push_def start_op_def Let_def split: option.split)
  show ?thesis
  proof (rule sound_stepI [where es = "List.map Started ?ops" and new = "buffers ?new"])
    show "wake_ok ?d" if "connection_ok c"
      by (auto simp: wake_ok_def d needs_writing_def) (auto simp: push_and_dispatch_def write_push_def Let_def start_op_def needs_writing_def
          split: option.splits if_splits)
    show "size_ok ?d" if "connection_ok c"
      using connection_parts(2) [OF that] unfolding size_ok_def d by simp
    show "writer_ok ?d" if "connection_ok c"
      using connection_parts(1) [OF that] unfolding writer_ok_def d by simp
    show "end_ok ?d" if "connection_ok c"
      using connection_parts(3) [OF that] unfolding end_ok_def d by (auto simp: reports_end_def)
    show "c_trace ?d = c_trace c @ List.map Started ?ops" by (rule d)
  qed (use assms in \<open>simp_all add: d\<close>)
qed

text \<open>The writer takes a prefix of the queue.\<close>

lemma write_pop_simps:
  "write_pop c = (None, d) \<longleftrightarrow> c_send_queue c = [] \<and> d = c"
  "write_pop c = (Some m, d) \<longleftrightarrow> (\<exists>ms. c_send_queue c = m # ms \<and>
     d = c\<lparr>c_send_buffer_size := c_send_buffer_size c - of_nat (length (msg_payload m)), c_send_queue := ms\<rparr>)"
  by (auto simp: write_pop_def split: list.splits)

lemma pop_messages_takes:
  "\<exists>taken. c_send_queue c = taken @ c_send_queue (pop_messages c) \<and> (c_send_queue c \<noteq> [] \<longrightarrow> taken \<noteq> []) \<and>
     pop_messages c = c\<lparr>c_current_msgs := c_current_msgs c @ taken, c_send_queue := c_send_queue (pop_messages c),
       c_send_buffer_size := c_send_buffer_size c - (\<Sum>m\<leftarrow>taken. of_nat (length (msg_payload m)))\<rparr>"
proof (induction c rule: pop_messages.induct)
  case (1 c)
  show ?case
  proof (cases "c_send_queue c")
    case Nil
    then show ?thesis by (auto simp: write_pop_def pop_messages.simps [of c])
  next
    case (Cons m ms)
    let ?d = "c\<lparr>c_send_buffer_size := c_send_buffer_size c - of_nat (length (msg_payload m)), c_send_queue := ms,
      c_current_msgs := c_current_msgs c @ [m]\<rparr>"
    have pop: "pop_messages c = (if msg_terminal m then ?d else pop_messages ?d)"
      using Cons by (simp add: pop_messages.simps [of c] write_pop_def)
    show ?thesis
    proof (cases "msg_terminal m")
      case True
      then show ?thesis using Cons pop by (intro exI [of _ "[m]"]) simp
    next
      case False
      then obtain taken where t: "ms = taken @ c_send_queue (pop_messages ?d)"
        "pop_messages ?d = ?d\<lparr>c_current_msgs := c_current_msgs ?d @ taken, c_send_queue := c_send_queue (pop_messages ?d),
          c_send_buffer_size := c_send_buffer_size ?d - (\<Sum>m\<leftarrow>taken. of_nat (length (msg_payload m)))\<rparr>"
        using 1 [of "Some m" "c\<lparr>c_send_buffer_size := c_send_buffer_size c - of_nat (length (msg_payload m)), c_send_queue := ms\<rparr>" m ?d] Cons
        by (auto simp: write_pop_def)
      show ?thesis
        unfolding pop if_not_P [OF False] Cons
        by (rule exI [of _ "m # taken"]) (use t in \<open>simp add: diff_diff_add\<close>)
    qed
  qed
qed
lemma filter_remove1_not: "\<not> P x \<Longrightarrow> filter P (remove1 x xs) = filter P xs"
  by (induction xs) auto

lemma count_remove1: "count P (remove1 x xs) = (if P x \<and> x \<in> set xs then count P xs - 1 else count P xs)"
  by (auto simp: count_def filter_remove1_not filter_remove1 length_remove1)

lemma pop_messages_empty: "c_send_queue c = [] \<Longrightarrow> pop_messages c = c"
  by (subst pop_messages.simps) (simp add: write_pop_def)

lemma sound_write:
  assumes "Op_dispatch_write \<in> set (c_outstanding c)"
  shows "sound_step c (write_frame (take_op Op_dispatch_write c))"
proof -
  let ?d = "take_op Op_dispatch_write c"
  have d: "c_is_server ?d = c_is_server c" "c_state ?d = c_state c" "c_trace ?d = c_trace c" "c_send_queue ?d = c_send_queue c"
    "c_send_buffer_size ?d = c_send_buffer_size c" "c_write_flag ?d = c_write_flag c" "c_current_msgs ?d = c_current_msgs c"
    "c_send_buffer ?d = c_send_buffer c" "filter is_write (c_outstanding ?d) = filter is_write (c_outstanding c)"
    "count is_shutdown (c_outstanding ?d) = count is_shutdown (c_outstanding c)"
    by (simp_all add: take_op_def filter_remove1_not count_remove1)
  have kept: "sound_step c ?d" if "c_write_flag c \<or> c_send_queue c = []"
    by (rule sound_stepI [where es = "[]" and new = "[]"])
      (use that in \<open>auto simp: d connection_ok_def writer_ok_def size_ok_def end_ok_def wake_ok_def\<close>)
  obtain taken rest where q: "c_send_queue c = taken @ rest" "c_send_queue c \<noteq> [] \<longrightarrow> taken \<noteq> []"
    and popped: "pop_messages ?d = ?d\<lparr>c_current_msgs := c_current_msgs c @ taken, c_send_queue := rest,
       c_send_buffer_size := c_send_buffer_size c - (\<Sum>m\<leftarrow>taken. of_nat (length (msg_payload m)))\<rparr>"
    using pop_messages_takes [of ?d] unfolding d by blast
  have fresh: "c_current_msgs c = []" "c_send_buffer c = []" "filter is_write (c_outstanding c) = []"
    if "connection_ok c" "\<not> c_write_flag c"
    using connection_parts(1) [OF that(1)] that(2) by (auto simp: writer_ok_def split: if_splits)
  consider (busy) "c_write_flag c" | (idle) "\<not> c_write_flag c" "taken = []" | (busied) "\<not> c_write_flag c" "taken \<noteq> []"
    by blast
  then show ?thesis
  proof cases
    case busy
    then show ?thesis using kept by (simp add: write_frame_def d)
  next
    case idle
    then have queue: "c_send_queue c = []" using q(2) by blast
    moreover have "pop_messages ?d = ?d" using queue by (intro pop_messages_empty) (simp add: d)
    then have "write_frame ?d = ?d" if "connection_ok c"
      using fresh [OF that idle(1)] by (simp add: write_frame_def d)
    ultimately show ?thesis using kept by (auto simp: sound_step_def)
  next
    case busied
    let ?e = "start_op (Op_write_frames (buffers taken)) (?d\<lparr>c_current_msgs := taken, c_send_queue := rest,
       c_send_buffer_size := c_send_buffer_size c - (\<Sum>m\<leftarrow>taken. of_nat (length (msg_payload m))),
       c_write_flag := True, c_send_buffer := buffers taken\<rparr>)"
    have w: "write_frame ?d = ?e" if "connection_ok c"
      using busied fresh [OF that busied(1)] by (simp add: write_frame_def popped Let_def buffers_def d)
    have "sound_step c ?e"
    proof (rule sound_stepI [where es = "[Started (Op_write_frames (buffers taken))]" and new = "[]"])
      assume ok: "connection_ok c"
      show "writer_ok ?e" using fresh [OF ok busied(1)] busied(2) by (simp add: writer_ok_def start_op_def d)
      show "size_ok ?e" using connection_parts(2) [OF ok] by (simp add: size_ok_def start_op_def q(1))
      show "end_ok ?e" using connection_parts(3) [OF ok] by (simp add: end_ok_def start_op_def reports_end_def d)
      show "wake_ok ?e" by (simp add: wake_ok_def start_op_def)
    qed (simp_all add: start_op_def d q(1))
    then show ?thesis using w by (simp add: sound_step_def)
  qed
qed

lemma sound_taken:
  assumes "\<not> is_write op" "\<not> is_shutdown op" "op \<noteq> Op_dispatch_write"
  shows "sound_step c (take_op op c)"
  by (rule sound_step_same [where es = "[]"]) (use assms in \<open>simp_all add: take_op_def filter_remove1_not count_remove1\<close>)

lemma sound_shut:
  assumes "Op_shutdown t \<in> set (c_outstanding c)" "es = [] \<or> es = [Called On_close] \<or> es = [Called On_fail]"
  shows "sound_step c ((take_op (Op_shutdown t) c)\<lparr>c_trace := c_trace c @ es\<rparr>)"
proof -
  have "0 < count is_shutdown (c_outstanding c)"
    using assms(1) by (auto simp: count_def filter_empty_conv intro!: bexI [of _ "Op_shutdown t"])
  then show ?thesis
    using assms
    by (intro sound_stepI [where es = es and new = "[]"])
      (auto simp: take_op_def filter_remove1_not count_remove1 connection_ok_def writer_ok_def size_ok_def end_ok_def wake_ok_def
        reports_end_def less_eq_session_state_def split: if_splits)
qed

text \<open>The operation of a write that is complete.\<close>

lemma written_now:
  assumes "connection_ok c" "op \<in> set (c_outstanding c)" "is_write op"
  shows "c_current_msgs c \<noteq> []" "c_write_flag c" "filter is_write (remove1 op (c_outstanding c)) = []"
proof -
  have "filter is_write (c_outstanding c) \<noteq> []" using assms(2,3) by (auto simp: filter_empty_conv)
  then show one: "c_current_msgs c \<noteq> []" "c_write_flag c"
    using connection_parts(1) [OF assms(1)] by (auto simp: writer_ok_def split: if_splits)
  have "op \<in> set (filter is_write (c_outstanding c))" using assms(2,3) by simp
  then have "filter is_write (c_outstanding c) = [op]"
    using connection_parts(1) [OF assms(1)] one by (simp add: writer_ok_def del: set_filter)
  then show "filter is_write (remove1 op (c_outstanding c)) = []"
    by (simp add: filter_remove1 assms(3))
qed

lemma sound_written:
  assumes "op \<in> set (c_outstanding c)" "is_write op" "handle_write_frame ec (take_op op c) = Done c'"
  shows "sound_step c c'"
proof -
  let ?d = "(take_op op c)\<lparr>c_send_buffer := [], c_current_msgs := []\<rparr>"
  have "\<not> is_shutdown op" using assms(2) by (cases op) simp_all
  then have shutdowns: "count is_shutdown (c_outstanding ?d) = count is_shutdown (c_outstanding c)"
    by (simp add: take_op_def count_remove1)
  have d: "c_is_server ?d = c_is_server c" "c_state ?d = c_state c" "c_trace ?d = c_trace c"
    "c_send_queue ?d = c_send_queue c" "c_send_buffer_size ?d = c_send_buffer_size c"
    by (simp_all add: take_op_def)
  have none: "filter is_write (c_outstanding ?d) = []" "c_write_flag ?d" if "connection_ok c"
    using written_now [OF that assms(1,2)] by (simp_all add: take_op_def)
  show ?thesis
  proof (cases "ec = None \<and> \<not> msg_terminal (last (c_current_msgs c))")
    case True
    let ?e = "?d\<lparr>c_write_flag := False\<rparr>"
    let ?ops = "if c_send_queue c \<noteq> [] then [Op_dispatch_write] else []"
    have e: "c_is_server c' = c_is_server c" "c_state c' = c_state c" "c_trace c' = c_trace c @ List.map Started ?ops"
      "c_send_queue c' = c_send_queue c" "c_send_buffer_size c' = c_send_buffer_size c" "\<not> c_write_flag c'"
      "c_current_msgs c' = []" "c_send_buffer c' = []" "c_outstanding c' = c_outstanding ?d @ ?ops"
      using assms(3) True by (auto simp: handle_write_frame_def Let_def take_op_def start_op_def split: if_splits)
    show ?thesis
    proof (rule sound_stepI [where es = "List.map Started ?ops" and new = "[]"])
      assume ok: "connection_ok c"
      show "writer_ok c'" using none [OF ok] by (simp add: writer_ok_def e)
      show "size_ok c'" using connection_parts(2) [OF ok] by (simp add: size_ok_def e)
      show "end_ok c'" using connection_parts(3) [OF ok] shutdowns by (auto simp: end_ok_def e reports_end_def)
      show "wake_ok c'" by (simp add: wake_ok_def e)
    qed (simp_all add: e)
  next
    case False
    then have c': "c' = terminate ec ?d"
      using assms(3) by (auto simp: handle_write_frame_def Let_def take_op_def split: if_splits)
    obtain es where es: "c_trace (terminate ec ?d) = c_trace ?d @ es" "concat (List.map written_by es) = []"
      "count is_delivery es = 0" "count reports_end es = 0" "count starts_shutdown es = (if c_state ?d = Closed then 0 else 1)"
      by (rule terminate_trace)
    have wake: "wake_ok ?d" if "connection_ok c"
      using none [OF that] by (simp add: wake_ok_def)
    show ?thesis
      unfolding c'
      by (rule sound_stepI [where es = es and new = "[]"])
        (use none wake d shutdowns es in \<open>simp_all add: connection_ok_def writer_ok_def size_ok_def end_ok_def\<close>)
  qed
qed

subsection \<open>The properties of a connection\<close>

interpretation sound: step_relation sound_step
proof (unfold_locales, goal_cases)
  case (2 c c1 c2)
  then show ?case by (auto simp: sound_step_def intro: goes_on_trans)
next
  case (5 c n)
  show ?case by (rule sound_step_same [where es = "[Cancelled n]"]) (simp_all add: cancel_timer_def reports_end_def)
next
  case (6 cb c)
  then show ?case
    by (intro sound_step_same [where es = "[Called cb]"]) (auto simp: reports_end_def)
next
  case (8 c)
  then show ?case by (intro sound_step_same [where es = "[]"]) auto
next
  case (10 c)
  have "sound_step c (c\<lparr>c_internal_state := TRANSPORT_INIT\<rparr>)" by (rule sound_step_same [where es = "[]"]) simp_all
  moreover have "sound_step (c\<lparr>c_internal_state := TRANSPORT_INIT\<rparr>) (start_op Op_init (c\<lparr>c_internal_state := TRANSPORT_INIT\<rparr>))"
    by (rule sound_op) simp_all
  ultimately show ?case by (auto simp: sound_step_def intro: goes_on_trans)
next
  case (13 op c)
  then show ?case by (intro sound_op) (cases op; simp)+
next
  case (15 c i)
  then show ?case by (intro sound_step_same [where es = "[]"]) (auto simp: less_eq_session_state_def)
next
  case (19 t c)
  then show ?case using sound_shut [of t c "[]"] by (simp add: take_op_def)
next
  case (20 t c cb)
  then show ?case using sound_shut [of t c "[Called cb]"] by auto
qed (auto simp: sound_core sound_op sound_push sound_terminate sound_write sound_taken sound_written ordinary_def
    set_max_message_size_def cancel_timer_def intro: sound_step_same sound_written)

lemma step_sound: "app_ok env \<Longrightarrow> step env c c' \<Longrightarrow> connection_ok c \<Longrightarrow> connection_ok c' \<and> goes_on c c'"
  using sound.stepping by (auto simp: sound_step_def)

lemma fresh_ok: "connection_ok (make_connection srv ua ot ct pt mx)"
  by (simp add: connection_ok_def writer_ok_def size_ok_def end_ok_def quiet_def wake_ok_def make_connection_def)

lemma con_reachable_ok: "con_reachable env c \<Longrightarrow> app_ok env \<Longrightarrow> connection_ok c"
  by (induction rule: con_reachable.induct) (auto simp: fresh_ok step_sound)

text \<open>Any number of steps.\<close>

inductive runs :: "env \<Rightarrow> connection \<Rightarrow> connection \<Rightarrow> bool" for env where
  runs_refl: "runs env c c"
| runs_step: "runs env c c1 \<Longrightarrow> step env c1 c2 \<Longrightarrow> runs env c c2"

lemma runs_goes_on: "runs env c c' \<Longrightarrow> app_ok env \<Longrightarrow> connection_ok c \<Longrightarrow> connection_ok c' \<and> goes_on c c'"
proof (induction rule: runs.induct)
  case (runs_step c c1 c2)
  then show ?case using step_sound goes_on_trans by blast
qed simp

subsection \<open>Properties\<close>

text \<open>
  An environment whose application answers nothing, and a transport without timers.
\<close>

definition quiet_env :: env where
  "quiet_env = \<lparr>s_drop_on_protocol_error = False, s_silent_close = False, s_enable_extensions = False,
     s_client_version = 13, s_read_buffer_size = 16384, s_secure = False, s_timers = False, s_md5 = (\<lambda>b. []),
     s_rng = (\<lambda>n. 0), s_stack = [], s_stack_opcode = Text, application = (\<lambda>cb c. (True, c))\<rparr>"

lemma quiet_application: "app_ok quiet_env"
  by (simp add: app_ok_def quiet_env_def calls.intros)

text \<open>A client whose transport fails to connect, and an open server connection.\<close>

definition failing_client :: connection where
  "failing_client = start_op Op_init ((make_connection False [] 0 0 0 1000)\<lparr>c_internal_state := TRANSPORT_INIT\<rparr>)"

definition failed_client :: connection where
  "failed_client = terminate (Some (Transport T_timeout)) (take_op Op_init failing_client)"

lemma failed_client_reachable: "con_reachable quiet_env failed_client"
proof (rule next_state [OF next_state [OF fresh by_call] by_completion])
  show "leaves (api_call quiet_env Start (make_connection False [] 0 0 0 1000)) failing_client"
    by (simp add: start_def failing_client_def) (simp add: make_connection_def)
  show "Op_init \<in> set (c_outstanding failing_client)" by (simp add: failing_client_def start_op_def)
  show "result_ok quiet_env Op_init (Some (Transport T_timeout)) []" by (simp add: result_ok_def)
  show "complete_op quiet_env Op_init (Some (Transport T_timeout)) [] (take_op Op_init failing_client) = Some (Done failed_client)"
    by (simp add: handle_transport_init_def failed_client_def failing_client_def start_op_def take_op_def)
  show "leaves (Done failed_client) failed_client" by simp
qed

definition open_server :: connection where
  "open_server = (make_connection True [] 0 0 0 1000)\<lparr>c_state := Open, c_internal_state := PROCESS_CONNECTION,
     c_processor := Some (Processor13 (make_hybi13 True 1000 False ()))\<rparr>"





text \<open>
  C2: outgoing messages. Whatever the application, the peer and the transport do, the state of a connection only moves
  forward, and the buffers handed to the transport, followed by those that wait, only grow at the end: no message is
  lost, repeated or overtaken, and none is accepted once the connection is closed.
\<close>

theorem messages_in_order:
  assumes "app_ok env" "connection_ok c" "runs env c c'"
  shows "c_state c \<le> c_state c' \<and>
    prefix (written c @ buffers (c_send_queue c)) (written c' @ buffers (c_send_queue c')) \<and>
    (c_state c = Closed \<longrightarrow> written c' @ buffers (c_send_queue c') = written c @ buffers (c_send_queue c))"
  using runs_goes_on [OF assms(3,1,2)] by (auto simp: goes_on_def prefix_def)

text \<open>The server of the witness sends two messages; the write of the first is started before the second is sent.\<close>

definition hello :: message where
  "hello = (make_message Text 2)\<lparr>msg_header := [0x81, 2], msg_payload := [0x48, 0x69], msg_prepared := True\<rparr>"

definition sent_one :: connection where "sent_one = start_op Op_dispatch_write (write_push (Some hello) open_server)"
definition writing_one :: connection where "writing_one = write_frame (take_op Op_dispatch_write sent_one)"
definition sent_two :: connection where "sent_two = write_push (Some hello) writing_one"

lemma writing_one_now:
  "c_state writing_one = Open" "c_write_flag writing_one" "c_send_queue writing_one = []"
  "written writing_one = [[0x81, 2], [0x48, 0x69]]"
  by (simp_all add: writing_one_def write_frame_def pop_messages.simps write_pop_def sent_one_def take_op_def start_op_def
      write_push_def open_server_def make_connection_def hello_def Let_def written_def)

lemma two_messages_run: "runs quiet_env open_server sent_two"
proof (rule runs_step [OF runs_step [OF runs_step [OF runs_refl by_call] by_completion] by_call])
  show "leaves (api_call quiet_env (Send hello) open_server) sent_one"
    by (simp add: sent_one_def sent_def send_def open_server_def hello_def push_and_dispatch_def Let_def needs_writing_def
        write_push_def make_connection_def)
  show "Op_dispatch_write \<in> set (c_outstanding sent_one)" by (simp add: sent_one_def start_op_def)
  show "result_ok quiet_env Op_dispatch_write None []" by (simp add: result_ok_def)
  show "complete_op quiet_env Op_dispatch_write None [] (take_op Op_dispatch_write sent_one) = Some (Done writing_one)"
    by (simp add: writing_one_def)
  show "leaves (Done writing_one) writing_one" by simp
  show "leaves (api_call quiet_env (Send hello) writing_one) sent_two"
    by (simp add: sent_def send_def writing_one_now sent_two_def push_and_dispatch_def Let_def needs_writing_def hello_def
        write_push_def)
qed

lemma open_server_ok: "connection_ok open_server"
  by (simp add: connection_ok_def writer_ok_def wake_ok_def size_ok_def end_ok_def quiet_def open_server_def make_connection_def)

theorem messages_in_order_witness:
  "prefix (written open_server @ buffers (c_send_queue open_server)) (written sent_two @ buffers (c_send_queue sent_two)) \<and>
   written sent_two @ buffers (c_send_queue sent_two) = [[0x81, 2], [0x48, 0x69], [0x81, 2], [0x48, 0x69]]"
proof
  show "prefix (written open_server @ buffers (c_send_queue open_server)) (written sent_two @ buffers (c_send_queue sent_two))"
    using messages_in_order [OF quiet_application open_server_ok two_messages_run] by blast
  show "written sent_two @ buffers (c_send_queue sent_two) = [[0x81, 2], [0x48, 0x69], [0x81, 2], [0x48, 0x69]]"
    using writing_one_now by (simp add: sent_two_def write_push_def written_def hello_def make_message_def)
qed

end
