(* ===== verification/Connection_Reading.thy ===== *)
theory Connection_Reading
  imports Connection_Safety
begin

text \<open>
  The loop that reads frames. It returns for the processors of versions 7 to 13, whatever the application does in its handlers;
  the processor of the draft that met a protocol error keeps it running.
\<close>

subsection \<open>What a call cannot do to the reader\<close>

fun reader_of :: "processor \<Rightarrow> unit hybi13 option" where
  "reader_of (Processor00 h) = None"
| "reader_of (Processor07 h) = Some h"
| "reader_of (Processor08 h) = Some h"
| "reader_of (Processor13 h) = Some h"

definition reading_state :: "connection \<Rightarrow> (processor_state \<times> u64) option" where
  "reading_state c =
     (case c_processor c of
        None \<Rightarrow> None
      | Some p \<Rightarrow> map_option (\<lambda>h. (proc_state h, m_bytes_needed h)) (reader_of p))"

definition same_reading :: "connection \<Rightarrow> connection \<Rightarrow> bool" where
  "same_reading c c' \<longleftrightarrow> reading_state c' = reading_state c"

lemma reading_simps [simp]:
  "reading_state (start_op op c) = reading_state c" "reading_state (cancel_timer n c) = reading_state c"
  "reading_state (terminate ec c) = reading_state c" "reading_state (push_and_dispatch msg c) = reading_state c"
  by (simp_all add: reading_state_def start_op_def cancel_timer_def terminate_def cancel_handshake_timer_def
      push_and_dispatch_def write_push_def Let_def split: option.split session_state.split)

lemma reading_resized: "reading_state (set_max_message_size n c) = reading_state c"
proof -
  have "map_option (\<lambda>h. (proc_state h, m_bytes_needed h)) (reader_of (processor_set_max n p)) =
      map_option (\<lambda>h. (proc_state h, m_bytes_needed h)) (reader_of p)" for p
    by (cases p) simp_all
  then show ?thesis by (simp add: reading_state_def set_max_message_size_def split: option.split)
qed

lemma reading_updates: "c_processor c' = c_processor c \<Longrightarrow> reading_state c' = reading_state c"
  by (simp add: reading_state_def)

interpretation reader: connection_relation same_reading
proof (unfold_locales, goal_cases)
  case (3 c c')
  then show ?case unfolding same_reading_def by (intro reading_updates) (simp add: same_core_def)
qed (auto simp: same_reading_def reading_resized intro: reading_updates)

lemma reading_processor: "reading_state c \<noteq> None \<Longrightarrow> \<exists>p. c_processor c = Some p"
  by (auto simp: reading_state_def split: option.splits)

lemma pong_defined: "reading_state c \<noteq> None \<Longrightarrow> \<exists>ec c'. pong env payload c = Some (ec, c')"
  using reading_processor [of c] by (auto simp: pong_def Let_def split: option.split prod.split)

lemma close_frame_defined: "reading_state c \<noteq> None \<Longrightarrow> \<exists>ec c'. send_close_frame env code reason ack final c = Some (ec, c')"
  using reading_processor [of c] by (auto simp: send_close_frame_def set_close_info_def Let_def split: option.split prod.split)

lemma close_defined: "reading_state c \<noteq> None \<Longrightarrow> \<exists>ec c'. close env code reason c = Some (ec, c')"
  using close_frame_defined by (auto simp: close_def)

lemma failed_defined: "reading_state c \<noteq> None \<Longrightarrow> \<exists>c'. consume_failed env e c = Done c'"
  using close_defined [of c env "to_ws e" "octets (error_message e)"]
  by (auto simp: consume_failed_def split: option.split)

lemma control_defined:
  assumes "app_ok env" "reading_state c \<noteq> None"
  shows "\<exists>c'. process_control_frame env msg c = Some c'"
proof -
  have "reading_state (snd (call_handler env (On_ping payload) c)) = reading_state c" if "c_state c = Open" for payload
    using reader.handler_call(1) [OF assms(1), of "On_ping payload" c] that by (simp add: same_reading_def)
  then have "\<exists>c'. process_ping env msg c = Some c'" if "c_state c = Open"
    using pong_defined [of c env "msg_payload msg"] assms(2) that
      pong_defined [of "snd (call_handler env (On_ping (msg_payload msg)) c)" env "msg_payload msg"]
    by (auto simp: process_ping_def Let_def split: prod.split)
  moreover have "\<exists>c'. process_close env msg c = Some c'"
  proof -
    have "reading_state (c\<lparr>c_remote_close_code := code\<rparr>) \<noteq> None"
      "reading_state (c\<lparr>c_remote_close_code := code, c_remote_close_reason := reason\<rparr>) \<noteq> None" for code reason
      using assms(2) by (simp_all add: reading_state_def)
    from this [THEN close_frame_defined] show ?thesis
      by (auto simp: process_close_def refuse_close_def send_close_ack_def Let_def split: prod.split) blast+
  qed
  ultimately show ?thesis by (auto simp: process_control_frame_def)
qed

subsection \<open>Progress of the loop\<close>

lemma consume_step_state:
  assumes "consume_step inflate h buf = Go_on h' n"
  shows "proc_state h' \<noteq> FATAL_ERROR"
proof (cases "proc_state h")
  case APPLICATION
  let ?k = "min (unat (m_bytes_needed h)) (length buf)"
  obtain h1 m where h1: "(if 0 < ?k then process_payload_bytes inflate h (take ?k buf) else (h, 0, None)) = (h1, m, None)"
    "m_bytes_needed h1 > 0 \<and> h' = h1 \<or> finish_frame h1 = (None, h')"
    using assms APPLICATION
    by (auto simp: consume_step_def step_application_def Let_def split: prod.splits option.splits if_splits)
  then have "proc_state h1 = APPLICATION"
    using APPLICATION process_payload_bytes_progress [of inflate h "take ?k buf" h1 m] by (auto split: if_splits)
  then show ?thesis using h1(2) by (auto simp: finish_frame_def reset_headers_def split: if_splits)
qed (use assms in \<open>auto simp: consume_step_def step_header_basic_def step_header_extended_def copy_basic_header_bytes_def
    copy_extended_header_bytes_def Let_def split: if_splits option.splits prod.splits dest!: start_message_state\<close>)

lemma consume_loop_outcome:
  assumes "consume_loop inflate h buf p = (h', n, None)" "proc_state h \<noteq> FATAL_ERROR"
  shows "p \<le> n \<and> proc_state h' \<noteq> FATAL_ERROR \<and> (buf \<noteq> [] \<longrightarrow> p < n \<or> proc_state h' = READY)"
  using assms
proof (induction inflate h buf p rule: consume_loop.induct)
  case (1 inflate h buf p)
  show ?case
  proof (cases "keep_going h buf")
    case False
    then show ?thesis using 1(2,3) by (auto simp: loop_stop keep_going_def)
  next
    case True
    show ?thesis
    proof (cases "consume_step inflate h buf")
      case (Go_on h1 k)
      then have step: "k \<le> length buf" "proc_state h1 \<noteq> FATAL_ERROR"
        using consume_step_decreases [OF True Go_on] consume_step_state [OF Go_on] by auto
      show ?thesis
        using 1(1) [OF True Go_on] 1(2) step loop_go [OF True Go_on, of p] by (cases "k = 0") auto
    qed (use 1(2) True in \<open>simp_all add: consume_loop.simps [of _ h]\<close>)
  qed
qed

text \<open>A processor that waits for a header takes at least one octet.\<close>

lemma consume_progress:
  assumes "consume inflate h buf = (h', n, None)" "proc_state h \<noteq> FATAL_ERROR" "buf \<noteq> []"
  shows "proc_state h' \<noteq> FATAL_ERROR" "0 < n \<or> proc_state h' = READY"
    "proc_state h = HEADER_BASIC \<Longrightarrow> m_bytes_needed h \<noteq> 0 \<Longrightarrow> 0 < n"
proof -
  note run = assms(1) [unfolded consume_def]
  show "proc_state h' \<noteq> FATAL_ERROR" "0 < n \<or> proc_state h' = READY"
    using consume_loop_outcome [OF run assms(2)] assms(3) by auto
  assume st: "proc_state h = HEADER_BASIC" "m_bytes_needed h \<noteq> 0"
  then have go: "keep_going h buf" using assms(3) by (simp add: keep_going_def)
  show "0 < n"
  proof (cases "consume_step inflate h buf")
    case (Go_on h1 k)
    then have "0 < k" using consume_step_decreases [OF go Go_on] st by (simp add: idle_rank_def)
    moreover have "consume_loop inflate h1 (drop k buf) (0 + k) = (h', n, None)" using run loop_go [OF go Go_on, of 0] by simp
    ultimately show ?thesis using consume_loop_outcome [OF _ consume_step_state [OF Go_on]] by fastforce
  qed (use run go in \<open>simp_all add: consume_loop.simps [of _ h]\<close>)
qed

lemma taken_message:
  assumes "ready h"
  shows "proc_state (snd (get_message h)) = HEADER_BASIC" "m_bytes_needed (snd (get_message h)) \<noteq> 0"
  using assms by (simp_all add: get_message_def Let_def reset_headers_def BASIC_HEADER_LENGTH_def)

lemma reader_operations:
  assumes "reader_of p = Some h"
  shows "\<exists>p' n ec. processor_consume p buf = Some (p', n, ec) \<and> reader_of p' = Some (fst (consume null_inflate h buf)) \<and>
      (n, ec) = snd (consume null_inflate h buf)"
    and "processor_ready p = ready h" "reader_of (snd (processor_get_message p)) = Some (snd (get_message h))"
  using assms by (cases p; auto simp: apfst_def apsnd_def map_prod_def split: prod.split)+

lemma dispatched_reading:
  assumes "app_ok env" "reader_of p = Some h" "c_processor c = Some p"
  shows "\<exists>d. dispatch_ready env p c = Some d \<and>
    reading_state d = (let h' = (if ready h then snd (get_message h) else h) in Some (proc_state h', m_bytes_needed h'))"
proof (cases "ready h")
  case False
  then show ?thesis using assms by (simp add: dispatch_ready_def reader_operations(2) [OF assms(2)] reading_state_def)
next
  case True
  obtain msg q where q: "processor_get_message p = (msg, q)" by fastforce
  let ?c = "c\<lparr>c_processor := Some q\<rparr>"
  have rq: "reader_of q = Some (snd (get_message h))" using reader_operations(3) [OF assms(2)] q by simp
  then have rs: "reading_state ?c = Some (proc_state (snd (get_message h)), m_bytes_needed (snd (get_message h)))"
    by (simp add: reading_state_def)
  have notified: "reading_state (notify env (On_message m) ?c) = reading_state ?c" if "c_state ?c = Open" for m
    using reader.handler_call(2) [OF assms(1), of "On_message m" ?c] that by (simp add: same_reading_def)
  have controlled: "\<exists>d. process_control_frame env m ?c = Some d \<and> reading_state d = reading_state ?c" for m
  proof -
    obtain d where d: "process_control_frame env m ?c = Some d"
      using control_defined [OF assms(1), of ?c m] rs by auto
    then show ?thesis using reader.control_processed [OF assms(1) d] by (simp add: same_reading_def)
  qed
  show ?thesis
    using True q rs notified controlled
    by (auto simp: dispatch_ready_def reader_operations(2) [OF assms(2)] Let_def split: option.split)
qed

definition reading_rank :: "processor_state \<times> u64 \<Rightarrow> nat" where
  "reading_rank s = (if fst s = HEADER_BASIC \<and> snd s \<noteq> 0 then 0 else 1)"

lemma read_loop_returns:
  assumes "app_ok env"
  shows "reading_state c = Some s \<Longrightarrow> fst s \<noteq> FATAL_ERROR \<Longrightarrow> \<exists>c'. read_loop env buf c = Some (Done c')"
proof (induction "(buf, s)" arbitrary: buf s c rule: wf_induct_rule [OF wf_measures,
    of "[\<lambda>(buf, s). length buf, \<lambda>(buf, s). reading_rank s]"])
  case (1 buf s c)
  show ?case
  proof (cases "buf = []")
    case True
    then show ?thesis by (simp add: read_loop.simps)
  next
    case False
    obtain p h where p: "c_processor c = Some p" "reader_of p = Some h" "s = (proc_state h, m_bytes_needed h)"
      using 1(2) by (auto simp: reading_state_def split: option.splits)
    obtain q h' n ec where q: "processor_consume p buf = Some (q, n, ec)" "reader_of q = Some h'"
      "consume null_inflate h buf = (h', n, ec)"
      using reader_operations(1) [OF p(2), of buf] by (metis prod.collapse)
    let ?c = "c\<lparr>c_processor := Some q\<rparr>"
    have step: "read_loop env buf c = (case ec of Some e \<Rightarrow> Some (consume_failed env e ?c)
        | None \<Rightarrow> (case dispatch_ready env q ?c of None \<Rightarrow> Some Undefined | Some d \<Rightarrow> read_loop env (drop n buf) d))"
      using False by (subst read_loop.simps) (simp add: p(1) q(1) split: option.split)
    show ?thesis
    proof (cases ec)
      case (Some e)
      have "reading_state ?c \<noteq> None" using q(2) by (simp add: reading_state_def)
      then show ?thesis using failed_defined [of ?c env e] step Some by auto
    next
      case None
      note progress = consume_progress [OF q(3) [unfolded None] _ False]
      have nf: "proc_state h \<noteq> FATAL_ERROR" using 1(3) p(3) by simp
      obtain d where d: "dispatch_ready env q ?c = Some d"
        "reading_state d = (let h = (if ready h' then snd (get_message h') else h') in Some (proc_state h, m_bytes_needed h))"
        using dispatched_reading [OF assms q(2), of ?c] by auto
      define s' where "s' = (let h = (if ready h' then snd (get_message h') else h') in (proc_state h, m_bytes_needed h))"
      have s': "reading_state d = Some s'" "fst s' \<noteq> FATAL_ERROR"
        using d(2) progress(1) [OF nf] taken_message [of h'] by (auto simp: s'_def Let_def)
      have "((drop n buf, s'), (buf, s)) \<in> measures [\<lambda>(buf, s). length buf, \<lambda>(buf, s). reading_rank s]"
      proof (cases "0 < n")
        case True
        then show ?thesis using False by simp
      next
        case n: False
        then have "ready h'" using progress(2) [OF nf] by (simp add: ready_def)
        then have "reading_rank s' = 0" using taken_message [of h'] by (simp add: s'_def reading_rank_def)
        moreover have "reading_rank s = 1" using progress(3) [OF nf] n p(3) by (auto simp: reading_rank_def)
        ultimately show ?thesis using n by simp
      qed
      from 1(1) [OF this s'] show ?thesis using step None d(1) by simp
    qed
  qed
qed



text \<open>
  C28: the processor of the draft that met a protocol error keeps the loop running for ever: it takes no octet,
  reports no error and has no message ready. The loop is entered again when the application resumes reading.
\<close>

theorem draft_error_spins:
  assumes "c_internal_state c = PROCESS_CONNECTION" "c_processor c = Some (Processor00 h)" "h_state h = H_fatal" "buf \<noteq> []"
  shows "handle_read_frame env None buf c = None"
proof -
  have "read_loop env buf c = None"
  proof (rule ccontr)
    assume "read_loop env buf c \<noteq> None"
    then obtain r where r: "read_loop env buf c = Some r" by blast
    have "\<not> (c_processor c = Some (Processor00 h) \<and> buf \<noteq> [])"
    proof (rule read_loop.raw_induct [where P = "\<lambda>env buf c r. \<not> (c_processor c = Some (Processor00 h) \<and> buf \<noteq> [])", OF _ r])
      fix f env buf c r
      assume IH: "\<And>env buf c r. f env buf c = Some r \<Longrightarrow> \<not> (c_processor c = Some (Processor00 h) \<and> buf \<noteq> [])"
        and body: "(if buf = [] then Some (Done (read_frame c))
          else case c_processor c of
              None \<Rightarrow> Some Undefined
            | Some p \<Rightarrow>
                (case processor_consume p buf of
                   None \<Rightarrow> Some Undefined
                 | Some (p', n, Some e) \<Rightarrow> Some (consume_failed env e (c\<lparr>c_processor := Some p'\<rparr>))
                 | Some (p', n, None) \<Rightarrow>
                     (case dispatch_ready env p' (c\<lparr>c_processor := Some p'\<rparr>) of
                        None \<Rightarrow> Some Undefined
                      | Some c' \<Rightarrow> f env (drop n buf) c'))) = Some r"
      show "\<not> (c_processor c = Some (Processor00 h) \<and> buf \<noteq> [])"
      proof
        assume c: "c_processor c = Some (Processor00 h) \<and> buf \<noteq> []"
        have same: "c\<lparr>c_processor := Some (Processor00 h)\<rparr> = c" using c by simp
        have "hybi00_consume h buf = Some (h, 0, None)"
          using c assms(3) by (cases buf) (simp_all add: hybi00_consume_def hybi00_loop.simps)
        then have "f env buf c = Some r"
          using body c same assms(3) by (simp add: dispatch_ready_def hybi00_ready_def)
        then show False using IH c by blast
      qed
    qed
    then show False using assms(2,4) by simp
  qed
  then show ?thesis using assms(1) by (simp add: handle_read_frame_def atomic_state_check_def)
qed

definition draft_server :: connection where
  "draft_server = (make_connection True [] 0 0 0 1000)\<lparr>c_state := Open, c_internal_state := PROCESS_CONNECTION,
     c_processor := Some (Processor00 (make_hybi00\<lparr>h_state := H_fatal\<rparr>))\<rparr>"

theorem draft_error_spins_witness: "handle_read_frame quiet_env None [0] draft_server = None"
  by (rule draft_error_spins [where h = "make_hybi00\<lparr>h_state := H_fatal\<rparr>"]) (simp_all add: draft_server_def make_connection_def make_hybi00_def)

end
