(* ===== verification/Hybi13_Receive.thy ===== *)
theory Hybi13_Receive
  imports Hybi13
begin

text \<open>
  The receiving half of \<^verbatim>\<open>hybi13.hpp\<close>: the payload reader without compression, the invariant every
  iteration of the \<^verbatim>\<open>consume\<close> loop keeps, the receivers reachable by feeding octets and taking messages,
  and what they may rely on.
\<close>

subsection \<open>The payload reader, uncompressed\<close>

definition current_message :: "'z hybi13 \<Rightarrow> message" where
  "current_message h = the (msg_ptr (current_metadata h))"

definition unmask :: "'z hybi13 \<Rightarrow> bytes \<Rightarrow> bytes \<times> u64" where
  "unmask h buf = (if get_masked (m_basic_header h)
     then word_mask_step (prepared_key (current_metadata h)) buf
     else (buf, prepared_key (current_metadata h)))"

definition check_text :: "'z hybi13 \<Rightarrow> bytes \<Rightarrow> bool \<times> validator" where
  "check_text h data = (if msg_opcode (current_message h) = Text
     then validator_decode (msg_validator (current_metadata h)) data
     else (True, msg_validator (current_metadata h)))"

definition store_payload :: "'z hybi13 \<Rightarrow> bytes \<Rightarrow> 'z hybi13" where
  "store_payload h buf =
     (let (data, key) = unmask h buf; m = current_message h
      in set_current_metadata h ((current_metadata h)
           \<lparr>msg_ptr := Some (m\<lparr>msg_payload := msg_payload m @ data\<rparr>), prepared_key := key,
             msg_validator := snd (check_text h data)\<rparr>))"

lemma set_current_simps [simp]:
  "m_server (set_current_metadata h md) = m_server h"
  "m_max_message_size (set_current_metadata h md) = m_max_message_size h"
  "pmd_enabled (set_current_metadata h md) = pmd_enabled h"
  "pmd_stream (set_current_metadata h md) = pmd_stream h"
  "m_basic_header (set_current_metadata h md) = m_basic_header h"
  "m_bytes_needed (set_current_metadata h md) = m_bytes_needed h"
  "m_cursor (set_current_metadata h md) = m_cursor h"
  "m_current_msg (set_current_metadata h md) = m_current_msg h"
  "m_extended_header (set_current_metadata h md) = m_extended_header h"
  "current_metadata (set_current_metadata h md) = md"
  "set_current_metadata (set_current_metadata h md) md' = set_current_metadata h md'"
  by (simp_all add: set_current_metadata_def current_metadata_def)

lemma set_current_needed [simp]:
  "set_current_metadata (h\<lparr>m_bytes_needed := k\<rparr>) md = (set_current_metadata h md)\<lparr>m_bytes_needed := k\<rparr>"
  "current_metadata (h\<lparr>m_bytes_needed := k\<rparr>) = current_metadata h"
  by (simp_all add: set_current_metadata_def current_metadata_def)

lemma process_payload_plain:
  fixes h :: "'z hybi13"
  assumes "\<not> pmd_enabled h"
  shows "process_payload_bytes inflate h buf =
    (if fst (check_text h (fst (unmask h buf)))
     then ((store_payload h buf)\<lparr>m_bytes_needed := m_bytes_needed h - of_nat (length buf)\<rparr>, length buf, None)
     else (store_payload h buf, 0, Some (Processor P_invalid_utf8)))"
proof -
  have z: "x\<lparr>pmd_stream := pmd_stream h\<rparr> = x" if "pmd_stream x = pmd_stream h" for x :: "'z hybi13"
    using that by (cases x) simp
  show ?thesis
    using assms
    by (simp add: process_payload_bytes_def Let_def case_prod_unfold unmask_def check_text_def
        store_payload_def current_message_def word_mask_step_def z)
qed

text \<open>The loop in a payload: whole or in part.\<close>

lemma payload_step:
  assumes "proc_state h = APPLICATION" "\<not> pmd_enabled h" "m_bytes_needed h \<noteq> 0" "buf \<noteq> []"
    and n: "n = min (unat (m_bytes_needed h)) (length buf)"
  shows "consume_step inflate h buf =
    (if fst (check_text h (fst (unmask h (take n buf)))) then
       (let h1 = (store_payload h (take n buf))\<lparr>m_bytes_needed := m_bytes_needed h - of_nat n\<rparr> in
        if n < unat (m_bytes_needed h) then Go_on h1 n
        else (case finish_frame h1 of (Some e, h2) \<Rightarrow> Break_out h2 n e | (None, h2) \<Rightarrow> Go_on h2 n))
     else Break_out (store_payload h (take n buf)) 0 (Processor P_invalid_utf8))"
proof -
  have pos: "0 < n" using n min_unat_pos assms by blast
  have len: "length (take n buf) = n" using n by simp
  have le: "n \<le> unat (m_bytes_needed h)" using n by simp
  have un: "unat (of_nat n :: u64) = n"
    using le by (rule unat_of_nat_le)
  have z: "m_bytes_needed h - of_nat n > 0 \<longleftrightarrow> n < unat (m_bytes_needed h)"
    using le un unat_sub [of "of_nat n" "m_bytes_needed h"]
    by (auto simp add: word_neq_0_conv [symmetric] word_le_nat_alt unat_eq_0 [symmetric] simp del: unat_eq_0)
  have z0: "m_bytes_needed h = of_nat n \<longleftrightarrow> \<not> n < unat (m_bytes_needed h)"
  proof -
    have "m_bytes_needed h = of_nat n \<longleftrightarrow> unat (m_bytes_needed h) = n"
      using un by (metis unat_eq_of_nat)
    with le show ?thesis by auto
  qed
  show ?thesis
    using assms(1-4) pos len z z0 n [symmetric]
    by (auto simp: consume_step_def step_application_def process_payload_plain Let_def
        split: option.splits prod.splits)
qed

lemma empty_payload_step:
  assumes "proc_state h = APPLICATION" "m_bytes_needed h = 0"
  shows "consume_step inflate h buf =
     (case finish_frame h of (Some e, h2) \<Rightarrow> Break_out h2 0 e | (None, h2) \<Rightarrow> Go_on h2 0)"
  using assms by (simp add: consume_step_def step_application_def)

subsection \<open>The receiver's invariant\<close>

text \<open>A stored message has the opcode its kind allows and, uncompressed, a checked payload.\<close>

definition data_message_ok :: "bool \<Rightarrow> msg_metadata \<Rightarrow> bool" where
  "data_message_ok enabled md =
     (is_phased (prepared_key md) \<and>
      (case msg_ptr md of
         None \<Rightarrow> True
       | Some m \<Rightarrow> msg_opcode m \<in> {Text, Binary} \<and>
           (\<not> enabled \<longrightarrow> msg_opcode m = Text \<longrightarrow>
              validator_decode validator_init (msg_payload m) = (True, msg_validator md))))"

definition control_message_ok :: "msg_metadata \<Rightarrow> bool" where
  "control_message_ok md =
     (is_phased (prepared_key md) \<and>
      (case msg_ptr md of None \<Rightarrow> True | Some m \<Rightarrow> is_control (msg_opcode m)))"

definition header_ok :: "'z hybi13 \<Rightarrow> bool" where
  "header_ok h =
     (let op = get_opcode (m_basic_header h)
      in \<not> opcode_reserved op \<and> (is_control op \<longrightarrow> get_fin (m_basic_header h)))"

definition message_open :: "'z hybi13 \<Rightarrow> bool" where
  "message_open h \<longleftrightarrow>
     m_current_msg h = (if is_control (get_opcode (m_basic_header h)) then Control_msg else Data_msg) \<and>
     msg_ptr (current_metadata h) \<noteq> None"

definition receiver_ok :: "'z hybi13 \<Rightarrow> bool" where
  "receiver_ok h \<longleftrightarrow>
     data_message_ok (pmd_enabled h) (m_data_msg h) \<and> control_message_ok (m_control_msg h) \<and>
     length (ext_bytes (m_extended_header h)) = 12 \<and>
     (case proc_state h of
        HEADER_BASIC \<Rightarrow> m_bytes_needed h = 1 \<or> m_bytes_needed h = 2
      | HEADER_EXTENDED \<Rightarrow> m_cursor h + unat (m_bytes_needed h) \<le> 12 \<and> header_ok h \<and>
          (\<not> is_control (get_opcode (m_basic_header h)) \<longrightarrow>
             (get_opcode (m_basic_header h) = Continuation \<longleftrightarrow> msg_ptr (m_data_msg h) \<noteq> None))
      | APPLICATION \<Rightarrow> header_ok h \<and> message_open h
      | READY \<Rightarrow> header_ok h \<and> message_open h \<and>
          (get_opcode (m_basic_header h) = Text \<longrightarrow> complete (msg_validator (current_metadata h)))
      | _ \<Rightarrow> False)"

lemma is_phased_0: "is_phased 0"
proof -
  have "prepare_masking_key 0 = 0" by (simp add: prepare_masking_key_def shl64_def)
  then show ?thesis using is_phased_prepare [of 0] by simp
qed

lemma receiver_ok_init: "receiver_ok (make_hybi13 srv mx en z)"
  by (simp add: receiver_ok_def data_message_ok_def control_message_ok_def make_hybi13_def reset_headers_def empty_metadata_def is_phased_0
      BASIC_HEADER_LENGTH_def MAX_EXTENDED_HEADER_LENGTH_def)

lemma header_len_bound: "get_header_len B - 2 \<le> 12"
  by (simp add: get_header_len_def get_masking_key_offset_def Let_def BASIC_HEADER_LENGTH_def)

lemma validate_basic_accepts:
  "validate_incoming_basic_header en B srv new_msg = None \<longleftrightarrow>
     (let op = get_opcode B in
      \<not> opcode_reserved op \<and>
      (is_control op \<longrightarrow> get_fin B \<and> unat (get_basic_size B) \<le> 125) \<and>
      (get_rsv1 B \<longrightarrow> en \<and> \<not> is_control op) \<and> \<not> get_rsv2 B \<and> \<not> get_rsv3 B \<and>
      (\<not> is_control op \<longrightarrow> (op = Continuation \<longleftrightarrow> \<not> new_msg)) \<and> (get_masked B \<longleftrightarrow> srv))"
proof -
  have "\<not> is_control Continuation" by (simp add: is_control_def)
  then show ?thesis
    by (auto simp: validate_incoming_basic_header_def Let_def opcode_never_invalid payload_size_basic_def)
qed

lemma basic_step_ok:
  assumes "receiver_ok h" "proc_state h = HEADER_BASIC" "step_header_basic h buf = Go_on h' n"
  shows "receiver_ok h'"
proof -
  obtain h1 where h1: "copy_basic_header_bytes h buf = (h1, n)"
    using assms(3) by (auto simp: step_header_basic_def split: prod.splits if_splits option.splits)
  then have same: "proc_state h1 = HEADER_BASIC" "m_data_msg h1 = m_data_msg h" "m_control_msg h1 = m_control_msg h"
    "m_extended_header h1 = m_extended_header h" "pmd_enabled h1 = pmd_enabled h"
    using assms(2) by (auto simp: copy_basic_header_bytes_def split: if_splits)
  have need: "m_bytes_needed h1 \<in> {0, 1, 2}"
    using h1 assms(1,2) by (auto simp: copy_basic_header_bytes_def receiver_ok_def split: if_splits)
  show ?thesis
  proof (cases "m_bytes_needed h1 = 0")
    case False
    then have "h' = h1" using assms(3) h1 by (auto simp: step_header_basic_def word_neq_0_conv)
    with assms(1,2) same need False show ?thesis by (auto simp: receiver_ok_def)
  next
    case True
    let ?n = "get_header_len (m_basic_header h1) - 2"
    have u: "unat (of_nat ?n :: u64) \<le> 12"
      using header_len_bound [of "m_basic_header h1"] by (simp add: unat_of_nat_small)
    have v: "validate_incoming_basic_header (pmd_enabled h1) (m_basic_header h1) (m_server h1)
             (msg_ptr (m_data_msg h1) = None) = None"
      and h': "h' = h1\<lparr>proc_state := HEADER_EXTENDED, m_cursor := 0, m_bytes_needed := of_nat ?n\<rparr>"
      using assms(3) h1 True by (auto simp: step_header_basic_def BASIC_HEADER_LENGTH_def split: option.splits)
    show ?thesis
      using assms(1) same u v [unfolded validate_basic_accepts] unfolding h'
      by (auto simp: receiver_ok_def header_ok_def Let_def)
  qed
qed

lemma fresh_data_ok:
  "op \<in> {Text, Binary} \<Longrightarrow>
     data_message_ok en (make_metadata (alloc_get_message op k) key)"
  by (simp add: data_message_ok_def make_metadata_def alloc_get_message_def make_message_def is_phased_prepare)

lemma fresh_control_ok:
  "is_control op \<Longrightarrow> control_message_ok (make_metadata (alloc_get_message op k) key)"
  by (simp add: control_message_ok_def make_metadata_def alloc_get_message_def make_message_def is_phased_prepare)

lemma rekey_ok:
  "data_message_ok en md \<Longrightarrow> data_message_ok en (md\<lparr>prepared_key := prepare_masking_key key\<rparr>)"
  by (simp add: data_message_ok_def is_phased_prepare split: option.splits)

lemma data_opcodes: "\<not> opcode_reserved op \<Longrightarrow> \<not> is_control op \<Longrightarrow> op \<noteq> Continuation \<Longrightarrow> op \<in> {Text, Binary}"
  by (cases op) (simp_all add: opcode_reserved_def is_control_def)

lemma start_message_ok:
  assumes "data_message_ok (pmd_enabled h) (m_data_msg h)" "control_message_ok (m_control_msg h)"
    "length (ext_bytes (m_extended_header h)) = 12" "header_ok h" "proc_state h = APPLICATION"
    "\<not> is_control (get_opcode (m_basic_header h)) \<longrightarrow>
       (get_opcode (m_basic_header h) = Continuation \<longleftrightarrow> msg_ptr (m_data_msg h) \<noteq> None)"
    and "start_message h = (None, h')"
  shows "receiver_ok h'"
proof (cases "is_control (get_opcode (m_basic_header h))")
  case True
  then show ?thesis
    using assms by (auto simp: start_message_def receiver_ok_def message_open_def header_ok_def
        current_metadata_def fresh_control_ok make_metadata_def alloc_get_message_def
        fresh_control_ok [unfolded make_metadata_def alloc_get_message_def])
next
  case False
  show ?thesis
  proof (cases "msg_ptr (m_data_msg h)")
    case None
    then have "get_opcode (m_basic_header h) \<in> {Text, Binary}"
      using False assms(4,6) by (intro data_opcodes) (auto simp: header_ok_def Let_def)
    from fresh_data_ok [OF this] None False assms show ?thesis
      by (auto simp: start_message_def receiver_ok_def message_open_def header_ok_def
          current_metadata_def make_metadata_def alloc_get_message_def Let_def split: if_splits)
  next
    case (Some m)
    from rekey_ok [OF assms(1)] Some False assms show ?thesis
      by (auto simp: start_message_def receiver_ok_def message_open_def header_ok_def
          current_metadata_def Let_def split: if_splits)
  qed
qed

lemma extended_step_ok:
  assumes "receiver_ok h" "proc_state h = HEADER_EXTENDED" "step_header_extended h buf = Go_on h' n"
  shows "receiver_ok h'"
proof -
  let ?k = "min (unat (m_bytes_needed h)) (length buf)"
  obtain h1 where h1: "copy_extended_header_bytes h buf = (h1, n)"
    using assms(3) by (auto simp: step_header_extended_def copy_extended_header_bytes_def Let_def
        split: prod.splits if_splits option.splits)
  then have n: "n = ?k" by (simp add: copy_extended_header_bytes_def Let_def)
  have un: "unat (of_nat ?k :: u64) = ?k" by (rule unat_of_nat_le [of _ "m_bytes_needed h"]) simp
  have un': "unat (m_bytes_needed h - of_nat ?k) = unat (m_bytes_needed h) - ?k"
    using un unat_sub [of "of_nat ?k" "m_bytes_needed h"] by (simp add: word_le_nat_alt)
  have fits: "m_cursor h + unat (m_bytes_needed h) \<le> 12" "length (ext_bytes (m_extended_header h)) = 12"
    using assms(1,2) by (simp_all add: receiver_ok_def)
  then have len: "length (ext_bytes (m_extended_header h1)) = 12"
    using h1 by (auto simp: copy_extended_header_bytes_def Let_def overwrite_def)
  have same: "proc_state h1 = HEADER_EXTENDED" "m_data_msg h1 = m_data_msg h" "m_control_msg h1 = m_control_msg h"
    "m_basic_header h1 = m_basic_header h" "pmd_enabled h1 = pmd_enabled h"
    and cur: "m_cursor h1 = m_cursor h + ?k" "m_bytes_needed h1 = m_bytes_needed h - of_nat ?k"
    using h1 assms(2) by (auto simp: copy_extended_header_bytes_def Let_def)
  show ?thesis
  proof (cases "m_bytes_needed h1 = 0")
    case False
    then have "h' = h1" using assms(3) h1 by (auto simp: step_header_extended_def word_neq_0_conv)
    moreover have "m_cursor h1 + unat (m_bytes_needed h1) \<le> 12"
      using fits(1) un' unfolding cur by linarith
    ultimately show ?thesis using assms(1,2) same len by (auto simp: receiver_ok_def header_ok_def)
  next
    case True
    then have st: "start_message (h1\<lparr>proc_state := APPLICATION,
        m_bytes_needed := get_payload_size (m_basic_header h1) (m_extended_header h1)\<rparr>) = (None, h')"
      using assms(3) h1 by (auto simp: step_header_extended_def split: option.splits prod.splits)
    show ?thesis
      by (rule start_message_ok [OF _ _ _ _ _ _ st])
        (use assms(1,2) same len in \<open>simp_all add: receiver_ok_def header_ok_def\<close>)
  qed
qed

lemma unmask_phased:
  "is_phased (prepared_key (current_metadata h)) \<Longrightarrow> is_phased (snd (unmask h buf))"
  by (simp add: unmask_def word_masker.key_valid)

lemma message_open_Some: "message_open h \<Longrightarrow> \<exists>m. msg_ptr (current_metadata h) = Some m"
  by (auto simp: message_open_def)

lemma is_control_data: "msg_opcode m \<in> {Text, Binary} \<Longrightarrow> \<not> is_control (msg_opcode m)"
  by (auto simp: is_control_def)

lemma open_update_ok:
  assumes "receiver_ok h" "proc_state h = APPLICATION"
    and m: "msg_ptr (current_metadata h) = Some m" and "is_phased key"
    and valid: "\<not> pmd_enabled h \<longrightarrow> msg_opcode m = Text \<longrightarrow>
      validator_decode validator_init (msg_payload m) = (True, msg_validator (current_metadata h)) \<longrightarrow>
      validator_decode validator_init out = (True, val)"
  shows "receiver_ok (set_current_metadata h ((current_metadata h)
    \<lparr>msg_ptr := Some (m\<lparr>msg_payload := out\<rparr>), prepared_key := key, msg_validator := val\<rparr>))"
    (is "receiver_ok ?h")
proof (cases "is_control (get_opcode (m_basic_header h))")
  case True
  with assms show ?thesis
    by (simp add: receiver_ok_def message_open_def header_ok_def current_metadata_def
        control_message_ok_def set_current_metadata_def)
next
  case False
  with assms show ?thesis
    by (simp add: receiver_ok_def message_open_def header_ok_def current_metadata_def
        data_message_ok_def set_current_metadata_def)
qed

lemma receiver_ok_reframe:
  assumes "proc_state h = APPLICATION"
  shows "receiver_ok (h\<lparr>pmd_stream := z\<rparr>) = receiver_ok h"
    and "receiver_ok (h\<lparr>m_bytes_needed := k\<rparr>) = receiver_ok h"
  using assms by (simp_all add: receiver_ok_def message_open_def header_ok_def current_metadata_def)

lemma payload_ok:
  assumes ok: "receiver_ok h" "proc_state h = APPLICATION"
    and p: "process_payload_bytes inflate h buf = (h', n, None)"
  shows "receiver_ok h'"
proof -
  from ok obtain m where m: "msg_ptr (current_metadata h) = Some m"
    by (auto simp: receiver_ok_def dest: message_open_Some)
  have key: "is_phased (prepared_key (current_metadata h))"
    using ok by (simp add: receiver_ok_def current_metadata_def data_message_ok_def control_message_ok_def)
  define comp where "comp = (pmd_enabled h \<and> get_rsv1 (m_basic_header h))"
  define az where "az = (if comp then inflate (pmd_stream h) (fst (unmask h buf)) else (fst (unmask h buf), pmd_stream h))"
  define out where "out = msg_payload m @ fst az"
  define offset where "offset = (if comp then length out - length (msg_payload m) else length (msg_payload m))"
  define dec where "dec = (if msg_opcode m = Text
      then validator_decode (msg_validator (current_metadata h)) (drop offset out)
      else (True, msg_validator (current_metadata h)))"
  define key' where "key' = snd (unmask h buf)"
  define val where "val = snd dec"
  define z where "z = snd az"
  note defs = comp_def az_def out_def offset_def dec_def key'_def val_def z_def
  have ok': "fst dec" and h': "h' = (set_current_metadata h ((current_metadata h)
      \<lparr>msg_ptr := Some (m\<lparr>msg_payload := out\<rparr>), prepared_key := key', msg_validator := val\<rparr>))
      \<lparr>pmd_stream := z, m_bytes_needed := m_bytes_needed h - of_nat (length buf)\<rparr>"
    using p m by (auto simp: process_payload_bytes_def unmask_def word_mask_step_def Let_def
        case_prod_unfold defs split: if_splits)
  from ok' have val: "\<not> pmd_enabled h \<longrightarrow> msg_opcode m = Text \<longrightarrow>
       out = msg_payload m @ fst (unmask h buf) \<and>
       validator_decode (msg_validator (current_metadata h)) (fst (unmask h buf)) = (True, val)"
    by (auto simp: defs prod_eq_iff)
  have "receiver_ok (set_current_metadata h ((current_metadata h)
      \<lparr>msg_ptr := Some (m\<lparr>msg_payload := out\<rparr>), prepared_key := key', msg_validator := val\<rparr>))"
    by (rule open_update_ok [OF ok m])
      (use val in \<open>auto simp: key'_def unmask_phased key validator_decode_append\<close>)
  then show ?thesis using ok(2) by (simp add: h' receiver_ok_reframe)
qed

lemma finish_frame_ok:
  assumes "receiver_ok h" "proc_state h = APPLICATION" "finish_frame h = (None, h')"
  shows "receiver_ok h'"
proof (cases "get_fin (m_basic_header h)")
  case True
  with assms show ?thesis
    by (auto simp: finish_frame_def receiver_ok_def message_open_def header_ok_def
        current_metadata_def split: if_splits)
next
  case False
  with assms show ?thesis
    by (auto simp: finish_frame_def receiver_ok_def reset_headers_def BASIC_HEADER_LENGTH_def
        MAX_EXTENDED_HEADER_LENGTH_def)
qed

lemma application_step_ok:
  assumes "receiver_ok h" "proc_state h = APPLICATION" "step_application inflate h buf = Go_on h' n"
  shows "receiver_ok h'"
proof -
  let ?k = "min (unat (m_bytes_needed h)) (length buf)"
  obtain h1 k where h1: "(if ?k > 0 then process_payload_bytes inflate h (take ?k buf) else (h, 0, None)) = (h1, k, None)"
    using assms(3) by (auto simp: step_application_def Let_def split: prod.splits option.splits)
  have ok: "receiver_ok h1" "proc_state h1 = APPLICATION"
    using h1 assms(1,2) payload_ok [OF assms(1,2)] process_payload_bytes_progress
    by (fastforce split: if_splits)+
  show ?thesis
    using assms(3) ok h1 finish_frame_ok [OF ok]
    by (auto simp: step_application_def Let_def split: prod.splits option.splits if_splits)
qed

lemma step_ok:
  assumes "receiver_ok h" "consume_step inflate h buf = Go_on h' n"
  shows "receiver_ok h'"
proof (cases "proc_state h")
  case HEADER_BASIC
  with assms show ?thesis by (auto simp: consume_step_def intro: basic_step_ok)
next
  case HEADER_EXTENDED
  with assms show ?thesis by (auto simp: consume_step_def intro: extended_step_ok)
next
  case APPLICATION
  with assms show ?thesis by (auto simp: consume_step_def intro: application_step_ok)
qed (use assms in \<open>simp_all add: consume_step_def receiver_ok_def\<close>)

lemma cleared_ok:
  "data_message_ok en md \<Longrightarrow> data_message_ok en (md\<lparr>msg_ptr := None\<rparr>)"
  "control_message_ok md \<Longrightarrow> control_message_ok (md\<lparr>msg_ptr := None\<rparr>)"
  by (simp_all add: data_message_ok_def control_message_ok_def)

lemma get_message_ok:
  assumes "receiver_ok h" "get_message h = (m, h')"
  shows "receiver_ok h'"
proof (cases "ready h")
  case True
  then have "proc_state h = READY" by (simp add: ready_def)
  with assms True show ?thesis
    by (auto simp: get_message_def Let_def receiver_ok_def set_current_metadata_def reset_headers_def
        current_metadata_def cleared_ok BASIC_HEADER_LENGTH_def MAX_EXTENDED_HEADER_LENGTH_def)
next
  case False
  with assms show ?thesis by (simp add: get_message_def)
qed

lemma consume_loop_ok:
  "receiver_ok h \<Longrightarrow> consume_loop inflate h buf p = (h', n, None) \<Longrightarrow> receiver_ok h'"
proof (induction inflate h buf p rule: consume_loop.induct)
  case (1 inflate h buf p)
  show ?case
  proof (cases "keep_going h buf")
    case True
    with 1 show ?thesis
      by (cases "consume_step inflate h buf") (auto simp: loop_go loop_break consume_loop.simps [of _ h] dest: step_ok)
  qed (use 1 in \<open>simp add: loop_stop\<close>)
qed

subsection \<open>Reachable receivers\<close>

text \<open>
  The states a receiver goes through while octets arrive: every state at the head of the loop, and
  the one left by handing a message over. A receiver that reported an error is not fed again.
\<close>

inductive reachable :: "('z \<Rightarrow> bytes \<Rightarrow> bytes \<times> 'z) \<Rightarrow> 'z hybi13 \<Rightarrow> bool"
  for inflate :: "'z \<Rightarrow> bytes \<Rightarrow> bytes \<times> 'z" where
  reach_init: "reachable inflate (make_hybi13 srv max_size en z)"
| reach_step: "reachable inflate h \<Longrightarrow> keep_going h buf \<Longrightarrow> consume_step inflate h buf = Go_on h' n \<Longrightarrow>
     reachable inflate h'"
| reach_take: "reachable inflate h \<Longrightarrow> get_message h = (m, h') \<Longrightarrow> reachable inflate h'"

lemma reachable_ok: "reachable inflate h \<Longrightarrow> receiver_ok h"
  by (induction rule: reachable.induct) (auto intro: receiver_ok_init step_ok get_message_ok)

lemma reachable_consume_loop:
  "reachable inflate h \<Longrightarrow> consume_loop inflate h buf p = (h', n, None) \<Longrightarrow> reachable inflate h'"
proof (induction inflate h buf p rule: consume_loop.induct)
  case (1 inflate h buf p)
  show ?case
  proof (cases "keep_going h buf")
    case True
    with 1 show ?thesis
      by (cases "consume_step inflate h buf")
        (auto simp: loop_go loop_break consume_loop.simps [of _ h] intro: reach_step)
  qed (use 1 in \<open>simp add: loop_stop\<close>)
qed

lemma reachable_consume:
  "reachable inflate h \<Longrightarrow> consume inflate h buf = (h', n, None) \<Longrightarrow> reachable inflate h'"
  unfolding consume_def by (rule reachable_consume_loop)

subsection \<open>Properties\<close>


text \<open>
  C16: the text a receiver without compression hands over was run through the UTF-8 validator octet by
  octet and refused nowhere; when it came in one frame it is a complete, valid UTF-8 string.
\<close>

theorem delivered_text_validated:
  assumes "reachable inflate h" "\<not> pmd_enabled h" "get_message h = (Some m, h')"
    and "msg_opcode m = Text"
  shows "fst (validator_decode validator_init (msg_payload m)) \<and>
    (get_opcode (m_basic_header h) = Text \<longrightarrow> validate (msg_payload m))"
proof -
  have ok: "receiver_ok h" using assms(1) by (rule reachable_ok)
  have rdy: "proc_state h = READY" and m: "msg_ptr (current_metadata h) = Some m"
    using assms(3) by (auto simp: get_message_def ready_def Let_def split: if_splits)
  have "m_current_msg h \<noteq> Control_msg"
  proof
    assume "m_current_msg h = Control_msg"
    with ok m assms(4) show False
      by (simp add: receiver_ok_def current_metadata_def control_message_ok_def is_control_def)
  qed
  with ok rdy m assms(2,4) show ?thesis
    by (simp add: receiver_ok_def current_metadata_def data_message_ok_def validate_def)
qed

definition client :: "nat hybi13" where
  "client = make_hybi13 False 1000 False 0"

definition no_inflate :: "nat \<Rightarrow> bytes \<Rightarrow> bytes \<times> nat" where
  "no_inflate z bs = (bs, z)"

definition server :: "nat hybi13" where
  "server = make_hybi13 True 1000 False 0"

lemma endpoints_reachable: "reachable inflate client" "reachable inflate server"
  unfolding client_def server_def by (rule reach_init)+

lemma endpoints_plain: "\<not> pmd_enabled client" "\<not> pmd_enabled server"
  by (simp_all add: client_def server_def make_hybi13_def reset_headers_def)

theorem delivered_text_validated_witness:
  "fst (validator_decode validator_init [0x48, 0x69]) \<and> validate [0x48, 0x69]"
proof -
  let ?r = "consume no_inflate client [0x81, 2, 0x48, 0x69]"
  let ?h = "fst ?r"
  have "snd (snd ?r) = None" and q: "\<not> pmd_enabled ?h"
    and m: "case fst (get_message ?h) of None \<Rightarrow> False
      | Some m \<Rightarrow> msg_opcode m = Text \<and> msg_payload m = [0x48, 0x69]"
    and b: "get_opcode (m_basic_header ?h) = Text"
    by code_simp+
  then have "reachable no_inflate ?h"
    by (intro reachable_consume [OF endpoints_reachable(1)]) (auto simp: prod_eq_iff)
  moreover obtain m where "get_message ?h = (Some m, snd (get_message ?h))" "msg_opcode m = Text"
    "msg_payload m = [0x48, 0x69]"
    using m by (cases "fst (get_message ?h)") (auto simp: prod_eq_iff)
  ultimately show ?thesis
    using delivered_text_validated [of no_inflate ?h m "snd (get_message ?h)"] q b by simp
qed


end
