(* ===== verification/Hybi13_Stream.thy ===== *)
theory Hybi13_Stream
  imports Hybi13_Receive
begin

text \<open>
  Independence of the receiver from the way the transport cuts the stream: \<^verbatim>\<open>websocketpp\<close> calls
  \<^verbatim>\<open>consume\<close> on whatever \<^verbatim>\<open>async_read_at_least\<close> returns, so a frame may arrive cut at any octet.
\<close>

subsection \<open>One iteration on a split buffer\<close>

text \<open>Two iterations that leave the same state, the second counting \<open>k\<close> octets more, or that fail alike.\<close>

fun same_step :: "nat \<Rightarrow> 'z step_result \<Rightarrow> 'z step_result \<Rightarrow> bool" where
  "same_step k (Go_on h n) (Go_on h' n') = (h = h' \<and> n' = k + n)"
| "same_step k (Break_out h n e) (Break_out h' n' e') = (e = e')"
| "same_step k (Give_up h e) (Give_up h' e') = (e = e')"
| "same_step k _ _ = False"

lemma same_step_refl: "same_step 0 r r"
  by (cases r) simp_all

definition split_step ::
  "('z \<Rightarrow> bytes \<Rightarrow> bytes \<times> 'z) \<Rightarrow> 'z hybi13 \<Rightarrow> bytes \<Rightarrow> bytes \<Rightarrow> bool" where
  "split_step inflate h xs ys \<longleftrightarrow>
     same_step 0 (consume_step inflate h xs) (consume_step inflate h (xs @ ys)) \<or>
     (\<exists>h'. consume_step inflate h xs = Go_on h' (length xs) \<and> m_bytes_needed h' \<noteq> 0 \<and>
        proc_state h' \<noteq> READY \<and> proc_state h' \<noteq> FATAL_ERROR \<and>
        (ys \<noteq> [] \<longrightarrow> same_step (length xs) (consume_step inflate h' ys) (consume_step inflate h (xs @ ys))))"

lemma split_basic:
  assumes "proc_state h = HEADER_BASIC" "m_bytes_needed h = 1 \<or> m_bytes_needed h = 2" "keep_going h xs"
  shows "split_step inflate h xs ys"
proof -
  obtain a xs' where xs: "xs = a # xs'" using assms by (cases xs) (auto simp: keep_going_def)
  show ?thesis
  proof (cases "m_bytes_needed h = 1 \<or> xs' \<noteq> []")
    case True
    then have "copy_basic_header_bytes h (xs @ ys) = copy_basic_header_bytes h xs"
      using assms(2) by (cases xs'; cases ys) (auto simp: xs copy_basic_header_bytes_def)
    then show ?thesis
      using assms(1) by (simp add: split_step_def consume_step_def step_header_basic_def same_step_refl)
  next
    case False
    then have two: "m_bytes_needed h = 2" "xs = [a]" using assms(2) xs by auto
    let ?h = "h\<lparr>m_basic_header := (m_basic_header h)\<lparr>b0 := a\<rparr>, m_bytes_needed := 1\<rparr>"
    have st: "consume_step inflate h xs = Go_on ?h 1"
      using two assms(1) by (simp add: consume_step_def step_header_basic_def copy_basic_header_bytes_def)
    have "same_step 1 (consume_step inflate ?h ys) (consume_step inflate h (xs @ ys))" if "ys \<noteq> []"
    proof -
      obtain b ys' where ys: "ys = b # ys'" using \<open>ys \<noteq> []\<close> by (cases ys) auto
      have B: "(m_basic_header h)\<lparr>b0 := a, b1 := b\<rparr> = \<lparr>b0 = a, b1 = b\<rparr>" by (cases "m_basic_header h") simp
      have "copy_basic_header_bytes ?h ys =
          (h\<lparr>m_basic_header := \<lparr>b0 = a, b1 = b\<rparr>, m_bytes_needed := 0\<rparr>, 1)"
        using B by (cases ys') (simp_all add: ys copy_basic_header_bytes_def)
      moreover have "copy_basic_header_bytes h (xs @ ys) =
          (h\<lparr>m_basic_header := \<lparr>b0 = a, b1 = b\<rparr>, m_bytes_needed := 0\<rparr>, 2)"
        by (simp add: two ys copy_basic_header_bytes_def)
      ultimately show ?thesis
        using assms(1) by (simp add: consume_step_def step_header_basic_def split: option.split)
    qed
    then show ?thesis using st assms(1) two by (simp add: split_step_def)
  qed
qed

lemma overwrite_overwrite:
  "c + length xs + length ys \<le> length e \<Longrightarrow>
     overwrite (overwrite e c xs) (c + length xs) ys = overwrite e c (xs @ ys)"
  by (simp add: overwrite_def take_drop ac_simps)

lemma copy_extended_merge:
  assumes "length xs < unat (m_bytes_needed h)"
    and "m_cursor h + unat (m_bytes_needed h) \<le> length (ext_bytes (m_extended_header h))"
  shows "copy_extended_header_bytes h (xs @ ys) =
    (let (h1, n) = copy_extended_header_bytes (fst (copy_extended_header_bytes h xs)) ys in (h1, length xs + n))"
proof -
  let ?w = "m_bytes_needed h"
  have ul: "unat (of_nat (length xs) :: u64) = length xs"
    by (rule unat_of_nat_le [of _ ?w]) (use assms in simp)
  have un: "unat (?w - of_nat (length xs)) = unat ?w - length xs"
    using ul unat_sub [of "of_nat (length xs)" ?w] assms(1) by (simp add: word_le_nat_alt)
  let ?k = "min (unat ?w - length xs) (length ys)"
  have m: "min (unat ?w) (length xs + length ys) = length xs + ?k" using assms(1) by linarith
  have "overwrite (overwrite (ext_bytes (m_extended_header h)) (m_cursor h) xs) (m_cursor h + length xs) (take ?k ys)
      = overwrite (ext_bytes (m_extended_header h)) (m_cursor h) (xs @ take ?k ys)"
    by (rule overwrite_overwrite) (use assms in simp)
  then show ?thesis
    using assms(1) by (simp add: copy_extended_header_bytes_def Let_def un m diff_diff_add add.assoc)
qed

lemma split_extended:
  assumes ok: "receiver_ok h" and st: "proc_state h = HEADER_EXTENDED" and kg: "keep_going h xs"
  shows "split_step inflate h xs ys"
proof (cases "unat (m_bytes_needed h) \<le> length xs")
  case True
  then have "copy_extended_header_bytes h (xs @ ys) = copy_extended_header_bytes h xs"
    by (simp add: copy_extended_header_bytes_def min_def)
  then show ?thesis
    using st by (simp add: split_step_def consume_step_def step_header_extended_def same_step_refl)
next
  case False
  then have lt: "length xs < unat (m_bytes_needed h)" by simp
  let ?h = "fst (copy_extended_header_bytes h xs)"
  have fits: "m_cursor h + unat (m_bytes_needed h) \<le> length (ext_bytes (m_extended_header h))"
    using ok st by (simp add: receiver_ok_def)
  have ul: "unat (of_nat (length xs) :: u64) = length xs"
    by (rule unat_of_nat_le [of _ "m_bytes_needed h"]) (use lt in simp)
  have n: "snd (copy_extended_header_bytes h xs) = length xs"
    and need: "m_bytes_needed ?h = m_bytes_needed h - of_nat (length xs)"
    and st': "proc_state ?h = HEADER_EXTENDED"
    using lt st by (simp_all add: copy_extended_header_bytes_def Let_def min_def)
  have ne: "m_bytes_needed ?h \<noteq> 0"
    using lt ul unfolding need by (metis eq_iff_diff_eq_0 less_irrefl)
  have "consume_step inflate h xs = Go_on ?h (length xs)"
    using st n ne by (simp add: consume_step_def step_header_extended_def case_prod_unfold word_neq_0_conv)
  moreover have "same_step (length xs) (consume_step inflate ?h ys) (consume_step inflate h (xs @ ys))"
    using st st' copy_extended_merge [OF lt fits, of ys]
    by (simp add: consume_step_def step_header_extended_def case_prod_unfold Let_def split: option.split)
  ultimately show ?thesis using ne st' by (simp add: split_step_def)
qed

lemma unmask_append:
  assumes "is_phased (prepared_key (current_metadata h))"
  shows "fst (unmask h (xs @ ys)) = fst (unmask h xs) @ fst (unmask (store_payload h xs) ys)"
    and "snd (unmask h (xs @ ys)) = snd (unmask (store_payload h xs) ys)"
  using word_masker.mask_append [OF assms, of xs ys]
  by (simp_all add: unmask_def store_payload_def Let_def case_prod_unfold)

lemma store_payload_simps [simp]:
  "proc_state (store_payload h xs) = proc_state h"
  "m_bytes_needed (store_payload h xs) = m_bytes_needed h"
  "pmd_enabled (store_payload h xs) = pmd_enabled h"
  "m_basic_header (store_payload h xs) = m_basic_header h"
  by (simp_all add: store_payload_def Let_def case_prod_unfold)

lemma store_payload_needed [simp]:
  "store_payload (h\<lparr>m_bytes_needed := k\<rparr>) xs = (store_payload h xs)\<lparr>m_bytes_needed := k\<rparr>"
  "unmask (h\<lparr>m_bytes_needed := k\<rparr>) xs = unmask h xs"
  "check_text (h\<lparr>m_bytes_needed := k\<rparr>) data = check_text h data"
  by (simp_all add: store_payload_def unmask_def check_text_def current_message_def Let_def case_prod_unfold)

lemma check_text_append:
  "fst (check_text h (xs @ ys)) \<longleftrightarrow>
     fst (check_text h xs) \<and>
     (msg_opcode (current_message h) = Text \<longrightarrow> fst (validator_decode (snd (check_text h xs)) ys))"
  "fst (check_text h xs) \<Longrightarrow> msg_opcode (current_message h) = Text \<Longrightarrow>
     snd (check_text h (xs @ ys)) = snd (validator_decode (snd (check_text h xs)) ys)"
  by (auto simp: check_text_def validator_decode_append Let_def split: prod.splits)

lemma check_text_store:
  "check_text (store_payload h xs) ys =
     (if msg_opcode (current_message h) = Text
      then validator_decode (snd (check_text h (fst (unmask h xs)))) ys
      else (True, snd (check_text h (fst (unmask h xs)))))"
  by (simp add: check_text_def store_payload_def current_message_def Let_def case_prod_unfold)

lemma check_text_merge:
  assumes "is_phased (prepared_key (current_metadata h))" "fst (check_text h (fst (unmask h xs)))"
  shows "check_text (store_payload h xs) (fst (unmask (store_payload h xs) ys)) =
    check_text h (fst (unmask h (xs @ ys)))"
  using assms(2) unmask_append(1) [OF assms(1), of xs ys]
  by (cases "msg_opcode (current_message h) = Text")
    (auto simp: check_text_store check_text_append prod_eq_iff check_text_def [of h "_ @ _"]
      check_text_def [of h "fst _"] validator_decode_append Let_def split: prod.splits)

lemma store_payload_merge:
  assumes "is_phased (prepared_key (current_metadata h))" "fst (check_text h (fst (unmask h xs)))"
  shows "store_payload (store_payload h xs) ys = store_payload h (xs @ ys)"
proof -
  have cm: "current_message (store_payload h xs) =
      (current_message h)\<lparr>msg_payload := msg_payload (current_message h) @ fst (unmask h xs)\<rparr>"
    by (simp add: store_payload_def current_message_def Let_def case_prod_unfold)
  show ?thesis
    unfolding store_payload_def [of "store_payload h xs"] cm Let_def case_prod_unfold
      check_text_merge [OF assms] unmask_append(2) [OF assms(1), symmetric]
    by (simp add: store_payload_def Let_def case_prod_unfold unmask_append(1) [OF assms(1)])
qed

lemma split_application:
  assumes ok: "receiver_ok h" and st: "proc_state h = APPLICATION" and pm: "\<not> pmd_enabled h"
    and kg: "keep_going h xs"
  shows "split_step inflate h xs ys"
proof (cases "unat (m_bytes_needed h) \<le> length xs")
  case True
  then have "min (unat (m_bytes_needed h)) (length (xs @ ys)) = min (unat (m_bytes_needed h)) (length xs)"
    "take (min (unat (m_bytes_needed h)) (length xs)) (xs @ ys) = take (min (unat (m_bytes_needed h)) (length xs)) xs"
    by simp_all
  then have "consume_step inflate h (xs @ ys) = consume_step inflate h xs"
    using st unfolding consume_step_def step_application_def Let_def by (simp del: length_append take_append)
  then show ?thesis by (simp add: split_step_def same_step_refl)
next
  case False
  let ?w = "m_bytes_needed h"
  define k where "k = min (unat ?w - length xs) (length ys)"
  let ?h = "(store_payload h xs)\<lparr>m_bytes_needed := m_bytes_needed h - of_nat (length xs)\<rparr>"
  have lt: "length xs < unat ?w" using False by simp
  have nz: "?w \<noteq> 0" using lt by auto
  have xs: "xs \<noteq> []" using kg nz by (auto simp: keep_going_def)
  have ul: "unat (of_nat (length xs) :: u64) = length xs"
    by (rule unat_of_nat_le [of _ ?w]) (use lt in simp)
  have un: "unat (?w - of_nat (length xs)) = unat ?w - length xs"
    using ul unat_sub [of "of_nat (length xs)" ?w] lt by (simp add: word_le_nat_alt)
  then have ne: "?w - of_nat (length xs) \<noteq> 0" using lt by (metis unat_0 zero_less_diff less_irrefl)
  have key: "is_phased (prepared_key (current_metadata h))"
    using ok by (simp add: receiver_ok_def current_metadata_def data_message_ok_def control_message_ok_def)
  have step: "consume_step inflate h xs =
      (if fst (check_text h (fst (unmask h xs))) then Go_on ?h (length xs)
       else Break_out (store_payload h xs) 0 (Processor P_invalid_utf8))"
    using payload_step [OF st pm nz xs, of "length xs"] lt by (simp add: Let_def)
  have m: "length xs + k = min (unat ?w) (length (xs @ ys))" using lt by (simp add: k_def)
  have tk: "take (length xs + k) (xs @ ys) = xs @ take k ys" by simp
  have whole: "consume_step inflate h (xs @ ys) =
    (if fst (check_text h (fst (unmask h (xs @ take k ys)))) then
       (let h1 = (store_payload h (xs @ take k ys))\<lparr>m_bytes_needed := ?w - of_nat (length xs + k)\<rparr> in
        if length xs + k < unat ?w then Go_on h1 (length xs + k)
        else (case finish_frame h1 of (Some e, h2) \<Rightarrow> Break_out h2 (length xs + k) e
              | (None, h2) \<Rightarrow> Go_on h2 (length xs + k)))
     else Break_out (store_payload h (xs @ take k ys)) 0 (Processor P_invalid_utf8))"
    using payload_step [OF st pm nz _ m, of inflate] xs unfolding tk by simp
  show ?thesis
  proof (cases "fst (check_text h (fst (unmask h xs)))")
    case False
    then have "\<not> fst (check_text h (fst (unmask h (xs @ take k ys))))"
      using unmask_append(1) [OF key] by (simp add: check_text_append)
    with False show ?thesis by (simp add: split_step_def step whole)
  next
    case True
    note merge = check_text_merge [OF key True] store_payload_merge [OF key True]
    have "same_step (length xs) (consume_step inflate ?h ys) (consume_step inflate h (xs @ ys))" if ys: "ys \<noteq> []"
    proof -
      have "consume_step inflate ?h ys =
        (if fst (check_text h (fst (unmask h (xs @ take k ys)))) then
           (let h1 = (store_payload h (xs @ take k ys))\<lparr>m_bytes_needed := ?w - of_nat (length xs) - of_nat k\<rparr> in
            if k < unat ?w - length xs then Go_on h1 k
            else (case finish_frame h1 of (Some e, h2) \<Rightarrow> Break_out h2 k e | (None, h2) \<Rightarrow> Go_on h2 k))
         else Break_out ((store_payload h (xs @ take k ys))\<lparr>m_bytes_needed := ?w - of_nat (length xs)\<rparr>) 0
           (Processor P_invalid_utf8))"
        using payload_step [of ?h ys k inflate] st pm ne ys by (simp add: un merge k_def)
      moreover have ltk: "k < unat ?w - length xs \<longleftrightarrow> length xs + k < unat ?w" using lt by linarith
      moreover have dk: "?w - of_nat (length xs) - of_nat k = ?w - of_nat (length xs + k)"
        by (simp only: of_nat_add diff_diff_add)
      ultimately show ?thesis
        unfolding whole Let_def ltk dk by (simp del: of_nat_add split: prod.split option.split)
    qed
    then show ?thesis using True ne st by (simp add: split_step_def step)
  qed
qed

lemma split_step_holds:
  assumes "receiver_ok h" "\<not> pmd_enabled h" "keep_going h xs"
  shows "split_step inflate h xs ys"
proof (cases "proc_state h")
  case HEADER_BASIC
  with assms show ?thesis by (intro split_basic) (simp_all add: receiver_ok_def)
next
  case HEADER_EXTENDED
  with assms show ?thesis by (intro split_extended)
next
  case APPLICATION
  with assms show ?thesis by (intro split_application)
qed (use assms in \<open>simp_all add: receiver_ok_def keep_going_def\<close>)

subsection \<open>The loop on a split buffer\<close>

fun outcome :: "'z hybi13 \<times> nat \<times> ec \<Rightarrow> error_code + 'z hybi13 \<times> nat" where
  "outcome (h, n, Some e) = Inl e"
| "outcome (h, n, None) = Inr (h, n)"

lemma consume_loop_shift:
  "outcome (consume_loop inflate h buf (p + q)) =
     map_sum id (\<lambda>(h', n). (h', n + q)) (outcome (consume_loop inflate h buf p))"
proof (induction inflate h buf p rule: consume_loop.induct)
  case (1 inflate h buf p)
  show ?case
  proof (cases "keep_going h buf")
    case True
    show ?thesis
    proof (cases "consume_step inflate h buf")
      case (Go_on h' n)
      with 1 [OF True Go_on] True show ?thesis by (simp add: loop_go ac_simps)
    qed (use True in \<open>simp_all add: consume_loop.simps [of _ h]\<close>)
  qed (simp add: loop_stop)
qed

lemma keep_going_append: "keep_going h xs \<Longrightarrow> keep_going h (xs @ ys)"
  by (auto simp: keep_going_def)

lemma pmd_handlers:
  "pmd_enabled (fst (copy_basic_header_bytes h buf)) = pmd_enabled h"
  "pmd_enabled (fst (copy_extended_header_bytes h buf)) = pmd_enabled h"
  "pmd_enabled (snd (start_message h)) = pmd_enabled h"
  "pmd_enabled (snd (finish_frame h)) = pmd_enabled h"
  "pmd_enabled (fst (process_payload_bytes inflate h buf)) = pmd_enabled h"
  by (simp_all add: copy_basic_header_bytes_def copy_extended_header_bytes_def start_message_def
      finish_frame_def reset_headers_def process_payload_bytes_def Let_def case_prod_unfold
      split: option.splits)

lemma pmd_step: "consume_step inflate h buf = Go_on h' n \<Longrightarrow> pmd_enabled h' = pmd_enabled h"
proof (cases "proc_state h")
  case HEADER_BASIC
  assume "consume_step inflate h buf = Go_on h' n"
  with HEADER_BASIC pmd_handlers(1) [of h buf] show ?thesis
    by (auto simp: consume_step_def step_header_basic_def split: prod.splits option.splits if_splits)
next
  case HEADER_EXTENDED
  assume "consume_step inflate h buf = Go_on h' n"
  then obtain h1 where h1: "copy_extended_header_bytes h buf = (h1, n)"
    and h': "h' = h1 \<or> start_message (h1\<lparr>proc_state := APPLICATION,
        m_bytes_needed := get_payload_size (m_basic_header h1) (m_extended_header h1)\<rparr>) = (None, h')"
    using HEADER_EXTENDED
    by (auto simp: consume_step_def step_header_extended_def split: prod.splits option.splits if_splits)
  have "pmd_enabled h1 = pmd_enabled h" using pmd_handlers(2) [of h buf] h1 by simp
  with h' pmd_handlers(3) [of "h1\<lparr>proc_state := APPLICATION,
        m_bytes_needed := get_payload_size (m_basic_header h1) (m_extended_header h1)\<rparr>"]
  show ?thesis by auto
next
  case APPLICATION
  let ?k = "min (unat (m_bytes_needed h)) (length buf)"
  assume "consume_step inflate h buf = Go_on h' n"
  then obtain h1 where
    h1: "(if ?k > 0 then process_payload_bytes inflate h (take ?k buf) else (h, 0, None)) = (h1, n, None)"
    and h': "h' = h1 \<or> finish_frame h1 = (None, h')"
    using APPLICATION
    by (auto simp: consume_step_def step_application_def Let_def split: prod.splits option.splits if_splits)
  have "pmd_enabled h1 = pmd_enabled h"
    using pmd_handlers(5) [of inflate h "take ?k buf"] h1 by (auto split: if_splits)
  with h' pmd_handlers(4) [of h1] show ?thesis by auto
qed (auto simp: consume_step_def)

text \<open>What the loop does with more octets once it has stopped without an error.\<close>

definition resume_with ::
  "('z \<Rightarrow> bytes \<Rightarrow> bytes \<times> 'z) \<Rightarrow> bytes \<Rightarrow> bytes \<Rightarrow> error_code + 'z hybi13 \<times> nat \<Rightarrow>
     error_code + 'z hybi13 \<times> nat" where
  "resume_with inflate xs ys r =
     (case r of
        Inl e \<Rightarrow> Inl e
      | Inr (h1, n) \<Rightarrow> map_sum id (\<lambda>(h2, m). (h2, n + m)) (outcome (consume inflate h1 (drop n xs @ ys))))"

lemma consume_loop_start:
  "outcome (consume_loop inflate h buf p) = map_sum id (\<lambda>(h', n). (h', p + n)) (outcome (consume inflate h buf))"
  using consume_loop_shift [of inflate h buf 0 p] by (simp add: consume_def add.commute)

lemma map_sum_add:
  fixes k l :: nat
  shows "map_sum id (\<lambda>(h, n). (h, k + n)) (map_sum id (\<lambda>(h, n). (h, l + n)) r) =
     map_sum id (\<lambda>(h, n). (h, k + l + n)) r"
  by (cases r) (auto simp: add.assoc)

lemma consume_go:
  "keep_going h buf \<Longrightarrow> consume_step inflate h buf = Go_on h' n \<Longrightarrow>
     outcome (consume inflate h buf) = map_sum id (\<lambda>(h2, m). (h2, n + m)) (outcome (consume inflate h' (drop n buf)))"
  by (simp add: consume_def loop_go consume_loop_start [of _ _ _ n, unfolded consume_def])

lemma consume_break:
  "keep_going h buf \<Longrightarrow> consume_step inflate h buf = Break_out h' n e \<Longrightarrow> outcome (consume inflate h buf) = Inl e"
  "keep_going h buf \<Longrightarrow> consume_step inflate h buf = Give_up h' e \<Longrightarrow> outcome (consume inflate h buf) = Inl e"
  by (simp_all add: consume_def consume_loop.simps [of _ h])

lemma consume_stop: "\<not> keep_going h buf \<Longrightarrow> consume inflate h buf = (h, 0, None)"
  by (simp add: consume_def loop_stop)

lemma resume_shift:
  "n \<le> length xs \<Longrightarrow>
   resume_with inflate xs ys (map_sum id (\<lambda>(h2, m). (h2, n + m)) r) =
     map_sum id (\<lambda>(h2, m). (h2, n + m)) (resume_with inflate (drop n xs) ys r)"
  by (cases r) (auto simp: resume_with_def map_sum_add add.commute [of _ n] split: prod.splits)

lemma step_go_le:
  "keep_going h buf \<Longrightarrow> consume_step inflate h buf = Go_on h' n \<Longrightarrow> n \<le> length buf"
  using consume_step_decreases by blast

lemma consume_append:
  fixes p :: nat
  shows "receiver_ok h \<Longrightarrow> \<not> pmd_enabled h \<Longrightarrow>
     outcome (consume inflate h (xs @ ys)) = resume_with inflate xs ys (outcome (consume inflate h xs))"
proof (induction inflate h xs p rule: consume_loop.induct)
  case (1 inflate h xs p)
  show ?case
  proof (cases "keep_going h xs")
    case False
    then show ?thesis
      by (cases "outcome (consume inflate h (xs @ ys))") (auto simp: consume_stop resume_with_def)
  next
    case kg: True
    note kgs = keep_going_append [OF kg, of ys]
    from split_step_holds [OF 1(2,3) kg, of inflate ys] show ?thesis
      unfolding split_step_def
    proof (elim disjE exE conjE)
      assume same: "same_step 0 (consume_step inflate h xs) (consume_step inflate h (xs @ ys))"
      show ?thesis
      proof (cases "consume_step inflate h xs")
        case (Go_on h' n)
        then have go: "consume_step inflate h (xs @ ys) = Go_on h' n"
          using same by (cases "consume_step inflate h (xs @ ys)") simp_all
        have n: "n \<le> length xs" using kg Go_on by (rule step_go_le)
        have "receiver_ok h'" "\<not> pmd_enabled h'" using step_ok [OF 1(2) Go_on] pmd_step [OF Go_on] 1(3) by simp_all
        from 1(1) [OF kg Go_on this] have
          "outcome (consume inflate h' (drop n xs @ ys)) =
            resume_with inflate (drop n xs) ys (outcome (consume inflate h' (drop n xs)))" .
        then show ?thesis
          using n by (simp add: consume_go [OF kg Go_on] consume_go [OF kgs go] resume_shift)
      next
        case (Break_out h' n e)
        then obtain h2 m where "consume_step inflate h (xs @ ys) = Break_out h2 m e"
          using same by (cases "consume_step inflate h (xs @ ys)") auto
        then show ?thesis using Break_out kg kgs by (simp add: consume_break resume_with_def)
      next
        case (Give_up h' e)
        then obtain h2 where "consume_step inflate h (xs @ ys) = Give_up h2 e"
          using same by (cases "consume_step inflate h (xs @ ys)") auto
        then show ?thesis using Give_up kg kgs by (simp add: consume_break resume_with_def)
      qed
    next
      fix h'
      assume go: "consume_step inflate h xs = Go_on h' (length xs)" and ne: "m_bytes_needed h' \<noteq> 0"
        and st: "proc_state h' \<noteq> READY" "proc_state h' \<noteq> FATAL_ERROR"
        and same: "ys \<noteq> [] \<longrightarrow> same_step (length xs) (consume_step inflate h' ys) (consume_step inflate h (xs @ ys))"
      have "consume inflate h' [] = (h', 0, None)" using ne by (simp add: consume_stop keep_going_def)
      then have first: "outcome (consume inflate h xs) = Inr (h', length xs)"
        by (simp add: consume_go [OF kg go])
      have "outcome (consume inflate h (xs @ ys)) =
          map_sum id (\<lambda>(h2, m). (h2, length xs + m)) (outcome (consume inflate h' ys))"
      proof (cases "ys = []")
        case True
        then show ?thesis using first \<open>consume inflate h' [] = _\<close> by simp
      next
        case False
        then have kg': "keep_going h' ys" using st by (simp add: keep_going_def)
        have same': "same_step (length xs) (consume_step inflate h' ys) (consume_step inflate h (xs @ ys))"
          using same False by simp
        show ?thesis
        proof (cases "consume_step inflate h' ys")
          case (Go_on h2 m)
          then have "consume_step inflate h (xs @ ys) = Go_on h2 (length xs + m)"
            using same' by (cases "consume_step inflate h (xs @ ys)") simp_all
          from consume_go [OF kgs this] consume_go [OF kg' Go_on] show ?thesis by (simp add: map_sum_add)
        next
          case (Break_out h2 m e)
          then obtain h3 k where "consume_step inflate h (xs @ ys) = Break_out h3 k e"
            using same' by (cases "consume_step inflate h (xs @ ys)") auto
          then show ?thesis using Break_out kg' kgs by (simp add: consume_break)
        next
          case (Give_up h2 e)
          then obtain h3 where "consume_step inflate h (xs @ ys) = Give_up h3 e"
            using same' by (cases "consume_step inflate h (xs @ ys)") auto
          then show ?thesis using Give_up kg' kgs by (simp add: consume_break)
        qed
      qed
      then show ?thesis by (simp add: first resume_with_def)
    qed
  qed
qed

subsection \<open>Properties\<close>

text \<open>
  C1: how the transport cuts the octet stream does not matter. For a receiver without compression,
  feeding a buffer in two pieces, wherever it is cut (inside a header, a masking key, a payload or a
  code point) and whatever it holds, ends in the same state after the same number of octets as
  feeding it in one piece, and fails with the same error.
\<close>

theorem consume_split:
  assumes "reachable inflate h" "\<not> pmd_enabled h"
  shows "case consume inflate h xs of
      (h1, n, Some e) \<Rightarrow> snd (snd (consume inflate h (xs @ ys))) = Some e
    | (h1, n, None) \<Rightarrow>
       (case consume inflate h1 (drop n xs @ ys) of
          (h2, m, Some e) \<Rightarrow> snd (snd (consume inflate h (xs @ ys))) = Some e
        | (h2, m, None) \<Rightarrow> consume inflate h (xs @ ys) = (h2, n + m, None))"
proof -
  have o: "outcome r = (case snd (snd r) of Some e \<Rightarrow> Inl e | None \<Rightarrow> Inr (fst r, fst (snd r)))"
    for r :: "'a hybi13 \<times> nat \<times> ec"
    by (cases r rule: outcome.cases) simp_all
  have "outcome (consume inflate h (xs @ ys)) = resume_with inflate xs ys (outcome (consume inflate h xs))"
    using assms by (intro consume_append reachable_ok)
  then show ?thesis
    by (auto simp: o resume_with_def prod_eq_iff split: option.splits prod.splits)
qed

theorem consume_split_witness:
  "case consume no_inflate server [0x81, 0x82, 1, 2, 3] of
      (h1, n, Some e) \<Rightarrow> snd (snd (consume no_inflate server ([0x81, 0x82, 1, 2, 3] @ [4, 5, 6]))) = Some e
    | (h1, n, None) \<Rightarrow>
       (case consume no_inflate h1 (drop n [0x81, 0x82, 1, 2, 3] @ [4, 5, 6]) of
          (h2, m, Some e) \<Rightarrow>
            snd (snd (consume no_inflate server ([0x81, 0x82, 1, 2, 3] @ [4, 5, 6]))) = Some e
        | (h2, m, None) \<Rightarrow>
            consume no_inflate server ([0x81, 0x82, 1, 2, 3] @ [4, 5, 6]) = (h2, n + m, None))"
  by (rule consume_split) (rule endpoints_reachable endpoints_plain)+

end
