(* ===== verification/Hybi13_Exchange.thy ===== *)
theory Hybi13_Exchange
  imports Hybi13_Stream
begin

text \<open>
  Both halves of \<^verbatim>\<open>hybi13.hpp\<close> against each other: frames made by \<^verbatim>\<open>prepare_data_frame\<close>,
  \<^verbatim>\<open>prepare_control\<close> and \<^verbatim>\<open>prepare_close\<close> as the peer's \<^verbatim>\<open>consume\<close> reads them, the size limit, and the
  inputs on which the receiver does less than RFC 6455 asks.
\<close>

subsection \<open>Frames on the wire\<close>

definition mask_if :: "bool \<Rightarrow> u32 \<Rightarrow> bytes \<Rightarrow> bytes" where
  "mask_if m key bs = (if m then masked_copy bs key else bs)"

definition frame_header :: "bool \<Rightarrow> u32 \<Rightarrow> opcode \<Rightarrow> bool \<Rightarrow> nat \<Rightarrow> basic_header \<times> bytes" where
  "frame_header m key op fin n =
     (let h = make_basic_header op (of_nat n) fin m False False False
      in (h, prepare_header h (if m then extended_header_masked (of_nat n) key else extended_header_sized (of_nat n))))"

lemma length_mask_if [simp]: "length (mask_if m key bs) = length bs"
  by (simp add: mask_if_def masked_copy_def word_mask_exact_eq)

lemma mask_if_Nil [simp]: "mask_if m key bs = [] \<longleftrightarrow> bs = []"
  by (metis length_mask_if length_0_conv)

lemma mask_if_empty [simp]: "mask_if m key [] = []"
  by (simp only: mask_if_Nil)

lemma frame_header_bytes:
  "frame_header m key op fin n = (B, hdr) \<Longrightarrow>
     B = make_basic_header op (of_nat n) fin m False False False \<and>
     hdr = b0 B # b1 B # wire_ext (of_nat n) m key"
  by (cases m) (auto simp: frame_header_def Let_def prepare_header_masked prepare_header_sized wire_ext_def)

text \<open>A receiver that has just opened a message (or resumed one) with a key.\<close>

definition opened :: "'z hybi13 \<Rightarrow> basic_header \<Rightarrow> bool \<Rightarrow> u32 \<Rightarrow> bool" where
  "opened h B m key \<longleftrightarrow> proc_state h = APPLICATION \<and> m_basic_header h = B \<and> get_masked B = m \<and>
     (m \<longrightarrow> prepared_key (current_metadata h) = prepare_masking_key key) \<and>
     msg_ptr (current_metadata h) \<noteq> None \<and> \<not> pmd_enabled h"

lemma unmask_opened:
  "opened h B m key \<Longrightarrow> fst (unmask h (mask_if m key bs)) = bs"
  by (auto simp: opened_def unmask_def mask_if_def masked_copy_def word_mask_exact_eq
      prepare_masking_key_bytes word_mask_step_phased byte_mask_involution)

lemma store_payload_Nil:
  assumes "opened h B m key"
  shows "store_payload h [] = h"
proof -
  from assms obtain msg where msg: "msg_ptr (current_metadata h) = Some msg" by (auto simp: opened_def)
  have md: "current_metadata h\<lparr>msg_ptr := Some msg\<rparr> = current_metadata h"
    using msg by (cases "current_metadata h") simp
  have "unmask h [] = ([], prepared_key (current_metadata h))"
    using assms word_masker.mask_Nil is_phased_prepare by (auto simp: unmask_def opened_def)
  moreover have "snd (check_text h []) = msg_validator (current_metadata h)" by (simp add: check_text_def)
  moreover have "set_current_metadata h (current_metadata h) = h"
    by (simp add: set_current_metadata_def current_metadata_def)
  ultimately show ?thesis
    by (simp add: store_payload_def current_message_def msg md)
qed

text \<open>One whole payload, and the end of its frame.\<close>

lemma payload_run:
  assumes op: "opened h B m key" and len: "m_bytes_needed h = of_nat (length bs)" "length bs < 2 ^ 64"
    and check: "fst (check_text h bs)"
    and fin: "finish_frame ((store_payload h (mask_if m key bs))\<lparr>m_bytes_needed := 0\<rparr>) = (None, h3)"
  shows "consume_loop inflate h (mask_if m key bs @ rest) p = consume_loop inflate h3 rest (p + length bs)"
proof -
  have st: "proc_state h = APPLICATION" "\<not> pmd_enabled h" using op by (simp_all add: opened_def)
  have un: "unat (m_bytes_needed h) = length bs" using len by (simp add: unat_of_nat_small)
  show ?thesis
  proof (cases "bs = []")
    case True
    then have z: "m_bytes_needed h = 0" using len by simp
    then have "h\<lparr>m_bytes_needed := 0\<rparr> = h" by (cases h) simp
    then have "finish_frame h = (None, h3)" using fin True store_payload_Nil [OF op] by simp
    then have "consume_step inflate h rest = Go_on h3 0" using empty_payload_step [OF st(1) z] by simp
    moreover have "keep_going h rest" using st z by (simp add: keep_going_def)
    ultimately show ?thesis using True by (simp add: loop_go)
  next
    case False
    have nz: "m_bytes_needed h \<noteq> 0"
    proof (rule notI)
      assume "m_bytes_needed h = 0"
      then have "length bs = 0" using un by (simp only: unat_0)
      with False show False by (simp only: length_0_conv)
    qed
    have ne: "mask_if m key bs \<noteq> []" using False by simp
    have k: "length bs = min (unat (m_bytes_needed h)) (length (mask_if m key bs @ rest))" by (simp add: un)
    have tk: "take (length bs) (mask_if m key bs @ rest) = mask_if m key bs" by simp
    have z: "m_bytes_needed h - of_nat (length bs) = 0" using len by simp
    have ne': "mask_if m key bs @ rest \<noteq> []" using ne by simp
    have "consume_step inflate h (mask_if m key bs @ rest) = Go_on h3 (length bs)"
      unfolding payload_step [OF st nz ne' k] tk unmask_opened [OF op] z un Let_def
      by (simp add: check fin)
    moreover have "keep_going h (mask_if m key bs @ rest)" using st ne by (simp add: keep_going_def)
    ultimately show ?thesis by (simp add: loop_go)
  qed
qed

lemma message_bytes_run:
  assumes "idle h" "\<not> pmd_enabled h" "frame_header (\<not> srv) key op fin (length bs) = (B, hdr)"
    and "validate_incoming_basic_header False B (m_server h) (msg_ptr (m_data_msg h) = None) = None"
    and "start_message (after_header h B (wire_ext (of_nat (length bs)) (\<not> srv) key) (of_nat (length bs))) = (None, h2)"
    and "opened h2 B (\<not> srv) key" "m_bytes_needed h2 = of_nat (length bs)" "length bs < 2 ^ 64"
    and "fst (check_text h2 bs)"
    and "finish_frame ((store_payload h2 (mask_if (\<not> srv) key bs))\<lparr>m_bytes_needed := 0\<rparr>) = (None, h3)"
  shows "consume_loop inflate h (hdr @ mask_if (\<not> srv) key bs @ rest) 0 =
    consume_loop inflate h3 rest (length hdr + length bs)"
proof -
  note B = frame_header_bytes [OF assms(3)]
  have "consume_loop inflate h (hdr @ mask_if (\<not> srv) key bs @ rest) 0 =
      consume_loop inflate h2 (mask_if (\<not> srv) key bs @ rest) (length hdr)"
    using header_steps [where op = op and sz = "of_nat (length bs)" and fin = fin and m = "\<not> srv"
        and ?r1.0 = False and key = key and h = h and inflate = inflate and p = 0
        and xs = "mask_if (\<not> srv) key bs @ rest"] assms(1-5) B
    by simp
  also have "\<dots> = consume_loop inflate h3 rest (length hdr + length bs)"
    by (rule payload_run) (use assms in auto)
  finally show ?thesis .
qed

subsection \<open>Opening messages\<close>

lemma after_header_simps [simp]:
  "proc_state (after_header h B e sz) = APPLICATION" "m_basic_header (after_header h B e sz) = B"
  "m_bytes_needed (after_header h B e sz) = sz" "pmd_enabled (after_header h B e sz) = pmd_enabled h"
  "m_data_msg (after_header h B e sz) = m_data_msg h" "m_control_msg (after_header h B e sz) = m_control_msg h"
  "m_max_message_size (after_header h B e sz) = m_max_message_size h" "m_server (after_header h B e sz) = m_server h"
  by (simp_all add: after_header_def)

lemma after_header_key:
  fixes op sz fin m key
  defines "B \<equiv> make_basic_header op sz fin m False False False"
  shows "get_masking_key B (m_extended_header (after_header h B (wire_ext sz m key) sz')) = (if m then key else 0)"
  using wire_ext_facts [where op = op and sz = sz and fin = fin and m = m and ?r1.0 = False
      and ?r2.0 = False and ?r3.0 = False and key = key]
  by (simp add: B_def after_header_def)

lemma basic_size_control: "unat sz \<le> 125 \<Longrightarrow> unat (size_code sz) = unat sz"
  by (simp add: size_code_def wire_simps unat_ucast_small)

text \<open>Sender and receiver agree on who masks, so a frame made for the peer passes validation.\<close>

lemma peer_header_valid:
  assumes "\<not> opcode_reserved op" "is_control op \<longrightarrow> fin \<and> unat sz \<le> 125"
    and "\<not> is_control op \<longrightarrow> (op = Continuation \<longleftrightarrow> \<not> new_msg)"
  shows "validate_incoming_basic_header en (make_basic_header op sz fin m False False False) m new_msg = None"
  using assms by (simp add: validate_basic_accepts Let_def basic_size_control)

lemma open_data:
  fixes op sz fin m key
  defines "B \<equiv> make_basic_header op sz fin m False False False"
  assumes "op \<in> {Text, Binary}" "msg_ptr (m_data_msg h) = None" "sz \<le> m_max_message_size h"
  shows "start_message (after_header h B (wire_ext sz m key) sz) =
    (None, (after_header h B (wire_ext sz m key) sz)
       \<lparr>m_data_msg := make_metadata (alloc_get_message op sz) (if m then key else 0), m_current_msg := Data_msg\<rparr>)"
proof -
  have "\<not> is_control op" using assms(2) by (auto simp: is_control_def)
  with assms(3,4) after_header_key [of op sz fin m h key sz] show ?thesis
    by (simp add: start_message_def B_def Let_def not_less)
qed

lemma open_control:
  fixes op sz m key
  defines "B \<equiv> make_basic_header op sz True m False False False"
  assumes "is_control op"
  shows "start_message (after_header h B (wire_ext sz m key) sz) =
    (None, (after_header h B (wire_ext sz m key) sz)
       \<lparr>m_control_msg := make_metadata (alloc_get_message op sz) (if m then key else 0), m_current_msg := Control_msg\<rparr>)"
  using assms(2) after_header_key [of op sz True m h key sz] by (simp add: start_message_def B_def Let_def)

text \<open>The receiver after the last octet of a one-frame message.\<close>

lemma check_text_fresh:
  "current_metadata h = make_metadata (alloc_get_message op sz) key \<Longrightarrow>
     check_text h bs = (if op = Text then validator_decode validator_init bs else (True, validator_init))"
  by (simp add: check_text_def current_message_def make_metadata_def alloc_get_message_def)

lemma stored_fresh:
  assumes "current_metadata h = make_metadata (alloc_get_message op sz) key" "fst (unmask h w) = bs"
  shows "current_metadata (store_payload h w) =
    \<lparr>msg_ptr = Some (set_payload (make_message op sz) bs), prepared_key = snd (unmask h w),
     msg_validator = snd (check_text h bs)\<rparr>"
  using assms by (simp add: store_payload_def Let_def case_prod_unfold current_message_def make_metadata_def
      alloc_get_message_def set_payload_def)

lemma finish_whole:
  assumes "get_fin (m_basic_header h)" "get_opcode (m_basic_header h) = Text \<longrightarrow> complete (msg_validator (current_metadata h))"
  shows "finish_frame h = (None, h\<lparr>proc_state := READY\<rparr>)"
  using assms by (simp add: finish_frame_def)

lemma get_message_ready:
  assumes "msg_ptr (current_metadata h) = Some m"
  shows "fst (get_message (h\<lparr>proc_state := READY\<rparr>)) = Some m"
  using assms by (auto simp: get_message_def ready_def Let_def current_metadata_def)

subsection \<open>Exchanges\<close>

lemma prepare_data_frame_plain:
  assumes "prepare_data_frame deflate srv False rnd (Some m) (Some om) = (None, Some w)"
    and "frame_header (\<not> srv) rnd (msg_opcode m) (msg_fin m) (length (msg_payload m)) = (B, hdr)"
  shows "msg_header w = hdr \<and> msg_payload w = mask_if (\<not> srv) rnd (msg_payload m) \<and> msg_prepared w \<and>
     (msg_opcode m = Text \<longrightarrow> validate (msg_payload m)) \<and> \<not> is_control (msg_opcode m)"
  using assms
  by (auto simp: prepare_data_frame_def Let_def frame_header_def mask_if_def set_payload_def set_header_def
      set_prepared_def split: if_splits)

lemma exchange_core:
  fixes r :: "'z hybi13" and bs :: bytes
  defines "sz \<equiv> of_nat (length bs) :: u64"
  assumes r: "idle r" "\<not> pmd_enabled r"
    and fh: "frame_header (\<not> srv) rnd op True (length bs) = (B, hdr)"
    and val: "validate_incoming_basic_header False B (m_server r) (msg_ptr (m_data_msg r) = None) = None"
    and open1: "start_message (after_header r B (wire_ext sz (\<not> srv) rnd) sz) = (None, h2)"
    and cur: "current_metadata h2 = make_metadata (alloc_get_message op sz) (if \<not> srv then rnd else 0)"
    and flds: "proc_state h2 = APPLICATION" "m_basic_header h2 = B" "m_bytes_needed h2 = sz" "\<not> pmd_enabled h2"
    and bs: "op = Text \<longrightarrow> validate bs" "length bs < 2 ^ 64"
  shows "\<exists>r' d. consume inflate r (hdr @ mask_if (\<not> srv) rnd bs @ rest) = (r', length hdr + length bs, None) \<and>
    ready r' \<and> fst (get_message r') = Some d \<and> msg_opcode d = op \<and> msg_payload d = bs \<and>
    (m_current_msg h2 = Control_msg \<and> is_control op \<longrightarrow> m_data_msg (snd (get_message r')) = m_data_msg h2)"
proof -
  note B = frame_header_bytes [OF fh]
  have B': "get_opcode B = op" "get_fin B" "get_masked B \<longleftrightarrow> \<not> srv" using B by simp_all
  have op: "opened h2 B (\<not> srv) rnd"
    using flds B' by (simp add: opened_def cur make_metadata_def alloc_get_message_def)
  have chk: "check_text h2 bs = (if op = Text then validator_decode validator_init bs else (True, validator_init))"
    by (rule check_text_fresh) (rule cur)
  then have ok: "fst (check_text h2 bs)" "op = Text \<longrightarrow> complete (snd (check_text h2 bs))"
    using bs(1) by (auto simp: validate_def case_prod_unfold Let_def)
  define S where "S = (store_payload h2 (mask_if (\<not> srv) rnd bs))\<lparr>m_bytes_needed := 0\<rparr>"
  have Smd: "current_metadata S = \<lparr>msg_ptr = Some (set_payload (make_message op sz) bs),
      prepared_key = snd (unmask h2 (mask_if (\<not> srv) rnd bs)), msg_validator = snd (check_text h2 bs)\<rparr>"
    unfolding S_def by (simp add: stored_fresh [OF cur unmask_opened [OF op]])
  have fin: "finish_frame S = (None, S\<lparr>proc_state := READY\<rparr>)"
    by (rule finish_whole) (use flds B' ok Smd in \<open>simp_all add: S_def\<close>)
  have "consume_loop inflate r (hdr @ mask_if (\<not> srv) rnd bs @ rest) 0 =
      consume_loop inflate (S\<lparr>proc_state := READY\<rparr>) rest (length hdr + length bs)"
    by (rule message_bytes_run [OF r fh val open1 [unfolded sz_def] op flds(3) [unfolded sz_def] bs(2) ok(1)
          fin [unfolded S_def], folded S_def])
  then have run: "consume inflate r (hdr @ mask_if (\<not> srv) rnd bs @ rest) =
      (S\<lparr>proc_state := READY\<rparr>, length hdr + length bs, None)"
    by (simp add: consume_def loop_stop keep_going_def)
  have msg: "fst (get_message (S\<lparr>proc_state := READY\<rparr>)) = Some (set_payload (make_message op sz) bs)"
    by (rule get_message_ready) (simp add: Smd)
  have "m_data_msg (snd (get_message (S\<lparr>proc_state := READY\<rparr>))) = m_data_msg h2"
    if ctl: "m_current_msg h2 = Control_msg" "is_control op"
  proof -
    have "m_current_msg S = Control_msg" "m_data_msg S = m_data_msg h2"
      using ctl(1) by (simp_all add: S_def store_payload_def Let_def case_prod_unfold)
        (simp add: set_current_metadata_def)
    with ctl(2) Smd show ?thesis
      by (simp add: get_message_def ready_def Let_def current_metadata_def set_current_metadata_def
          reset_headers_def set_payload_def)
  qed
  with run msg show ?thesis by (intro exI conjI) (auto simp: ready_def set_payload_def)
qed

lemma exchange_data:
  fixes r :: "'z hybi13"
  assumes r: "idle r" "msg_ptr (m_data_msg r) = None" "\<not> pmd_enabled r" "m_server r \<longleftrightarrow> \<not> srv"
    and fh: "frame_header (\<not> srv) rnd op True (length bs) = (B, hdr)"
    and bs: "op \<in> {Text, Binary}" "op = Text \<longrightarrow> validate bs"
    and len: "length bs < 2 ^ 64" "of_nat (length bs) \<le> m_max_message_size r"
  shows "\<exists>r' d. consume inflate r (hdr @ mask_if (\<not> srv) rnd bs @ rest) = (r', length hdr + length bs, None) \<and>
    ready r' \<and> fst (get_message r') = Some d \<and> msg_opcode d = op \<and> msg_payload d = bs"
proof -
  let ?sz = "of_nat (length bs) :: u64"
  note B = frame_header_bytes [OF fh]
  have val: "validate_incoming_basic_header False B (m_server r) (msg_ptr (m_data_msg r) = None) = None"
    using bs(1) r(2,4) B peer_header_valid [of op True ?sz True False "\<not> srv"]
    by (auto simp: opcode_reserved_def is_control_def)
  have open1: "start_message (after_header r B (wire_ext ?sz (\<not> srv) rnd) ?sz) =
    (None, (after_header r B (wire_ext ?sz (\<not> srv) rnd) ?sz)
      \<lparr>m_data_msg := make_metadata (alloc_get_message op ?sz) (if \<not> srv then rnd else 0), m_current_msg := Data_msg\<rparr>)"
    using open_data [of op r ?sz True "\<not> srv" rnd] bs(1) r(2) len(2) B by simp
  show ?thesis
    using exchange_core [OF r(1,3) fh val open1 _ _ _ _ _ bs(2) len(1), of inflate rest] r(3)
    by (auto simp: current_metadata_def)
qed

lemma exchange_control:
  fixes r :: "'z hybi13"
  assumes r: "idle r" "\<not> pmd_enabled r" "m_server r \<longleftrightarrow> \<not> srv"
    and fh: "frame_header (\<not> srv) rnd op True (length bs) = (B, hdr)"
    and bs: "is_control op" "\<not> opcode_reserved op" "length bs \<le> 125"
  shows "\<exists>r' d. consume inflate r (hdr @ mask_if (\<not> srv) rnd bs @ rest) = (r', length hdr + length bs, None) \<and>
    ready r' \<and> fst (get_message r') = Some d \<and> msg_opcode d = op \<and> msg_payload d = bs \<and>
    m_data_msg (snd (get_message r')) = m_data_msg r"
proof -
  let ?sz = "of_nat (length bs) :: u64"
  note B = frame_header_bytes [OF fh]
  have sz: "unat ?sz \<le> 125" using bs(3) by (simp add: unat_of_nat_small)
  have val: "validate_incoming_basic_header False B (m_server r) (msg_ptr (m_data_msg r) = None) = None"
    using bs(1,2) sz r(3) B peer_header_valid [of op True ?sz _ False "\<not> srv"] by auto
  have open1: "start_message (after_header r B (wire_ext ?sz (\<not> srv) rnd) ?sz) =
    (None, (after_header r B (wire_ext ?sz (\<not> srv) rnd) ?sz)
      \<lparr>m_control_msg := make_metadata (alloc_get_message op ?sz) (if \<not> srv then rnd else 0), m_current_msg := Control_msg\<rparr>)"
    using open_control [of op r ?sz "\<not> srv" rnd] bs(1) B by simp
  have "op = Text \<longrightarrow> validate bs" using bs(1) by (auto simp: is_control_def)
  from exchange_core [OF r(1,2) fh val open1 _ _ _ _ _ this, of inflate rest] r(2) bs(1,3)
  show ?thesis by (auto simp: current_metadata_def)
qed

text \<open>
  C4: what one endpoint sends the other receives. A complete text or binary message that
  \<^verbatim>\<open>prepare_data_frame\<close> accepts, sent by a server to a client or by a client, with any masking key, to a
  server, whatever follows it on the wire, is read by an idle peer to its last octet and no further and is
  handed over with the same opcode and payload.
\<close>

theorem data_frame_exchange:
  assumes "prepare_data_frame deflate srv False rnd (Some m) (Some om) = (None, Some w)"
    and "msg_fin m" "msg_opcode m \<in> {Text, Binary}"
    and "idle r" "msg_ptr (m_data_msg r) = None" "\<not> pmd_enabled r" "m_server r \<longleftrightarrow> \<not> srv"
    and "length (msg_payload m) < 2 ^ 64" "of_nat (length (msg_payload m)) \<le> m_max_message_size r"
  shows "\<exists>r' d. consume inflate r (msg_header w @ msg_payload w @ rest) =
      (r', length (msg_header w) + length (msg_payload w), None) \<and>
    ready r' \<and> fst (get_message r') = Some d \<and> msg_opcode d = msg_opcode m \<and> msg_payload d = msg_payload m"
proof -
  obtain B hdr where fh: "frame_header (\<not> srv) rnd (msg_opcode m) (msg_fin m) (length (msg_payload m)) = (B, hdr)"
    by (metis surj_pair)
  note w = prepare_data_frame_plain [OF assms(1) fh]
  have "frame_header (\<not> srv) rnd (msg_opcode m) True (length (msg_payload m)) = (B, hdr)" using fh assms(2) by simp
  from exchange_data [OF assms(4-7) this assms(3) _ assms(8,9), of inflate rest] w show ?thesis by simp
qed

theorem data_frame_exchange_witness:
  "\<exists>r' d w. prepare_data_frame (\<lambda>i o'. i) False False 0x04030201
      (Some (set_payload (make_message Text 0) [0x68, 0x69])) (Some (make_message Text 0)) = (None, Some w) \<and>
    consume no_inflate server (msg_header w @ msg_payload w @ [9]) =
      (r', length (msg_header w) + length (msg_payload w), None) \<and>
    ready r' \<and> fst (get_message r') = Some d \<and>
    msg_opcode d = msg_opcode (set_payload (make_message Text 0) [0x68, 0x69]) \<and>
    msg_payload d = msg_payload (set_payload (make_message Text 0) [0x68, 0x69])"
proof -
  let ?m = "set_payload (make_message Text 0) [0x68, 0x69]"
  let ?p = "prepare_data_frame (\<lambda>i o'. i) False False 0x04030201 (Some ?m) (Some (make_message Text 0))"
  have p: "fst ?p = None" "snd ?p \<noteq> None" by code_simp+
  then obtain w where w: "?p = (None, Some w)" by (metis option.exhaust prod.collapse)
  have s: "idle server" "msg_ptr (m_data_msg server) = None" "m_server server \<longleftrightarrow> \<not> False"
    "of_nat (length (msg_payload ?m)) \<le> m_max_message_size server" by code_simp+
  show ?thesis
    using data_frame_exchange [OF w _ _ s(1,2) endpoints_plain(2) s(3) _ s(4), of no_inflate "[9]"] w
    by (auto simp: set_payload_def)
qed

lemma prepare_control_plain:
  assumes "prepare_control srv rnd op bs (Some om) = (None, Some w)"
    and "frame_header (\<not> srv) rnd op True (length bs) = (B, hdr)"
  shows "msg_header w = hdr \<and> msg_payload w = mask_if (\<not> srv) rnd bs \<and> msg_prepared w \<and>
    is_control op \<and> length bs \<le> 125"
  using assms
  by (auto simp: prepare_control_def Let_def frame_header_def mask_if_def set_payload_def set_header_def
      set_prepared_def payload_size_basic_def split: if_splits)

lemma control_frame_delivered:
  assumes "prepare_control srv rnd op bs (Some om) = (None, Some w)" "\<not> opcode_reserved op"
    and "idle r" "\<not> pmd_enabled r" "m_server r \<longleftrightarrow> \<not> srv"
  shows "\<exists>r' d. consume inflate r (msg_header w @ msg_payload w @ rest) =
      (r', length (msg_header w) + length (msg_payload w), None) \<and>
    ready r' \<and> fst (get_message r') = Some d \<and> msg_opcode d = op \<and> msg_payload d = bs \<and>
    m_data_msg (snd (get_message r')) = m_data_msg r"
proof -
  obtain B hdr where fh: "frame_header (\<not> srv) rnd op True (length bs) = (B, hdr)" by (metis surj_pair)
  note w = prepare_control_plain [OF assms(1) fh]
  from exchange_control [OF assms(3-5) fh _ assms(2), of inflate rest] w show ?thesis by simp
qed

text \<open>
  C8: control frames may be sent at any time. A control frame that \<^verbatim>\<open>prepare_control\<close> accepts is read by
  an idle peer to its last octet and handed over with the same opcode and payload, and a fragmented
  data message the peer is in the middle of is left as it was.
\<close>

theorem control_frame_exchange:
  assumes "prepare_control srv rnd op bs (Some om) = (None, Some w)" "\<not> opcode_reserved op"
    and "idle r" "\<not> pmd_enabled r" "m_server r \<longleftrightarrow> \<not> srv"
  shows "\<exists>r' d. consume inflate r (msg_header w @ msg_payload w @ rest) =
      (r', length (msg_header w) + length (msg_payload w), None) \<and>
    ready r' \<and> fst (get_message r') = Some d \<and> msg_opcode d = op \<and> msg_payload d = bs \<and>
    m_data_msg (snd (get_message r')) = m_data_msg r"
  using assms by (rule control_frame_delivered)

text \<open>The receiver in the middle of a fragmented text message.\<close>

definition mid_message :: "nat hybi13" where
  "mid_message = fst (consume no_inflate server [0x01, 0x81, 1, 2, 3, 4, 0x69])"

theorem control_frame_exchange_witness:
  "\<exists>w r' d. prepare_ping False 0x04030201 [7] (Some (make_message Ping 0)) = (None, Some w) \<and>
    consume no_inflate mid_message (msg_header w @ msg_payload w @ []) =
      (r', length (msg_header w) + length (msg_payload w), None) \<and>
    ready r' \<and> fst (get_message r') = Some d \<and> msg_opcode d = Ping \<and> msg_payload d = [7] \<and>
    m_data_msg (snd (get_message r')) = m_data_msg mid_message \<and> msg_ptr (m_data_msg mid_message) \<noteq> None"
proof -
  let ?p = "prepare_ping False 0x04030201 [7] (Some (make_message Ping 0))"
  have p: "fst ?p = None" "snd ?p \<noteq> None" by code_simp+
  then obtain w where w: "?p = (None, Some w)" by (metis option.exhaust prod.collapse)
  have s: "idle mid_message" "\<not> pmd_enabled mid_message" "m_server mid_message \<longleftrightarrow> \<not> False"
    "\<not> opcode_reserved Ping" "msg_ptr (m_data_msg mid_message) \<noteq> None" by code_simp+
  show ?thesis
    using control_frame_exchange [OF w [unfolded prepare_ping_def] s(4) s(1,2,3), of no_inflate "[]"] w s(5)
    by auto
qed

lemma close_payload:
  "extract_code (le_bytes 2 (ntohs code) @ reason) =
     (code, if status_reserved code then Some (Lib E_reserved_close_code)
            else if status_invalid code then Some (Lib E_invalid_close_code) else None)"
  "extract_reason (le_bytes 2 (ntohs code) @ reason) =
     (reason, if validate reason then None else Some (Lib E_invalid_utf8))"
proof -
  obtain a b where ab: "le_bytes 2 (ntohs code) = [a, b]"
    using length_two [of "le_bytes 2 (ntohs code)"] by auto
  have "of_le [a, b] = ntohs code" using of_le_le_bytes [of 2 "ntohs code"] ab by simp
  then have w: "ntohs (of_le [a, b]) = code" by (simp add: ntohs_involution)
  show "extract_code (le_bytes 2 (ntohs code) @ reason) =
     (code, if status_reserved code then Some (Lib E_reserved_close_code)
            else if status_invalid code then Some (Lib E_invalid_close_code) else None)"
    using extract_code_pair [of a b reason] by (simp add: ab w prod_eq_iff del: of_le.simps)
  have "validate []" by code_simp
  then show "extract_reason (le_bytes 2 (ntohs code) @ reason) =
     (reason, if validate reason then None else Some (Lib E_invalid_utf8))"
    by (simp add: extract_reason_def Let_def ab)
qed

lemma close_frame_delivered:
  assumes "prepare_close srv rnd code reason (Some om) = (None, Some w)"
    and "idle r" "\<not> pmd_enabled r" "m_server r \<longleftrightarrow> \<not> srv"
  shows "\<exists>r' d. consume inflate r (msg_header w @ msg_payload w @ rest) =
      (r', length (msg_header w) + length (msg_payload w), None) \<and>
    fst (get_message r') = Some d \<and> msg_opcode d = Close \<and>
    extract_code (msg_payload d) = (code, None) \<and>
    extract_reason (msg_payload d) = (reason, if validate reason then None else Some (Lib E_invalid_utf8))"
proof -
  define bs where "bs = (if code \<noteq> status_no_status then le_bytes 2 (ntohs code) @ reason else [])"
  have ok: "\<not> status_reserved code" "status_invalid code \<longrightarrow> code = status_no_status"
    "code = status_no_status \<longrightarrow> reason = []" "prepare_control srv rnd Close bs (Some om) = (None, Some w)"
    using assms(1) by (auto simp: prepare_close_def Let_def bs_def split: if_splits)
  have "\<not> opcode_reserved Close" by (simp add: opcode_reserved_def)
  from control_frame_delivered [OF ok(4) this assms(2-4), of inflate rest]
  obtain r' d where run: "consume inflate r (msg_header w @ msg_payload w @ rest) =
      (r', length (msg_header w) + length (msg_payload w), None)"
    "fst (get_message r') = Some d" "msg_opcode d = Close" "msg_payload d = bs" by blast
  have "extract_code bs = (code, None)"
  proof (cases "code = status_no_status")
    case True
    then show ?thesis by (simp add: bs_def extract_code_def)
  next
    case False
    with ok(1,2) show ?thesis by (simp add: bs_def close_payload)
  qed
  moreover have "extract_reason bs = (reason, if validate reason then None else Some (Lib E_invalid_utf8))"
  proof (cases "code = status_no_status")
    case True
    then show ?thesis using ok(3) by (simp add: bs_def extract_reason_def)
  next
    case False
    then show ?thesis by (simp add: bs_def close_payload)
  qed
  ultimately show ?thesis using run by blast
qed

text \<open>
  C9: a close frame carries its code and reason. When \<^verbatim>\<open>prepare_close\<close> accepts a code and a reason, an idle
  peer reads the frame and hands over a close message from which \<^verbatim>\<open>extract_code\<close> and \<^verbatim>\<open>extract_reason\<close> get
  exactly that code, without an error, and that reason; 1005 stands for an empty payload.
\<close>

theorem close_frame_exchange:
  assumes "prepare_close srv rnd code reason (Some om) = (None, Some w)"
    and "idle r" "\<not> pmd_enabled r" "m_server r \<longleftrightarrow> \<not> srv"
  shows "\<exists>r' d. consume inflate r (msg_header w @ msg_payload w @ rest) =
      (r', length (msg_header w) + length (msg_payload w), None) \<and>
    fst (get_message r') = Some d \<and> msg_opcode d = Close \<and>
    extract_code (msg_payload d) = (code, None) \<and>
    extract_reason (msg_payload d) = (reason, if validate reason then None else Some (Lib E_invalid_utf8))"
  using assms by (rule close_frame_delivered)

theorem close_frame_exchange_witness:
  "\<exists>w r' d. prepare_close False 0x04030201 1001 [0x62, 0x79, 0x65] (Some (make_message Close 0)) = (None, Some w) \<and>
    consume no_inflate server (msg_header w @ msg_payload w @ []) =
      (r', length (msg_header w) + length (msg_payload w), None) \<and>
    fst (get_message r') = Some d \<and> extract_code (msg_payload d) = (1001, None) \<and>
    fst (extract_reason (msg_payload d)) = [0x62, 0x79, 0x65]"
proof -
  let ?p = "prepare_close False 0x04030201 1001 [0x62, 0x79, 0x65] (Some (make_message Close 0))"
  have p: "fst ?p = None" "snd ?p \<noteq> None" by code_simp+
  then obtain w where w: "?p = (None, Some w)" by (metis option.exhaust prod.collapse)
  have s: "idle server" "m_server server \<longleftrightarrow> \<not> False" by code_simp+
  show ?thesis
    using close_frame_exchange [OF w s(1) endpoints_plain(2) s(2), of no_inflate "[]"] w by fastforce
qed

subsection \<open>Where the receiver falls short\<close>

text \<open>
  The size check of \<^verbatim>\<open>consume\<close>. A control message is opened whatever its size (validation limits it
  to 125 octets); a data frame is refused with \<^verbatim>\<open>message_too_big\<close> exactly when the octets stored so far
  and the frame's, added modulo 2 to the 64th, exceed the maximum. For a first frame that is the
  frame's size.
\<close>

theorem size_check:
  "fst (start_message h) =
     (let stored = (case msg_ptr (m_data_msg h) of None \<Rightarrow> 0 | Some m \<Rightarrow> length (msg_payload m))
      in if \<not> is_control (get_opcode (m_basic_header h)) \<and>
            (stored + unat (m_bytes_needed h)) mod 2 ^ 64 > unat (m_max_message_size h)
         then Some (Processor P_message_too_big) else None)"
proof -
  have w: "unat (of_nat n + m_bytes_needed h) = (n + unat (m_bytes_needed h)) mod 2 ^ 64" for n
    by (simp add: unat_word_ariths(1) unat_of_nat mod_add_left_eq)
  have "unat (m_bytes_needed h) < 2 ^ 64" using unsigned_less [of "m_bytes_needed h"] by simp
  then show ?thesis
    by (auto simp: start_message_def Let_def word_less_nat_alt w split: option.splits)
qed

text \<open>
  C31: the wrap-around lets messages past the limit. A client that has stored any number \<open>n > 0\<close> of octets of
  a binary message accepts a continuation frame announcing 2 to the 64th minus \<open>n\<close> octets, whatever its
  maximum, and stores without an error all of the octets that follow.
\<close>

theorem size_limit_bypass:
  fixes r :: "'z hybi13"
  assumes r: "idle r" "\<not> pmd_enabled r" "\<not> m_server r"
    and m: "msg_ptr (m_data_msg r) = Some m" "msg_opcode m = Binary" "msg_payload m \<noteq> []"
    and sz: "sz = - of_nat (length (msg_payload m))" "length bs < unat sz" "bs \<noteq> []"
  shows "\<exists>r' n. consume inflate r
      (prepare_header (make_basic_header Continuation sz True False False False False) (extended_header_sized sz) @ bs)
      = (r', n, None) \<and>
    m_max_message_size r' = m_max_message_size r \<and>
    map_option msg_payload (msg_ptr (m_data_msg r')) = Some (msg_payload m @ bs)"
proof -
  define B where "B = make_basic_header Continuation sz True False False False False"
  define h2 where "h2 = (after_header r B (wire_ext sz False 0) sz)
    \<lparr>m_data_msg := (m_data_msg r)\<lparr>prepared_key := prepare_masking_key 0\<rparr>, m_current_msg := Data_msg\<rparr>"
  have hdr: "prepare_header B (extended_header_sized sz) = b0 B # b1 B # wire_ext sz False 0"
    by (simp add: B_def prepare_header_sized wire_ext_def)
  have cont: "\<not> is_control Continuation" "\<not> opcode_reserved Continuation"
    by (simp_all add: is_control_def opcode_reserved_def)
  have val: "validate_incoming_basic_header (pmd_enabled r) B (m_server r) (msg_ptr (m_data_msg r) = None) = None"
    using peer_header_valid [of Continuation True sz False "pmd_enabled r" False] cont m(1) r(3) by (simp add: B_def)
  have "of_nat (length (msg_payload m)) + sz = 0" using sz(1) by simp
  then have st: "start_message (after_header r B (wire_ext sz False 0) sz) = (None, h2)"
    using after_header_key [of Continuation sz True False r 0 sz] cont(1) m(1)
    by (simp add: start_message_def h2_def B_def Let_def)
  have flds: "proc_state h2 = APPLICATION" "\<not> pmd_enabled h2" "m_bytes_needed h2 = sz" "m_basic_header h2 = B"
    "m_current_msg h2 = Data_msg" "current_message h2 = m" "m_max_message_size h2 = m_max_message_size r"
    using r(2) m(1) by (simp_all add: h2_def current_message_def current_metadata_def)
  have un: "fst (unmask h2 bs) = bs" "fst (check_text h2 bs)"
    using flds m(2) by (simp_all add: unmask_def check_text_def B_def)
  define h3 where "h3 = (store_payload h2 bs)\<lparr>m_bytes_needed := sz - of_nat (length bs)\<rparr>"
  have nz: "m_bytes_needed h2 \<noteq> 0" using sz(2) flds(3) by auto
  have k: "length bs = min (unat (m_bytes_needed h2)) (length bs)" using sz(2) flds(3) by simp
  have lt: "length bs < unat (m_bytes_needed h2)" using sz(2) flds(3) by simp
  have step: "consume_step inflate h2 bs = Go_on h3 (length bs)"
    unfolding payload_step [OF flds(1,2) nz sz(3) k] take_all [OF order_refl] un(1) if_P [OF un(2)] Let_def
      if_P [OF lt] by (simp add: h3_def flds)
  have "unat (of_nat (length bs) :: u64) = length bs" using sz(2) by (intro unat_of_nat_le [of _ sz]) simp
  then have "sz \<noteq> of_nat (length bs)" using sz(2) by auto
  then have stop: "\<not> keep_going h3 []" by (simp add: keep_going_def h3_def)
  have go: "keep_going h2 bs" using flds sz(3) by (simp add: keep_going_def)
  have "consume inflate r (prepare_header B (extended_header_sized sz) @ bs) =
      (h3, 2 + length (wire_ext sz False 0) + length bs, None)"
    using header_steps [where op = Continuation and sz = sz and fin = True and m = False and ?r1.0 = False
        and key = 0 and h = r and xs = bs and p = 0 and inflate = inflate, folded B_def, OF r(1) val] st
      loop_go [OF go step, of "2 + length (wire_ext sz False 0)"] loop_stop [OF stop]
    by (simp add: consume_def hdr)
  moreover have "map_option msg_payload (msg_ptr (m_data_msg h3)) = Some (msg_payload m @ bs)"
    using flds un by (simp add: h3_def store_payload_def set_current_metadata_def Let_def case_prod_unfold)
  moreover have "m_max_message_size h3 = m_max_message_size r"
    using flds by (simp add: h3_def store_payload_def Let_def case_prod_unfold)
  ultimately show ?thesis unfolding B_def by blast
qed

theorem size_limit_bypass_witness:
  "\<exists>r' n. consume no_inflate (fst (consume no_inflate client [0x02, 1, 0x61]))
      (prepare_header (make_basic_header Continuation (- 1) True False False False False)
         (extended_header_sized (- 1)) @ replicate 2000 0x63) = (r', n, None) \<and>
    m_max_message_size r' = 1000 \<and>
    map_option msg_payload (msg_ptr (m_data_msg r')) = Some (0x61 # replicate 2000 0x63)"
proof -
  let ?r = "fst (consume no_inflate client [0x02, 1, 0x61])"
  let ?m = "the (msg_ptr (m_data_msg ?r))"
  have r: "idle ?r" "\<not> pmd_enabled ?r" "\<not> m_server ?r" "msg_opcode ?m = Binary"
    "m_max_message_size ?r = 1000" "msg_payload ?m = [0x61]" "msg_ptr (m_data_msg ?r) \<noteq> None"
    by code_simp+
  then have m: "msg_ptr (m_data_msg ?r) = Some ?m" by simp
  have u: "unat (- 1 :: u64) = 18446744073709551615" by (simp add: unsigned_minus_1_eq_mask mask_eq_exp_minus_1)
  show ?thesis
    using size_limit_bypass [OF r(1-3) m r(4), of "- 1" "replicate 2000 0x63" no_inflate] r(5,6) u by simp
qed


end
