(* ===== verification/Connection_Exchange.thy ===== *)
theory Connection_Exchange
  imports Connection_Safety Hybi13_Exchange
begin

text \<open>
  Two connections of version 13 that talk to each other: the closing handshake, and a ping that is answered. Each handler
  is the one of \<^verbatim>\<open>connection_impl.hpp\<close>, and the octets between them are those of the frames.
\<close>

subsection \<open>One control frame read\<close>

definition wire :: "message \<Rightarrow> bytes" where "wire m = msg_header m @ msg_payload m"

lemma wire_terminal [simp]: "wire (set_terminal m b) = wire m"
  by (simp add: wire_def set_terminal_def)

text \<open>A connection whose reader of version 13 waits for a frame.\<close>

definition listening :: "connection \<Rightarrow> bool" where
  "listening c \<longleftrightarrow> c_internal_state c = PROCESS_CONNECTION \<and>
     (\<exists>h. c_processor c = Some (Processor13 h) \<and> idle h \<and> \<not> pmd_enabled h \<and> m_server h = c_is_server c)"

lemma one_frame_read:
  assumes "c_internal_state c = PROCESS_CONNECTION" "c_processor c = Some (Processor13 h)" "wire w \<noteq> []"
    and "consume null_inflate h (wire w) = (h', length (wire w), None)" "fst (get_message h') = Some d" "is_control (msg_opcode d)"
  shows "handle_read_frame env None (wire w) c =
    (case process_control_frame env d (c\<lparr>c_processor := Some (Processor13 (snd (get_message h')))\<rparr>) of
       None \<Rightarrow> Some Undefined | Some c' \<Rightarrow> Some (Done (read_frame c')))"
proof -
  have "ready h'" using assms(5) by (simp add: get_message_def split: if_splits)
  then have "dispatch_ready env (Processor13 h') (c\<lparr>c_processor := Some (Processor13 h')\<rparr>) =
      process_control_frame env d (c\<lparr>c_processor := Some (Processor13 (snd (get_message h')))\<rparr>)"
    using assms(5,6) by (auto simp: dispatch_ready_def apsnd_def map_prod_def Let_def split: prod.split)
  moreover have "read_loop env (wire w) c = (case dispatch_ready env (Processor13 h') (c\<lparr>c_processor := Some (Processor13 h')\<rparr>) of
      None \<Rightarrow> Some Undefined | Some d \<Rightarrow> read_loop env (drop (length (wire w)) (wire w)) d)"
    using assms(2-4) by (subst read_loop.simps) simp
  moreover have "read_loop env [] d = Some (Done (read_frame d))" for d by (simp add: read_loop.simps)
  ultimately show ?thesis
    using assms(1) by (simp add: handle_read_frame_def atomic_state_check_def split: option.split)
qed

lemma prepared_control_octets:
  assumes "prepare_control srv rnd op bs (Some om) = (None, Some w)"
  shows "wire w \<noteq> []"
proof -
  obtain B hdr where fh: "frame_header (\<not> srv) rnd op True (length bs) = (B, hdr)" by (metis surj_pair)
  have "hdr \<noteq> []" using frame_header_bytes [OF fh] by auto
  then show ?thesis using prepare_control_plain [OF assms fh] by (simp add: wire_def)
qed


text \<open>What a listening peer of the other role makes of a control frame, and of a close frame.\<close>

lemma control_frame_read:
  assumes "prepare_control srv rnd op bs (Some om) = (None, Some w)" "\<not> opcode_reserved op"
    and "listening c" "c_is_server c \<longleftrightarrow> \<not> srv"
  obtains h d where "msg_opcode d = op" "msg_payload d = bs" "idle h"
    "handle_read_frame env None (wire w) c =
      (case process_control_frame env d (c\<lparr>c_processor := Some (Processor13 h)\<rparr>) of
         None \<Rightarrow> Some Undefined | Some c' \<Rightarrow> Some (Done (read_frame c')))"
proof -
  obtain h where h: "c_internal_state c = PROCESS_CONNECTION" "c_processor c = Some (Processor13 h)"
    "idle h" "\<not> pmd_enabled h" "m_server h \<longleftrightarrow> \<not> srv"
    using assms(3,4) by (auto simp: listening_def)
  obtain h' d where d: "consume null_inflate h (wire w) = (h', length (wire w), None)"
    "ready h'" "fst (get_message h') = Some d" "msg_opcode d = op" "msg_payload d = bs"
    using control_frame_delivered [OF assms(1,2) h(3-5), of null_inflate "[]"] by (auto simp: wire_def)
  have "is_control op" using assms(1) by (auto simp: prepare_control_def split: if_splits)
  then have "handle_read_frame env None (wire w) c =
      (case process_control_frame env d (c\<lparr>c_processor := Some (Processor13 (snd (get_message h')))\<rparr>) of
         None \<Rightarrow> Some Undefined | Some c' \<Rightarrow> Some (Done (read_frame c')))"
    using one_frame_read [OF h(1,2) prepared_control_octets [OF assms(1)] d(1,3)] d(4) by simp
  moreover have "idle (snd (get_message h'))"
    using d(2) by (simp add: get_message_def Let_def)
  ultimately show ?thesis using that d(4,5) by blast
qed

lemma close_frame_read:
  assumes "prepare_close srv rnd code reason (Some om) = (None, Some w)"
    and "listening c" "c_is_server c \<longleftrightarrow> \<not> srv"
  obtains h d where "msg_opcode d = Close" "extract_code (msg_payload d) = (code, None)"
    "extract_reason (msg_payload d) = (reason, if validate reason then None else Some (Lib E_invalid_utf8))" "idle h"
    "handle_read_frame env None (wire w) c =
      (case process_control_frame env d (c\<lparr>c_processor := Some (Processor13 h)\<rparr>) of
         None \<Rightarrow> Some Undefined | Some c' \<Rightarrow> Some (Done (read_frame c')))"
proof -
  obtain h where h: "c_internal_state c = PROCESS_CONNECTION" "c_processor c = Some (Processor13 h)"
    "idle h" "\<not> pmd_enabled h" "m_server h \<longleftrightarrow> \<not> srv"
    using assms(2,3) by (auto simp: listening_def)
  obtain bs where bs: "prepare_control srv rnd Close bs (Some om) = (None, Some w)"
    using assms(1) by (auto simp: prepare_close_def Let_def split: if_splits)
  obtain h' d where d: "consume null_inflate h (wire w) = (h', length (wire w), None)"
    "fst (get_message h') = Some d" "msg_opcode d = Close" "extract_code (msg_payload d) = (code, None)"
    "extract_reason (msg_payload d) = (reason, if validate reason then None else Some (Lib E_invalid_utf8))"
    using close_frame_delivered [OF assms(1) h(3-5), of null_inflate "[]"] by (auto simp: wire_def)
  have "ready h'" using d(2) by (simp add: get_message_def split: if_splits)
  then have "idle (snd (get_message h'))" by (simp add: get_message_def Let_def)
  moreover have "is_control Close" by (simp add: is_control_def)
  then have "handle_read_frame env None (wire w) c =
      (case process_control_frame env d (c\<lparr>c_processor := Some (Processor13 (snd (get_message h')))\<rparr>) of
         None \<Rightarrow> Some Undefined | Some c' \<Rightarrow> Some (Done (read_frame c')))"
    using one_frame_read [OF h(1,2) prepared_control_octets [OF bs] d(1,2)] d(3) by simp
  ultimately show ?thesis using that d(3-5) by blast
qed

subsection \<open>A ping is answered\<close>

lemma reading_on [simp]:
  "c_state (read_frame c) = c_state c" "c_send_queue (read_frame c) = c_send_queue c" "c_was_clean (read_frame c) = c_was_clean c"
  "c_remote_close_code (read_frame c) = c_remote_close_code c" "c_remote_close_reason (read_frame c) = c_remote_close_reason c"
  "c_local_close_code (read_frame c) = c_local_close_code c" "c_local_close_reason (read_frame c) = c_local_close_reason c"
  by (simp_all add: read_frame_def start_op_def)

lemma queued [simp]:
  "c_send_queue (push_and_dispatch (Some m) c) = c_send_queue c @ [m]"
  "c_was_clean (push_and_dispatch msg c) = c_was_clean c" "c_remote_close_code (push_and_dispatch msg c) = c_remote_close_code c"
  "c_remote_close_reason (push_and_dispatch msg c) = c_remote_close_reason c"
  "c_local_close_code (push_and_dispatch msg c) = c_local_close_code c"
  "c_local_close_reason (push_and_dispatch msg c) = c_local_close_reason c"
  by (simp_all add: push_and_dispatch_def write_push_def start_op_def Let_def split: option.split)

text \<open>
  C22: an open connection of version 13 without a ping handler that reads a ping frame of its peer queues one frame, behind
  what it had queued, and the peer, while it listens, reads that frame as a pong with the payload of its ping.
\<close>

theorem ping_answered:
  assumes "prepare_ping srv rnd payload (Some om) = (None, Some w)"
    and "listening c" "c_is_server c \<longleftrightarrow> \<not> srv" "c_state c = Open" "\<not> has_handler Ping_handler c"
    and "idle r" "\<not> pmd_enabled r" "m_server r \<longleftrightarrow> srv"
  shows "\<exists>c' answer r' d. handle_read_frame env None (wire w) c = Some (Done c') \<and>
    c_send_queue c' = c_send_queue c @ [answer] \<and> c_state c' = Open \<and>
    consume null_inflate r (wire answer) = (r', length (wire answer), None) \<and>
    fst (get_message r') = Some d \<and> msg_opcode d = Pong \<and> msg_payload d = payload"
proof -
  have ctl: "prepare_control srv rnd Ping payload (Some om) = (None, Some w)" "\<not> opcode_reserved Ping" "\<not> opcode_reserved Pong"
    using assms(1) by (simp_all add: prepare_ping_def opcode_reserved_def)
  obtain h d where d: "msg_opcode d = Ping" "msg_payload d = payload"
    "handle_read_frame env None (wire w) c =
      (case process_control_frame env d (c\<lparr>c_processor := Some (Processor13 h)\<rparr>) of
         None \<Rightarrow> Some Undefined | Some c' \<Rightarrow> Some (Done (read_frame c')))"
    by (rule control_frame_read [OF ctl(1,2) assms(2,3)])
  let ?c = "c\<lparr>c_processor := Some (Processor13 h)\<rparr>"
  have len: "length payload \<le> payload_size_basic"
    using ctl(1) by (auto simp: prepare_control_def split: if_splits)
  let ?om = "make_message (s_stack_opcode env) 0"
  obtain answer where answer: "prepare_control (\<not> srv) (s_rng env (c_draws c)) Pong payload (Some ?om) = (None, Some answer)"
    using len by (auto simp: prepare_control_def is_control_def Let_def)
  have "process_control_frame env d ?c =
      Some (push_and_dispatch (Some answer) (draw ?c None))"
    using d(1,2) assms(3-5) answer
    by (auto simp: process_control_frame_def process_ping_def pong_def alloc_get_empty_def prepare_pong_def has_handler_def Let_def)
  then have run: "handle_read_frame env None (wire w) c = Some (Done (read_frame (push_and_dispatch (Some answer) (draw ?c None))))"
    using d(3) by simp
  have "c_send_queue (draw ?c None) = c_send_queue c" "c_state (draw ?c None) = c_state c"
    by (simp_all add: draw_def)
  moreover have "\<exists>r' d. consume null_inflate r (wire answer) = (r', length (wire answer), None) \<and>
    fst (get_message r') = Some d \<and> msg_opcode d = Pong \<and> msg_payload d = payload"
    using control_frame_delivered [OF answer ctl(3) assms(6,7), of null_inflate "[]"] assms(8) by (auto simp: wire_def)
  ultimately show ?thesis using run assms(4) by auto
qed

lemma listening_server: "listening open_server"
  by (simp add: listening_def open_server_def make_connection_def make_hybi13_def reset_headers_def idle_def BASIC_HEADER_LENGTH_def
      MAX_EXTENDED_HEADER_LENGTH_def)

theorem ping_answered_witness:
  "\<exists>w c' answer. prepare_ping False 0x04030201 [7] (Some (make_message Ping 0)) = (None, Some w) \<and>
    handle_read_frame quiet_env None (wire w) open_server = Some (Done c') \<and> c_send_queue c' = [answer] \<and> c_state c' = Open"
proof -
  obtain w where w: "prepare_ping False 0x04030201 [7] (Some (make_message Ping 0)) = (None, Some w)"
    by (auto simp: prepare_ping_def prepare_control_def is_control_def payload_size_basic_def Let_def)
  have idle: "idle (make_hybi13 False 1000 False ())" by simp
  have r: "\<not> pmd_enabled (make_hybi13 False 1000 False ())"
    "m_server (make_hybi13 False 1000 False ()) \<longleftrightarrow> False"
    by (simp_all add: make_hybi13_def reset_headers_def)
  have "c_is_server open_server \<longleftrightarrow> \<not> False" "c_state open_server = Open" "\<not> has_handler Ping_handler open_server" "c_send_queue open_server = []"
    by (simp_all add: open_server_def make_connection_def has_handler_def)
  then show ?thesis using ping_answered [OF w listening_server _ _ _ idle r, of quiet_env] w by auto
qed

subsection \<open>The closing handshake\<close>

lemma sending_keeps [simp]:
  "c_processor (push_and_dispatch msg c) = c_processor c" "c_internal_state (push_and_dispatch msg c) = c_internal_state c"
  "c_is_server (push_and_dispatch msg c) = c_is_server c"
  by (simp_all add: push_and_dispatch_def write_push_def start_op_def Let_def split: option.split)

lemma info_keeps [simp]:
  "c_processor (set_close_info env code reason ack c) = c_processor c" "c_internal_state (set_close_info env code reason ack c) = c_internal_state c"
  "c_is_server (set_close_info env code reason ack c) = c_is_server c" "c_send_queue (set_close_info env code reason ack c) = c_send_queue c"
  "c_was_clean (set_close_info env code reason ack c) = c_was_clean c" "c_draws (set_close_info env code reason ack c) = c_draws c"
  "c_remote_close_code (set_close_info env code reason ack c) = c_remote_close_code c"
  "c_remote_close_reason (set_close_info env code reason ack c) = c_remote_close_reason c"
  by (simp_all add: set_close_info_def)

lemma draw_keeps [simp]:
  "c_processor (draw c ec) = c_processor c" "c_internal_state (draw c ec) = c_internal_state c" "c_is_server (draw c ec) = c_is_server c"
  "c_send_queue (draw c ec) = c_send_queue c" "c_was_clean (draw c ec) = c_was_clean c"
  "c_remote_close_code (draw c ec) = c_remote_close_code c" "c_remote_close_reason (draw c ec) = c_remote_close_reason c"
  "c_local_close_code (draw c ec) = c_local_close_code c" "c_local_close_reason (draw c ec) = c_local_close_reason c"
  by (simp_all add: draw_def split: option.split processor.split)

lemma timer_keeps [simp]:
  "c_processor (set_handshake_timer env n t c) = c_processor c" "c_internal_state (set_handshake_timer env n t c) = c_internal_state c"
  "c_is_server (set_handshake_timer env n t c) = c_is_server c" "c_send_queue (set_handshake_timer env n t c) = c_send_queue c"
  "c_was_clean (set_handshake_timer env n t c) = c_was_clean c"
  "c_remote_close_code (set_handshake_timer env n t c) = c_remote_close_code c"
  "c_remote_close_reason (set_handshake_timer env n t c) = c_remote_close_reason c"
  "c_local_close_code (set_handshake_timer env n t c) = c_local_close_code c"
  "c_local_close_reason (set_handshake_timer env n t c) = c_local_close_reason c"
  by (simp_all add: set_handshake_timer_def set_timer_def start_op_def Let_def)

definition sendable_close :: "u16 \<Rightarrow> bytes \<Rightarrow> bool" where
  "sendable_close code reason \<longleftrightarrow> \<not> status_reserved code \<and> (status_invalid code \<longrightarrow> code = status_no_status) \<and>
     (code = status_no_status \<longrightarrow> reason = []) \<and> length reason \<le> 123"

lemma prepare_close_iff:
  "(\<exists>w. prepare_close srv rnd code reason (Some om) = (None, Some w)) \<longleftrightarrow> sendable_close code reason"
  by (auto simp: prepare_close_def prepare_control_def sendable_close_def is_control_def payload_size_basic_def Let_def)

lemma prepare_close_terminal: "prepare_close srv rnd code reason (Some om) = (None, Some w) \<Longrightarrow> msg_terminal w = msg_terminal om"
  by (auto simp: prepare_close_def prepare_control_def set_header_def set_payload_def set_prepared_def Let_def split: if_splits)

lemma prepare_close_out: "fst (prepare_close srv rnd code reason (Some om)) = None \<Longrightarrow>
    \<exists>w. prepare_close srv rnd code reason (Some om) = (None, Some w)"
  by (auto simp: prepare_close_def prepare_control_def Let_def split: if_splits)

lemma close_frame_sent:
  fixes env :: env and code :: u16 and reason :: bytes and ack final :: bool and c :: connection
  assumes h: "c_processor c = Some (Processor13 h)"
  defines "i \<equiv> set_close_info env code reason ack c"
  shows "sendable_close (c_local_close_code i) (c_local_close_reason i) \<Longrightarrow>
    \<exists>c' w w0. send_close_frame env code reason ack final c = Some (None, c') \<and>
      prepare_close (c_is_server c) (s_rng env (c_draws c)) (c_local_close_code i) (c_local_close_reason i)
        (Some (make_message (s_stack_opcode env) 0)) = (None, Some w0) \<and> wire w = wire w0 \<and> msg_terminal w = final \<and>
      c_send_queue c' = c_send_queue c @ [w] \<and> c_state c' = Closing \<and> c_was_clean c' = (c_was_clean c \<or> ack) \<and>
      c_is_server c' = c_is_server c \<and> c_processor c' = c_processor c \<and> c_internal_state c' = c_internal_state c \<and>
      c_local_close_code c' = c_local_close_code i \<and> c_local_close_reason c' = c_local_close_reason i \<and>
      c_remote_close_code c' = c_remote_close_code c \<and> c_remote_close_reason c' = c_remote_close_reason c"
    and "\<not> sendable_close (c_local_close_code i) (c_local_close_reason i) \<Longrightarrow>
      \<exists>e c'. send_close_frame env code reason ack final c = Some (Some e, c')"
proof -
  let ?p = "prepare_close (c_is_server c) (s_rng env (c_draws c)) (c_local_close_code i) (c_local_close_reason i)
        (Some (make_message (s_stack_opcode env) 0))"
  {
    assume "sendable_close (c_local_close_code i) (c_local_close_reason i)"
    then obtain w0 where w0: "?p = (None, Some w0)" using prepare_close_iff by blast
    let ?w = "if final then set_terminal w0 True else w0"
    let ?c = "push_and_dispatch (Some ?w) (set_handshake_timer env (c_close_timeout (draw i None)) Close_timer
      ((draw i None)\<lparr>c_state := Closing, c_was_clean := c_was_clean (draw i None) \<or> ack\<rparr>))"
    have sent: "send_close_frame env code reason ack final c = Some (None, ?c)"
      using w0 h by (auto simp: send_close_frame_def i_def alloc_get_empty_def Let_def)
    have terminal: "msg_terminal ?w = final"
      using prepare_close_terminal [OF w0] by (simp add: set_terminal_def make_message_def)
    show "\<exists>c' w w0. send_close_frame env code reason ack final c = Some (None, c') \<and>
      ?p = (None, Some w0) \<and> wire w = wire w0 \<and> msg_terminal w = final \<and>
      c_send_queue c' = c_send_queue c @ [w] \<and> c_state c' = Closing \<and> c_was_clean c' = (c_was_clean c \<or> ack) \<and>
      c_is_server c' = c_is_server c \<and> c_processor c' = c_processor c \<and> c_internal_state c' = c_internal_state c \<and>
      c_local_close_code c' = c_local_close_code i \<and> c_local_close_reason c' = c_local_close_reason i \<and>
      c_remote_close_code c' = c_remote_close_code c \<and> c_remote_close_reason c' = c_remote_close_reason c"
      by (rule exI [of _ ?c], rule exI [of _ ?w], rule exI [of _ w0])
        (use sent terminal w0 in \<open>auto simp: i_def\<close>)
  }
  assume "\<not> sendable_close (c_local_close_code i) (c_local_close_reason i)"
  then obtain e out where "?p = (Some e, out)"
    using prepare_close_out prepare_close_iff by (metis fst_conv option.exhaust prod.exhaust)
  then show "\<exists>e c'. send_close_frame env code reason ack final c = Some (Some e, c')"
    using h by (simp add: send_close_frame_def i_def alloc_get_empty_def Let_def)
qed

lemma plain_codes: "\<not> status_reserved status_normal" "\<not> status_invalid status_normal" "\<not> status_reserved status_no_status"
  "status_normal \<noteq> status_no_status"
  by code_simp+

text \<open>The answer to a close frame with a valid code and reason.\<close>

lemma close_answered:
  assumes "msg_opcode d = Close" "extract_code (msg_payload d) = (code, None)" "extract_reason (msg_payload d) = (reason, None)"
    and "sendable_close code reason" "validate reason" "c_processor c = Some (Processor13 h)" "c_state c = Open"
  shows "\<exists>c' w w0. process_control_frame env d c = Some c' \<and>
    prepare_close (c_is_server c) (s_rng env (c_draws c)) (c_local_close_code c') (c_local_close_reason c')
      (Some (make_message (s_stack_opcode env) 0)) = (None, Some w0) \<and> wire w = wire w0 \<and> msg_terminal w = c_is_server c \<and>
    c_send_queue c' = c_send_queue c @ [w] \<and> c_state c' = Closing \<and> c_was_clean c' \<and> validate (c_local_close_reason c') \<and>
    c_remote_close_code c' = code \<and> c_remote_close_reason c' = reason"
proof -
  let ?c = "c\<lparr>c_remote_close_code := code, c_remote_close_reason := reason\<rparr>"
  let ?i = "set_close_info env status_blank [] True ?c"
  have "validate []" by code_simp
  then have i: "sendable_close (c_local_close_code ?i) (c_local_close_reason ?i)" "validate (c_local_close_reason ?i)"
    using assms(4,5) plain_codes by (auto simp: set_close_info_def sendable_close_def)
  obtain c' w w0 where c': "send_close_frame env status_blank [] True (c_is_server c) ?c = Some (None, c')"
    "prepare_close (c_is_server ?c) (s_rng env (c_draws ?c)) (c_local_close_code ?i) (c_local_close_reason ?i)
        (Some (make_message (s_stack_opcode env) 0)) = (None, Some w0)" "wire w = wire w0" "msg_terminal w = c_is_server c"
    "c_send_queue c' = c_send_queue ?c @ [w]" "c_state c' = Closing" "c_was_clean c' = (c_was_clean ?c \<or> True)"
    "c_local_close_code c' = c_local_close_code ?i" "c_local_close_reason c' = c_local_close_reason ?i"
    "c_remote_close_code c' = c_remote_close_code ?c" "c_remote_close_reason c' = c_remote_close_reason ?c"
    using close_frame_sent(1) [of ?c h env status_blank "[]" True "c_is_server c"] i(1) assms(6) by auto
  have p: "process_control_frame env d c = Some c'"
    using assms(1-3,7) c'(1) by (simp add: process_control_frame_def process_close_def send_close_ack_def)
  show ?thesis
    by (rule exI [of _ c'], rule exI [of _ w], rule exI [of _ w0]) (use p c'(2-) i(2) in simp)
qed

text \<open>
  C11: the closing handshake between two open connections of version 13 of opposite roles. When \<^verbatim>\<open>close\<close> succeeds, the
  frame it queues, read by the other end, makes that end remember the code and the reason, change to \<open>Closing\<close>, mark the
  end as clean and queue one answer, after which a server ends the transport; and the answer, read by the end that
  began, does the same there, where a server terminates at once and a client waits for the transport to end.
\<close>

theorem closing_handshake:
  assumes "listening a" "c_state a = Open" "c_send_queue a = []" "\<not> c_was_clean a"
    and "listening b" "c_state b = Open" "c_send_queue b = []" "c_is_server b \<longleftrightarrow> \<not> c_is_server a"
    and "close env_a code reason a = Some (None, a1)" "validate (c_local_close_reason a1)"
  shows "\<exists>w b1 answer a2. c_send_queue a1 = [w] \<and> c_state a1 = Closing \<and>
    handle_read_frame env_b None (wire w) b = Some (Done b1) \<and>
    c_state b1 = Closing \<and> c_was_clean b1 \<and> c_send_queue b1 = [answer] \<and> msg_terminal answer = c_is_server b \<and>
    c_remote_close_code b1 = c_local_close_code a1 \<and> c_remote_close_reason b1 = c_local_close_reason a1 \<and>
    handle_read_frame env_a None (wire answer) a1 = Some (Done a2) \<and>
    c_state a2 = (if c_is_server a then Closed else Closing) \<and> c_was_clean a2 \<and>
    c_remote_close_code a2 = c_local_close_code b1 \<and> c_remote_close_reason a2 = c_local_close_reason b1"
proof -
  let ?tr = "take close_reason_size reason"
  let ?i = "set_close_info env_a code ?tr False a"
  have sent: "send_close_frame env_a code ?tr False (status_terminal code) a = Some (None, a1)"
    using assms(2,9) by (simp add: close_def)
  obtain g where g: "c_processor a = Some (Processor13 g)" using assms(1) by (auto simp: listening_def)
  have ok: "sendable_close (c_local_close_code ?i) (c_local_close_reason ?i)"
    using sent close_frame_sent(2) [OF g, of env_a code ?tr False "status_terminal code"] by fastforce
  obtain w w0 where w: "prepare_close (c_is_server a) (s_rng env_a (c_draws a)) (c_local_close_code a1) (c_local_close_reason a1)
        (Some (make_message (s_stack_opcode env_a) 0)) = (None, Some w0)" "wire w = wire w0"
      "c_send_queue a1 = [w]" "c_state a1 = Closing" "\<not> c_was_clean a1" "c_is_server a1 = c_is_server a"
      "c_processor a1 = c_processor a" "c_internal_state a1 = c_internal_state a"
      "sendable_close (c_local_close_code a1) (c_local_close_reason a1)"
    using close_frame_sent(1) [OF g ok, of "status_terminal code"] sent ok assms(3,4) by auto
  have roles: "c_is_server b \<longleftrightarrow> \<not> c_is_server a" "c_is_server a1 \<longleftrightarrow> \<not> c_is_server b" using assms(8) w(6) by auto
  have la: "listening a1" using assms(1) w(6-8) by (simp add: listening_def)
  obtain h d where d: "msg_opcode d = Close" "extract_code (msg_payload d) = (c_local_close_code a1, None)"
    "extract_reason (msg_payload d) = (c_local_close_reason a1, if validate (c_local_close_reason a1) then None else Some (Lib E_invalid_utf8))"
    "handle_read_frame env_b None (wire w0) b =
      (case process_control_frame env_b d (b\<lparr>c_processor := Some (Processor13 h)\<rparr>) of
         None \<Rightarrow> Some Undefined | Some c' \<Rightarrow> Some (Done (read_frame c')))"
    by (rule close_frame_read [OF w(1) assms(5) roles(1)])
  obtain b1 answer v where b1: "process_control_frame env_b d (b\<lparr>c_processor := Some (Processor13 h)\<rparr>) = Some b1"
    "prepare_close (c_is_server b) (s_rng env_b (c_draws b)) (c_local_close_code b1) (c_local_close_reason b1)
      (Some (make_message (s_stack_opcode env_b) 0)) = (None, Some v)" "wire answer = wire v" "msg_terminal answer = c_is_server b"
    "c_send_queue b1 = [answer]" "c_state b1 = Closing" "c_was_clean b1" "validate (c_local_close_reason b1)"
    "c_remote_close_code b1 = c_local_close_code a1" "c_remote_close_reason b1 = c_local_close_reason a1"
    using close_answered [OF d(1-2) d(3) [unfolded if_P [OF assms(10)]] w(9) assms(10), of "b\<lparr>c_processor := Some (Processor13 h)\<rparr>" h env_b] assms(6,7) by auto
  obtain k e where e: "msg_opcode e = Close" "extract_code (msg_payload e) = (c_local_close_code b1, None)"
    "extract_reason (msg_payload e) = (c_local_close_reason b1, if validate (c_local_close_reason b1) then None else Some (Lib E_invalid_utf8))"
    "handle_read_frame env_a None (wire v) a1 =
      (case process_control_frame env_a e (a1\<lparr>c_processor := Some (Processor13 k)\<rparr>) of
         None \<Rightarrow> Some Undefined | Some c' \<Rightarrow> Some (Done (read_frame c')))"
    by (rule close_frame_read [OF b1(2) la roles(2)])
  let ?a = "a1\<lparr>c_processor := Some (Processor13 k), c_remote_close_code := c_local_close_code b1,
    c_remote_close_reason := c_local_close_reason b1, c_was_clean := True\<rparr>"
  let ?a2 = "if c_is_server a then terminate None ?a else ?a"
  have "process_control_frame env_a e (a1\<lparr>c_processor := Some (Processor13 k)\<rparr>) = Some ?a2"
    using e(1-3) b1(8) w(4-6) by (simp add: process_control_frame_def process_close_def)
  then have run: "handle_read_frame env_a None (wire v) a1 = Some (Done (read_frame ?a2))" using e(4) by simp
  have clean: "c_was_clean (terminate None c) = c_was_clean c" "c_remote_close_code (terminate None c) = c_remote_close_code c"
    "c_remote_close_reason (terminate None c) = c_remote_close_reason c" for c
    by (simp_all add: terminate_def cancel_handshake_timer_def cancel_timer_def start_op_def Let_def
        split: option.split session_state.split)
  show ?thesis
    by (rule exI [of _ w], rule exI [of _ "read_frame b1"], rule exI [of _ answer], rule exI [of _ "read_frame ?a2"])
      (use run clean w(2-4) b1(1,3-10) d(4) in simp)
qed

definition open_client :: connection where
  "open_client = (make_connection False [] 0 0 0 1000)\<lparr>c_state := Open, c_internal_state := PROCESS_CONNECTION,
     c_processor := Some (Processor13 (make_hybi13 False 1000 False ()))\<rparr>"

lemma open_ends:
  "listening open_client" "c_state open_client = Open" "c_send_queue open_client = []" "\<not> c_was_clean open_client"
  "listening open_server" "c_state open_server = Open" "c_send_queue open_server = []" "\<not> c_was_clean open_server"
  "c_is_server open_server \<longleftrightarrow> \<not> c_is_server open_client" "\<not> c_is_server open_client"
  by (simp_all add: listening_server)
    (simp_all add: open_client_def open_server_def listening_def make_connection_def make_hybi13_def reset_headers_def idle_def
      BASIC_HEADER_LENGTH_def MAX_EXTENDED_HEADER_LENGTH_def)

lemma client_closes:
  assumes "sendable_close code (take 123 reason)" "code \<noteq> status_blank"
  shows "\<exists>a1. close quiet_env code reason open_client = Some (None, a1) \<and>
    c_local_close_code a1 = code \<and> c_local_close_reason a1 = take 123 reason"
proof -
  let ?h = "make_hybi13 False 1000 False ()"
  have h: "c_processor open_client = Some (Processor13 ?h)" by (simp add: open_client_def)
  have "\<not> s_silent_close quiet_env" by (simp add: quiet_env_def)
  then have i: "c_local_close_code (set_close_info quiet_env code (take 123 reason) False open_client) = code"
    "c_local_close_reason (set_close_info quiet_env code (take 123 reason) False open_client) = take 123 reason"
    using assms(2) by (simp_all add: set_close_info_def)
  show ?thesis
    using close_frame_sent(1) [OF h, of quiet_env code "take 123 reason" False "status_terminal code"] i assms(1) open_ends(2)
    by (auto simp: close_def close_reason_size_def)
qed

theorem closing_handshake_witness:
  "\<exists>a1 w b1 answer a2. close quiet_env 1001 [0x62, 0x79, 0x65] open_client = Some (None, a1) \<and>
    handle_read_frame quiet_env None (wire w) open_server = Some (Done b1) \<and> c_remote_close_code b1 = 1001 \<and>
    c_remote_close_reason b1 = [0x62, 0x79, 0x65] \<and> c_send_queue b1 = [answer] \<and> msg_terminal answer \<and>
    handle_read_frame quiet_env None (wire answer) a1 = Some (Done a2) \<and> c_state a2 = Closing \<and> c_was_clean a2"
proof -
  have ok: "sendable_close 1001 (take 123 [0x62, 0x79, 0x65])" "(1001 :: u16) \<noteq> status_blank" "validate [0x62, 0x79, 0x65]"
    by code_simp+
  obtain a1 where a1: "close quiet_env 1001 [0x62, 0x79, 0x65] open_client = Some (None, a1)"
    "c_local_close_code a1 = 1001" "c_local_close_reason a1 = [0x62, 0x79, 0x65]"
    using client_closes [OF ok(1,2)] by auto
  have v: "validate (c_local_close_reason a1)" using a1(3) ok(3) by simp
  show ?thesis
    using closing_handshake [OF open_ends(1-7,9) a1(1) v, of quiet_env] a1 open_ends(9,10) by auto
qed

text \<open>
  \<^verbatim>\<open>close\<close> cuts a reason at 123 octets, where a character of UTF-8 may end up cut in two. The peer then takes the
  frame for a protocol error: it answers with the code 1002 and not with the code of the frame.
\<close>

theorem cut_reason_refused:
  assumes "listening a" "c_state a = Open" "c_send_queue a = []"
    and "listening b" "c_state b = Open" "c_send_queue b = []" "c_is_server b \<longleftrightarrow> \<not> c_is_server a"
    and "\<not> s_drop_on_protocol_error env_b" "\<not> s_silent_close env_b"
    and "close env_a code reason a = Some (None, a1)" "\<not> validate (c_local_close_reason a1)"
  shows "\<exists>w b1. c_send_queue a1 = [w] \<and> handle_read_frame env_b None (wire w) b = Some (Done b1) \<and>
    c_local_close_code b1 = status_protocol_error \<and> c_local_close_reason b1 = octets ''Invalid close reason''"
proof -
  let ?tr = "take close_reason_size reason"
  let ?i = "set_close_info env_a code ?tr False a"
  have sent: "send_close_frame env_a code ?tr False (status_terminal code) a = Some (None, a1)"
    using assms(2,10) by (simp add: close_def)
  obtain g where g: "c_processor a = Some (Processor13 g)" using assms(1) by (auto simp: listening_def)
  have ok: "sendable_close (c_local_close_code ?i) (c_local_close_reason ?i)"
    using sent close_frame_sent(2) [OF g, of env_a code ?tr False "status_terminal code"] by fastforce
  obtain w w0 where w: "prepare_close (c_is_server a) (s_rng env_a (c_draws a)) (c_local_close_code a1) (c_local_close_reason a1)
        (Some (make_message (s_stack_opcode env_a) 0)) = (None, Some w0)" "wire w = wire w0" "c_send_queue a1 = [w]"
    using close_frame_sent(1) [OF g ok, of "status_terminal code"] sent ok assms(3) by auto
  obtain h d where d: "msg_opcode d = Close" "extract_code (msg_payload d) = (c_local_close_code a1, None)"
    "extract_reason (msg_payload d) = (c_local_close_reason a1, if validate (c_local_close_reason a1) then None else Some (Lib E_invalid_utf8))"
    "handle_read_frame env_b None (wire w0) b =
      (case process_control_frame env_b d (b\<lparr>c_processor := Some (Processor13 h)\<rparr>) of
         None \<Rightarrow> Some Undefined | Some c' \<Rightarrow> Some (Done (read_frame c')))"
    by (rule close_frame_read [OF w(1) assms(4,7)])
  let ?b = "b\<lparr>c_processor := Some (Processor13 h), c_remote_close_code := c_local_close_code a1,
    c_remote_close_reason := c_local_close_reason a1\<rparr>"
  let ?j = "set_close_info env_b status_protocol_error (octets ''Invalid close reason'') True ?b"
  have j: "c_local_close_code ?j = status_protocol_error" "c_local_close_reason ?j = octets ''Invalid close reason''"
    "sendable_close status_protocol_error (octets ''Invalid close reason'')"
  proof -
    show "sendable_close status_protocol_error (octets ''Invalid close reason'')" by code_simp
    have "status_protocol_error \<noteq> status_blank" by code_simp
    then show "c_local_close_code ?j = status_protocol_error" "c_local_close_reason ?j = octets ''Invalid close reason''"
      using assms(9) by (simp_all add: set_close_info_def)
  qed
  obtain b1 where b1: "send_close_frame env_b status_protocol_error (octets ''Invalid close reason'') True (c_is_server b) ?b = Some (None, b1)"
    "c_local_close_code b1 = status_protocol_error" "c_local_close_reason b1 = octets ''Invalid close reason''"
    using close_frame_sent(1) [of ?b h env_b status_protocol_error "octets ''Invalid close reason''" True "c_is_server b"] j by auto
  have "process_control_frame env_b d (b\<lparr>c_processor := Some (Processor13 h)\<rparr>) = Some b1"
    using d(1-3) assms(5,8,11) b1(1) by (simp add: process_control_frame_def process_close_def refuse_close_def send_close_ack_def)
  then show ?thesis using d(4) w(2,3) b1(2,3) by auto
qed

text \<open>A reason of 124 octets whose last character takes two.\<close>

definition long_reason :: bytes where "long_reason = replicate 122 0x61 @ [0xC3, 0xA9]"

theorem cut_reason_refused_witness:
  "validate long_reason \<and> (\<exists>a1 w b1. close quiet_env 1001 long_reason open_client = Some (None, a1) \<and>
    handle_read_frame quiet_env None (wire w) open_server = Some (Done b1) \<and> c_local_close_code b1 = status_protocol_error)"
proof
  show "validate long_reason" by code_simp
  have ok: "sendable_close 1001 (take 123 long_reason)" "(1001 :: u16) \<noteq> status_blank" "\<not> validate (take 123 long_reason)"
    by code_simp+
  obtain a1 where a1: "close quiet_env 1001 long_reason open_client = Some (None, a1)" "c_local_close_reason a1 = take 123 long_reason"
    using client_closes [OF ok(1,2)] by blast
  have "\<not> s_drop_on_protocol_error quiet_env" "\<not> s_silent_close quiet_env" "\<not> validate (c_local_close_reason a1)"
    using a1(2) ok(3) by (simp_all add: quiet_env_def)
  from cut_reason_refused [OF open_ends(1-3,5-7,9) this(1,2) a1(1) this(3)] a1(1)
  show "\<exists>a1 w b1. close quiet_env 1001 long_reason open_client = Some (None, a1) \<and>
    handle_read_frame quiet_env None (wire w) open_server = Some (Done b1) \<and> c_local_close_code b1 = status_protocol_error"
    by blast
qed

end
