(* ===== verification/Connection_Handshake.thy ===== *)
theory Connection_Handshake
  imports Connection_Exchange
begin

text \<open>
  The opening handshake of two connections: what the client sends is what the server reads, and both end open, each
  with a reader that waits for the first frame of the other.
\<close>

subsection \<open>The two ends\<close>

text \<open>A client for a URI whose transport is about to be ready, and a server whose transport has just been accepted.\<close>

definition connecting_client :: "uri \<Rightarrow> string list \<Rightarrow> connection \<Rightarrow> bool" where
  "connecting_client u names c \<longleftrightarrow>
     \<not> c_is_server c \<and> c_state c = Connecting \<and> c_internal_state c = TRANSPORT_INIT \<and> c_uri c = Some u \<and>
     c_request c = make_request \<and> c_response c = make_response \<and> c_requested_subprotocols c = names \<and>
     c_user_agent c = [] \<and> c_handlers c = [] \<and> c_read_flag c"

definition accepting_server :: "connection \<Rightarrow> bool" where
  "accepting_server c \<longleftrightarrow>
     c_is_server c \<and> c_state c = Connecting \<and> c_internal_state c = READ_HTTP_REQUEST \<and>
     c_request c = make_request \<and> c_response c = make_response \<and> c_requested_subprotocols c = [] \<and> c_subprotocol c = [] \<and>
     c_user_agent c = [] \<and> c_handlers c = [] \<and> c_read_flag c"

lemma octets_back [simp]: "octets_text (octets s) = s"
proof -
  have "unat (of_char c :: u8) = of_char c" for c
    using unat_of_nat [where 'a = 8, of "of_char c"] by (simp only: of_nat_of_char) simp
  then show ?thesis by (simp add: octets_text_def octets_def comp_def)
qed

lemma length_octets [simp]: "length (octets s) = length s"
  by (simp add: octets_def)

lemma no_notify [simp]: "c_handlers c = [] \<Longrightarrow> notify env cb c = c"
  by (simp add: notify_def has_handler_def)

lemma started_op [simp]: "op \<in> set (c_outstanding (start_op op c))"
  by (simp add: start_op_def)

subsection \<open>The client\<close>

definition client_draws :: "env \<Rightarrow> connection \<Rightarrow> u32 list" where
  "client_draws env c = List.map (\<lambda>i. s_rng env (c_draws c + i)) [0..<4]"

lemma no_user_agent:
  "get_header ''User-Agent'' (client_request rnd u names) = []"
  "remove_header ''User-Agent'' (client_request rnd u names) = client_request rnd u names"
  using extension_order name_order
  by (simp_all add: client_request_def client_headers_def get_header_def remove_header_def map_erase_def)

lemma timer_fields [simp]:
  "c_uri (set_handshake_timer env n t c) = c_uri c" "c_request (set_handshake_timer env n t c) = c_request c"
  "c_response (set_handshake_timer env n t c) = c_response c" "c_handlers (set_handshake_timer env n t c) = c_handlers c"
  "c_read_flag (set_handshake_timer env n t c) = c_read_flag c"
  by (simp_all add: set_handshake_timer_def set_timer_def start_op_def Let_def)

lemma start_op_fields [simp]:
  "c_uri (start_op op c) = c_uri c" "c_request (start_op op c) = c_request c" "c_response (start_op op c) = c_response c"
  "c_handlers (start_op op c) = c_handlers c" "c_read_flag (start_op op c) = c_read_flag c"
  "c_processor (start_op op c) = c_processor c" "c_internal_state (start_op op c) = c_internal_state c"
  "c_is_server (start_op op c) = c_is_server c" "c_requested_subprotocols (start_op op c) = c_requested_subprotocols c"
  "c_buf (start_op op c) = c_buf c"
  by (simp_all add: start_op_def)

lemma take_op_fields [simp]:
  "c_uri (take_op op c) = c_uri c" "c_request (take_op op c) = c_request c" "c_response (take_op op c) = c_response c"
  "c_handlers (take_op op c) = c_handlers c" "c_read_flag (take_op op c) = c_read_flag c"
  "c_processor (take_op op c) = c_processor c" "c_internal_state (take_op op c) = c_internal_state c"
  "c_is_server (take_op op c) = c_is_server c" "c_requested_subprotocols (take_op op c) = c_requested_subprotocols c"
  "c_buf (take_op op c) = c_buf c" "c_state (take_op op c) = c_state c"
  by (simp_all add: take_op_def)

lemma cancel_fields [simp]:
  "c_uri (cancel_handshake_timer c) = c_uri c" "c_request (cancel_handshake_timer c) = c_request c"
  "c_response (cancel_handshake_timer c) = c_response c" "c_handlers (cancel_handshake_timer c) = c_handlers c"
  "c_read_flag (cancel_handshake_timer c) = c_read_flag c" "c_processor (cancel_handshake_timer c) = c_processor c"
  "c_internal_state (cancel_handshake_timer c) = c_internal_state c" "c_is_server (cancel_handshake_timer c) = c_is_server c"
  "c_requested_subprotocols (cancel_handshake_timer c) = c_requested_subprotocols c" "c_buf (cancel_handshake_timer c) = c_buf c"
  "c_state (cancel_handshake_timer c) = c_state c"
  by (simp_all add: cancel_handshake_timer_def cancel_timer_def split: option.split)

lemma make_hybi13_fields:
  "pmd_enabled (make_hybi13 srv mx en z) = en" "m_server (make_hybi13 srv mx en z) = srv"
  by (simp_all add: make_hybi13_def reset_headers_def)

lemma client_sends:
  assumes "connecting_client u names a" "s_client_version env = 13"
  defines "req \<equiv> client_request (client_draws env a) u names"
  shows "\<exists>a1. handle_transport_init env None a = Done a1 \<and> Op_write_request (request_raw req) \<in> set (c_outstanding a1) \<and>
    c_internal_state a1 = WRITE_HTTP_REQUEST \<and> c_state a1 = Connecting \<and> c_request a1 = req \<and> c_response a1 = make_response \<and>
    \<not> c_is_server a1 \<and> c_handlers a1 = [] \<and> c_read_flag a1 \<and>
    c_processor a1 = Some (Processor13 (make_hybi13 False (c_max_message_size a) False ()))"
  using assms(1,2) no_user_agent
  by (simp add: handle_transport_init_def connecting_client_def send_http_request_def get_processor_def Let_def
      client_handshake_made client_draws_def req_def)

text \<open>A connection that has just opened reads on.\<close>

lemma idle_reads:
  assumes "c_internal_state c = PROCESS_CONNECTION" "c_read_flag c"
  shows "handle_read_frame env None [] c = Some (Done (start_op Op_read_frame c))"
  using assms by (simp add: handle_read_frame_def atomic_state_check_def read_loop.simps read_frame_def)

lemma client_opens:
  assumes "c_internal_state c = READ_HTTP_RESPONSE" "c_state c = Connecting" "c_response c = make_response" "\<not> c_is_server c"
    and "c_request c = client_request rnd u names" "c_handlers c = []" "c_read_flag c"
    and "c_processor c = Some (Processor13 (make_hybi13 False mx False ()))"
  shows "\<exists>c'. handle_read_http_response env None (octets (response_raw (server_answer rnd))) c = Some (Done c') \<and>
    c_state c' = Open \<and> listening c' \<and> Op_read_frame \<in> set (c_outstanding c')"
proof -
  note read = server_answer_read(1,2) [of rnd] server_answer_read(3) [of rnd u names]
  let ?res = "(server_answer rnd)\<lparr>r_state := BODY\<rparr>"
  let ?d = "(cancel_handshake_timer (c\<lparr>c_response := ?res\<rparr>))\<lparr>c_internal_state := PROCESS_CONNECTION, c_state := Open, c_buf := []\<rparr>"
  have "handle_read_http_response env None (octets (response_raw (server_answer rnd))) c = handle_read_frame env None [] ?d"
    using assms read
    by (simp add: handle_read_http_response_def atomic_state_check_def atomic_state_change_both_def Let_def)
  then show ?thesis
    using idle_reads [of ?d env] assms idle_make_hybi13 [of False mx False "()"] make_hybi13_fields [of False mx False "()"]
    by (simp add: listening_def)
qed

subsection \<open>The server\<close>

text \<open>A host without a colon and a port other than 0: the server reads the host and the port the client wrote.\<close>

lemma rfind_last: "c \<notin> set t \<Longrightarrow> rfind c (s @ c # t) = Some (length s)"
proof -
  assume "c \<notin> set t"
  then have "takeWhile (\<lambda>d. d \<noteq> c) (rev t) = rev t" by (auto simp: takeWhile_eq_all_conv)
  then show ?thesis by (simp add: rfind_def takeWhile_tail del: takeWhile_eq_all_conv)
qed

lemma rfind_colon:
  assumes "CHR '':'' \<notin> set d" "CHR '']'' \<notin> set d"
  shows "rfind CHR '':'' (h @ CHR '':'' # d) = Some (length h)"
    and "(case rfind CHR '']'' (h @ CHR '':'' # d) of None \<Rightarrow> False | Some brace \<Rightarrow> brace > length h) = False"
proof -
  show "rfind CHR '':'' (h @ CHR '':'' # d) = Some (length h)" by (rule rfind_last [OF assms(1)])
  show "(case rfind CHR '']'' (h @ CHR '':'' # d) of None \<Rightarrow> False | Some brace \<Rightarrow> brace > length h) = False"
  proof (cases "CHR '']'' \<in> set h")
    case True
    then obtain s t where h: "h = s @ CHR '']'' # t" "CHR '']'' \<notin> set t" using split_list_last by metis
    have "rfind CHR '']'' (s @ CHR '']'' # (t @ CHR '':'' # d)) = Some (length s)"
      by (rule rfind_last) (use h(2) assms(2) in simp)
    then show ?thesis by (simp add: h(1))
  qed (use assms(2) in \<open>simp add: rfind_def\<close>)
qed

lemma host_read:
  assumes "CHR '':'' \<notin> set (m_host u)" "m_port u \<noteq> 0" "get_header ''Host'' r = get_host_port u"
  shows "m_valid (get_uri (m_secure u) r) \<and> m_host (get_uri (m_secure u) r) = m_host u \<and> m_port (get_uri (m_secure u) r) = m_port u"
proof -
  have sec: "scheme_secure (if m_secure u then ''wss'' else ''ws'') = m_secure u" by (simp add: scheme_secure_def)
  show ?thesis
  proof (cases "m_port u = default_port (m_secure u)")
    case True
    then show ?thesis
      using assms sec by (simp add: get_uri_def get_uri_from_host_def get_host_port_def rfind_def uri_scheme_default_def
          uri_scheme_parts_def)
  next
    case False
    let ?d = "decimal (unat (m_port u))"
    have port: "get_port_from_string (m_secure u) ?d = (m_port u, False)"
      using port_of_decimal assms(2) by (simp add: unat_eq_zero)
    have d: "CHR '':'' \<notin> set ?d" "CHR '']'' \<notin> set ?d"
      using decimal_digits [of "unat (m_port u)"] by (auto simp: list_all_iff is_digit_def)
    show ?thesis
      using assms(3) False rfind_colon [OF d, of "m_host u"] sec port
      by (simp add: get_uri_def get_uri_from_host_def get_host_port_def get_authority_def get_port_str_def uri_scheme_port_string_def)
  qed
qed

lemma answer_fields:
  "m_status_code (server_answer rnd) = status_value S_switching_protocols" "get_header ''Server'' (server_answer rnd) = []"
  "remove_header ''Server'' (server_answer rnd) = server_answer rnd" "set_version ''HTTP/1.1'' (server_answer rnd) = server_answer rnd"
  using name_order extension_order
  by (simp_all add: server_answer_def set_version_def set_status_def get_header_def remove_header_def map_erase_def)

lemma server_answer_from_status:
  "set_version ''HTTP/1.1'' ((set_status (status_value S_switching_protocols) make_response)\<lparr>m_headers := m_headers (server_answer rnd)\<rparr>) =
   server_answer rnd"
  by (simp add: server_answer_def set_version_def set_status_def make_response_def)

lemma no_extensions:
  assumes "get_header ''Sec-WebSocket-Extensions'' r = []" "map_get to_lower (m_headers r) ''Sec-WebSocket-Extensions'' = None" "s_enable_extensions env"
  shows "processor_negotiate env (Processor13 h) r = (None, [])"
  using assms(2,3) by (simp add: negotiate_extensions_def get_header_as_plist_def)

lemma server_answers:
  fixes rnd :: "u32 list" and u :: uri and names :: "string list"
  defines "q \<equiv> octets (request_raw (client_request rnd u names))"
  assumes "accepting_server b" "s_enable_extensions env" "length rnd = 4" "sendable u" "list_all is_token names"
    and "length q \<le> max_header_size" "length q \<le> s_read_buffer_size env"
    and "CHR '':'' \<notin> set (m_host u)" "m_port u \<noteq> 0" "s_secure env = m_secure u"
  shows "\<exists>b1. handle_read_handshake env None q b = Done b1 \<and>
    Op_write_response (response_raw (server_answer rnd)) \<in> set (c_outstanding b1) \<and> c_internal_state b1 = PROCESS_HTTP_REQUEST \<and>
    c_state b1 = Connecting \<and> c_response b1 = server_answer rnd \<and> c_is_server b1 \<and> c_handlers b1 = [] \<and> c_read_flag b1 \<and>
    c_requested_subprotocols b1 = names \<and> c_buf b1 = [] \<and>
    (\<exists>w. c_uri b1 = Some w \<and> m_host w = m_host u \<and> m_port w = m_port u) \<and>
    c_processor b1 = Some (Processor13 (make_hybi13 True (c_max_message_size b) False ()))"
proof -
  let ?r = "(client_request rnd u names)\<lparr>m_ready := True\<rparr>"
  have small: "length (request_raw (client_request rnd u names)) \<le> max_header_size" using assms(7) by (simp add: q_def)
  note read = client_request_read [OF assms(4-6) small]
  note b = assms(2) [unfolded accepting_server_def]
  have none: "map_get to_lower (m_headers ?r) ''Sec-WebSocket-Extensions'' = None"
    using extension_order name_order by (simp add: client_request_def client_headers_def)
  note neg = no_extensions [OF read(9) none assms(3)]
  note uri = host_read [OF assms(9,10) read(8)]
  let ?p = "Processor13 (make_hybi13 True (c_max_message_size b) False ())"
  let ?c = "b\<lparr>c_request := ?r, c_processor := Some ?p, c_buf := [], c_internal_state := PROCESS_HTTP_REQUEST\<rparr>"
  let ?d = "?c\<lparr>c_uri := Some (get_uri (m_secure u) ?r), c_requested_subprotocols := names,
    c_response := (set_status (status_value S_switching_protocols) make_response)\<lparr>m_headers := m_headers (server_answer rnd)\<rparr>\<rparr>"
  have switching: "m_status_code (set_status (status_value S_switching_protocols) make_response) = status_value S_switching_protocols"
    by (simp add: set_status_def)
  have "m_headers (set_status (status_value S_switching_protocols) make_response) = []"
    by (simp add: set_status_def make_response_def)
  note made = server_answer_made [OF read(7) this]
  have answer: "process_handshake_request env ?c = Done ?d"
    using read(3,5,6) neg uri b made assms(11)
    by (simp add: process_handshake_request_def answer_handshake_def has_handler_def respond_status_def)
  have "initialize_processor env (b\<lparr>c_request := ?r\<rparr>) = (True, b\<lparr>c_request := ?r, c_processor := Some ?p\<rparr>)"
    using read(3,4) b by (simp add: initialize_processor_def get_processor_def)
  then have "request_complete env q (length q) (b\<lparr>c_request := ?r\<rparr>) = Done (send_http_response ?d)"
    using answer b by (simp add: request_complete_def atomic_state_change_def)
  moreover have "handle_read_handshake env None q b = request_complete env q (length q) (b\<lparr>c_request := ?r\<rparr>)"
    using read(1,2) b assms(8) by (simp add: handle_read_handshake_def atomic_state_check_def q_def)
  moreover have "send_http_response ?d = start_op (Op_write_response (response_raw (server_answer rnd)))
      (?d\<lparr>c_response := server_answer rnd, c_handshake_buffer := response_raw (server_answer rnd)\<rparr>)"
    using server_answer_from_status [of rnd] answer_fields [of rnd] switching b
    by (simp add: send_http_response_def Let_def)
  ultimately show ?thesis using b uri by simp
qed

lemma server_opens:
  assumes "c_internal_state c = PROCESS_HTTP_REQUEST" "c_state c = Connecting" "c_response c = server_answer rnd" "c_is_server c"
    and "c_handlers c = []" "c_read_flag c" "c_buf c = []"
    and "c_processor c = Some (Processor13 (make_hybi13 True mx False ()))"
  shows "\<exists>c'. handle_send_http_response env None c = Some (Done c') \<and>
    c_state c' = Open \<and> listening c' \<and> Op_read_frame \<in> set (c_outstanding c') \<and>
    c_uri c' = c_uri c \<and> c_requested_subprotocols c' = c_requested_subprotocols c"
proof -
  let ?d = "(cancel_handshake_timer c)\<lparr>c_internal_state := PROCESS_CONNECTION, c_state := Open\<rparr>"
  have "handle_send_http_response env None c = handle_read_frame env None [] ?d"
    using assms answer_fields(1) [of rnd]
    by (simp add: handle_send_http_response_def atomic_state_check_def atomic_state_change_both_def Let_def)
  then show ?thesis
    using idle_reads [of ?d env] assms idle_make_hybi13 [of True mx False "()"] make_hybi13_fields [of True mx False "()"]
    by (simp add: listening_def)
qed

text \<open>The write of the request has succeeded: the client waits for the answer.\<close>

lemma client_waits:
  assumes "c_internal_state c = WRITE_HTTP_REQUEST"
  shows "handle_send_http_request None c = Done (start_op Op_read_response (c\<lparr>c_internal_state := READ_HTTP_RESPONSE\<rparr>))"
  using assms by (simp add: handle_send_http_request_def atomic_state_check_def atomic_state_change_def)

subsection \<open>Both ends\<close>


definition example_client :: connection where
  "example_client = (make_connection False [] 0 0 0 100)\<lparr>c_internal_state := TRANSPORT_INIT,
     c_uri := Some (uri_scheme_parts ''ws'' ''h'' 80 ''/x''), c_requested_subprotocols := [''chat'']\<rparr>"

definition example_server :: connection where
  "example_server = (make_connection True [] 0 0 0 100)\<lparr>c_internal_state := READ_HTTP_REQUEST\<rparr>"

lemma example_ends:
  "connecting_client (uri_scheme_parts ''ws'' ''h'' 80 ''/x'') [''chat''] example_client" "accepting_server example_server"
  by (simp_all add: connecting_client_def accepting_server_def example_client_def example_server_def make_connection_def)

lemma example_request_size:
  assumes "length rnd = 4"
  shows "length (request_raw (client_request rnd (uri_scheme_parts ''ws'' ''h'' 80 ''/x'') [''chat''])) \<le> 1000"
proof -
  have "get_host_port (uri_scheme_parts ''ws'' ''h'' 80 ''/x'') = ''h''" "m_resource (uri_scheme_parts ''ws'' ''h'' 80 ''/x'') = ''/x''"
    by code_simp+
  then show ?thesis
    using client_key_text [OF assms]
    by (simp add: client_request_def request_raw_def raw_headers_def client_headers_def make_request_def header_delimiter_def)
qed


end
