(* ===== verification/Permessage_Deflate.thy ===== *)
theory Permessage_Deflate
  imports Handshake Uri Hybi13
begin

text \<open>
  The permessage-deflate extension (\<^verbatim>\<open>extensions/permessage_deflate/enabled.hpp\<close>): its settings, the negotiation of a
  server, and the loops around zlib. The library zlib is the argument \<open>z\<close>: a record of the functions the code
  calls on a stream, with the octets one call writes.
\<close>

subsection \<open>Errors and settings\<close>

datatype pmd_error =
    D_general | D_invalid_attributes | D_invalid_attribute_value | D_invalid_mode | D_unsupported_attributes
  | D_invalid_max_window_bits | D_zlib_error | D_uninitialized

fun pmd_error_value :: "pmd_error \<Rightarrow> nat" where
  "pmd_error_value D_general = 1"
| "pmd_error_value D_invalid_attributes = 2"
| "pmd_error_value D_invalid_attribute_value = 3"
| "pmd_error_value D_invalid_mode = 4"
| "pmd_error_value D_unsupported_attributes = 5"
| "pmd_error_value D_invalid_max_window_bits = 6"
| "pmd_error_value D_zlib_error = 7"
| "pmd_error_value D_uninitialized = 8"

definition pmd_message :: "nat \<Rightarrow> string" where
  "pmd_message v =
     (if v = 1 then ''Generic permessage-compress error''
      else if v = 2 then ''Invalid extension attributes''
      else if v = 3 then ''Invalid extension attribute value''
      else if v = 4 then ''Invalid permessage-deflate negotiation mode''
      else if v = 5 then ''Unsupported extension attributes''
      else if v = 6 then ''Invalid value for max_window_bits''
      else if v = 7 then ''A zlib function returned an error''
      else if v = 8 then ''Object must be initialized before use''
      else ''Unknown permessage-compress error'')"

definition default_max_window_bits :: u8 where "default_max_window_bits = 15"
definition min_max_window_bits :: u8 where "min_max_window_bits = 8"
definition max_max_window_bits :: u8 where "max_max_window_bits = 15"

text \<open>A mode outside the enumeration can be passed by a cast; the code has a branch for it.\<close>

datatype mode = Mode_accept | Mode_decline | Mode_largest | Mode_smallest | Mode_other

record ('d, 'i) deflate =
  d_enabled :: bool
  d_s2c_no_context_takeover :: bool
  d_c2s_no_context_takeover :: bool
  d_s2c_max_window_bits :: u8
  d_c2s_max_window_bits :: u8
  d_s2c_mode :: mode
  d_c2s_mode :: mode
  d_initialized :: bool
  d_compress_buffer_size :: nat
  d_dstate :: 'd
  d_istate :: 'i

definition make_deflate :: "'d \<Rightarrow> 'i \<Rightarrow> ('d, 'i) deflate" where
  "make_deflate d i =
     \<lparr>d_enabled = False, d_s2c_no_context_takeover = False, d_c2s_no_context_takeover = False,
      d_s2c_max_window_bits = 15, d_c2s_max_window_bits = 15, d_s2c_mode = Mode_accept, d_c2s_mode = Mode_accept,
      d_initialized = False, d_compress_buffer_size = 16384, d_dstate = d, d_istate = i\<rparr>"

text \<open>
  One call of \<^verbatim>\<open>deflate\<close> or \<^verbatim>\<open>inflate\<close> with room for \<open>n\<close> octets gives the octets it wrote; the input functions set the
  fields of the stream the code sets before the loop.
\<close>

datatype inflate_result = Inflate_ok | Need_dict | Data_error | Mem_error

record ('d, 'i) zlib =
  z_deflate_init :: "u8 \<Rightarrow> 'd \<Rightarrow> bool \<times> 'd"
  z_inflate_init :: "u8 \<Rightarrow> 'i \<Rightarrow> bool \<times> 'i"
  z_deflate_input :: "bytes \<Rightarrow> 'd \<Rightarrow> 'd"
  z_inflate_input :: "bytes \<Rightarrow> 'i \<Rightarrow> 'i"
  z_deflate :: "nat \<Rightarrow> 'd \<Rightarrow> bytes \<times> 'd"
  z_inflate :: "nat \<Rightarrow> 'i \<Rightarrow> inflate_result \<times> bytes \<times> 'i"

definition deflate_init :: "('d, 'i) zlib \<Rightarrow> ('d, 'i) deflate \<Rightarrow> pmd_error option \<times> ('d, 'i) deflate" where
  "deflate_init z e =
     (let (ok, d) = z_deflate_init z (d_s2c_max_window_bits e) (d_dstate e); e = e\<lparr>d_dstate := d\<rparr> in
      if \<not> ok then (Some D_zlib_error, e)
      else let (ok, i) = z_inflate_init z (d_c2s_max_window_bits e) (d_istate e); e = e\<lparr>d_istate := i\<rparr> in
        if \<not> ok then (Some D_zlib_error, e) else (None, e\<lparr>d_initialized := True\<rparr>))"

definition deflate_is_implemented :: "('d, 'i) deflate \<Rightarrow> bool" where "deflate_is_implemented e \<longleftrightarrow> True"
definition deflate_is_enabled :: "('d, 'i) deflate \<Rightarrow> bool" where "deflate_is_enabled e \<longleftrightarrow> d_enabled e"

definition enable_s2c_no_context_takeover :: "('d, 'i) deflate \<Rightarrow> ('d, 'i) deflate" where
  "enable_s2c_no_context_takeover e = e\<lparr>d_s2c_no_context_takeover := True\<rparr>"
definition enable_c2s_no_context_takeover :: "('d, 'i) deflate \<Rightarrow> ('d, 'i) deflate" where
  "enable_c2s_no_context_takeover e = e\<lparr>d_c2s_no_context_takeover := True\<rparr>"

definition set_s2c_max_window_bits :: "u8 \<Rightarrow> mode \<Rightarrow> ('d, 'i) deflate \<Rightarrow> pmd_error option \<times> ('d, 'i) deflate" where
  "set_s2c_max_window_bits bits m e =
     (if bits < min_max_window_bits \<or> bits > max_max_window_bits then (Some D_invalid_max_window_bits, e)
      else (None, e\<lparr>d_s2c_max_window_bits := bits, d_s2c_mode := m\<rparr>))"

definition set_c2s_max_window_bits :: "u8 \<Rightarrow> mode \<Rightarrow> ('d, 'i) deflate \<Rightarrow> pmd_error option \<times> ('d, 'i) deflate" where
  "set_c2s_max_window_bits bits m e =
     (if bits < min_max_window_bits \<or> bits > max_max_window_bits then (Some D_invalid_max_window_bits, e)
      else (None, e\<lparr>d_c2s_max_window_bits := bits, d_c2s_mode := m\<rparr>))"

definition generate_offer :: "('d, 'i) deflate \<Rightarrow> string" where "generate_offer e = []"
definition validate_offer :: "attribute_list \<Rightarrow> ('d, 'i) deflate \<Rightarrow> pmd_error option" where
  "validate_offer response e = Some D_general"

subsection \<open>Negotiation\<close>

definition generate_response :: "('d, 'i) deflate \<Rightarrow> string" where
  "generate_response e =
     ''permessage-deflate'' @
     (if d_s2c_no_context_takeover e then ''; s2c_no_context_takeover'' else []) @
     (if d_c2s_no_context_takeover e then ''; c2s_no_context_takeover'' else []) @
     (if d_s2c_max_window_bits e < default_max_window_bits
      then ''; s2c_max_window_bits='' @ decimal (unat (d_s2c_max_window_bits e)) else []) @
     (if d_c2s_max_window_bits e < default_max_window_bits
      then ''; c2s_max_window_bits='' @ decimal (unat (d_c2s_max_window_bits e)) else [])"

text \<open>What each attribute of an offer does: an error, or none, and the settings after it.\<close>

definition negotiate_s2c_takeover :: "string \<Rightarrow> ('d, 'i) deflate \<Rightarrow> pmd_error option \<times> ('d, 'i) deflate" where
  "negotiate_s2c_takeover val e =
     (if val \<noteq> [] then (Some D_invalid_attribute_value, e) else (None, e\<lparr>d_s2c_no_context_takeover := True\<rparr>))"

definition negotiate_c2s_takeover :: "string \<Rightarrow> ('d, 'i) deflate \<Rightarrow> pmd_error option \<times> ('d, 'i) deflate" where
  "negotiate_c2s_takeover val e =
     (if val \<noteq> [] then (Some D_invalid_attribute_value, e) else (None, e\<lparr>d_c2s_no_context_takeover := True\<rparr>))"

text \<open>The window bits agreed on, from those asked for, those set, and the mode.\<close>

fun settle_bits :: "mode \<Rightarrow> u8 \<Rightarrow> u8 \<Rightarrow> pmd_error option \<times> u8" where
  "settle_bits Mode_decline bits own = (None, default_max_window_bits)"
| "settle_bits Mode_accept bits own = (None, bits)"
| "settle_bits Mode_largest bits own = (None, min bits own)"
| "settle_bits Mode_smallest bits own = (None, min_max_window_bits)"
| "settle_bits Mode_other bits own = (Some D_invalid_mode, default_max_window_bits)"

definition negotiate_s2c_bits :: "string \<Rightarrow> ('d, 'i) deflate \<Rightarrow> pmd_error option \<times> ('d, 'i) deflate" where
  "negotiate_s2c_bits val e =
     (let bits = ucast (atoi val) :: u8 in
      if bits < min_max_window_bits \<or> bits > max_max_window_bits
      then (Some D_invalid_attribute_value, e\<lparr>d_s2c_max_window_bits := default_max_window_bits\<rparr>)
      else let (err, b) = settle_bits (d_s2c_mode e) bits (d_s2c_max_window_bits e)
        in (err, e\<lparr>d_s2c_max_window_bits := b\<rparr>))"

definition negotiate_c2s_bits :: "string \<Rightarrow> ('d, 'i) deflate \<Rightarrow> pmd_error option \<times> ('d, 'i) deflate" where
  "negotiate_c2s_bits val e =
     (let bits = (if val = [] then default_max_window_bits else ucast (atoi val)) :: u8 in
      if val \<noteq> [] \<and> (bits < min_max_window_bits \<or> bits > max_max_window_bits)
      then (Some D_invalid_attribute_value, e\<lparr>d_c2s_max_window_bits := default_max_window_bits\<rparr>)
      else let (err, b) = settle_bits (d_c2s_mode e) bits (d_c2s_max_window_bits e)
        in (err, e\<lparr>d_c2s_max_window_bits := b\<rparr>))"

definition negotiate_attribute :: "string \<times> string \<Rightarrow> ('d, 'i) deflate \<Rightarrow> pmd_error option \<times> ('d, 'i) deflate" where
  "negotiate_attribute kv e =
     (if fst kv = ''s2c_no_context_takeover'' then negotiate_s2c_takeover (snd kv) e
      else if fst kv = ''c2s_no_context_takeover'' then negotiate_c2s_takeover (snd kv) e
      else if fst kv = ''s2c_max_window_bits'' then negotiate_s2c_bits (snd kv) e
      else if fst kv = ''c2s_max_window_bits'' then negotiate_c2s_bits (snd kv) e
      else (Some D_invalid_attributes, e))"

fun negotiate_attributes :: "attribute_list \<Rightarrow> ('d, 'i) deflate \<Rightarrow> pmd_error option \<times> ('d, 'i) deflate" where
  "negotiate_attributes [] e = (None, e)"
| "negotiate_attributes (kv # kvs) e =
     (case negotiate_attribute kv e of
        (Some err, e') \<Rightarrow> (Some err, e')
      | (None, e') \<Rightarrow> negotiate_attributes kvs e')"

definition deflate_negotiate :: "attribute_list \<Rightarrow> ('d, 'i) deflate \<Rightarrow> (pmd_error option \<times> string) \<times> ('d, 'i) deflate" where
  "deflate_negotiate offer e =
     (case negotiate_attributes offer e of
        (Some err, e') \<Rightarrow> ((Some err, []), e')
      | (None, e') \<Rightarrow> let e' = e'\<lparr>d_enabled := True\<rparr> in ((None, generate_response e'), e'))"

subsection \<open>The loops around zlib\<close>

text \<open>Each loop goes on while the buffer was filled; a stream that always fills it keeps the loop running: \<open>None\<close>.\<close>

partial_function (option) compress_loop :: "('d, 'i) zlib \<Rightarrow> nat \<Rightarrow> 'd \<Rightarrow> bytes \<Rightarrow> (bytes \<times> 'd) option" where
  "compress_loop z n d out =
     (case z_deflate z n d of
        (chunk, d') \<Rightarrow> if n - length chunk = 0 then compress_loop z n d' (out @ chunk) else Some (out @ chunk, d'))"

definition compress ::
  "('d, 'i) zlib \<Rightarrow> ('d, 'i) deflate \<Rightarrow> bytes \<Rightarrow> bytes \<Rightarrow> (pmd_error option \<times> bytes \<times> ('d, 'i) deflate) option" where
  "compress z e inp out =
     (if \<not> d_initialized e then Some (Some D_uninitialized, out, e)
      else map_option (\<lambda>(out, d). (None, out, e\<lparr>d_dstate := d\<rparr>))
             (compress_loop z (d_compress_buffer_size e) (z_deflate_input z inp (d_dstate e)) out))"

partial_function (option) decompress_loop ::
  "('d, 'i) zlib \<Rightarrow> nat \<Rightarrow> 'i \<Rightarrow> bytes \<Rightarrow> (pmd_error option \<times> bytes \<times> 'i) option" where
  "decompress_loop z n i out =
     (case z_inflate z n i of
        (res, chunk, i') \<Rightarrow>
          if res \<noteq> Inflate_ok then Some (Some D_zlib_error, out, i')
          else if n - length chunk = 0 then decompress_loop z n i' (out @ chunk) else Some (None, out @ chunk, i'))"

definition decompress ::
  "('d, 'i) zlib \<Rightarrow> ('d, 'i) deflate \<Rightarrow> bytes \<Rightarrow> bytes \<Rightarrow> (pmd_error option \<times> bytes \<times> ('d, 'i) deflate) option" where
  "decompress z e buf out =
     (if \<not> d_initialized e then Some (Some D_uninitialized, out, e)
      else map_option (\<lambda>(err, out, i). (err, out, e\<lparr>d_istate := i\<rparr>))
             (decompress_loop z (d_compress_buffer_size e) (z_inflate_input z buf (d_istate e)) out))"


subsection \<open>The settings an object can have\<close>

text \<open>What the owner of the object can do with it.\<close>

inductive settled :: "('d, 'i) deflate \<Rightarrow> bool" where
  settled_new: "settled (make_deflate d i)"
| settled_s2c: "settled e \<Longrightarrow> settled (enable_s2c_no_context_takeover e)"
| settled_c2s: "settled e \<Longrightarrow> settled (enable_c2s_no_context_takeover e)"
| settled_s2c_bits: "settled e \<Longrightarrow> settled (snd (set_s2c_max_window_bits bits m e))"
| settled_c2s_bits: "settled e \<Longrightarrow> settled (snd (set_c2s_max_window_bits bits m e))"
| settled_negotiate: "settled e \<Longrightarrow> settled (snd (deflate_negotiate offer e))"

definition bits_ok :: "u8 \<Rightarrow> bool" where
  "bits_ok b \<longleftrightarrow> min_max_window_bits \<le> b \<and> b \<le> max_max_window_bits"

definition settings_ok :: "('d, 'i) deflate \<Rightarrow> bool" where
  "settings_ok e \<longleftrightarrow> bits_ok (d_s2c_max_window_bits e) \<and> bits_ok (d_c2s_max_window_bits e) \<and>
     \<not> d_initialized e \<and> d_compress_buffer_size e = 16384"

lemma bits_ok_simps [simp]: "bits_ok 15" "bits_ok 8" "bits_ok default_max_window_bits" "bits_ok min_max_window_bits"
  "bits_ok b \<Longrightarrow> bits_ok b' \<Longrightarrow> bits_ok (min b b')"
  by (simp_all add: bits_ok_def min_max_window_bits_def max_max_window_bits_def default_max_window_bits_def min_def)

lemma settle_ok: "bits_ok b \<Longrightarrow> bits_ok own \<Longrightarrow> bits_ok (snd (settle_bits m b own))"
  by (cases m) simp_all

lemma negotiate_attribute_ok: "settings_ok e \<Longrightarrow> settings_ok (snd (negotiate_attribute kv e))"
  using settle_ok [of "ucast (atoi (snd kv))" "d_s2c_max_window_bits e" "d_s2c_mode e"]
    settle_ok [of "if snd kv = [] then default_max_window_bits else ucast (atoi (snd kv))" "d_c2s_max_window_bits e" "d_c2s_mode e"]
  by (auto simp: settings_ok_def negotiate_attribute_def negotiate_s2c_takeover_def negotiate_c2s_takeover_def
      negotiate_s2c_bits_def negotiate_c2s_bits_def Let_def not_less split: prod.splits if_splits)
    (auto simp: bits_ok_def not_less)

lemma negotiate_attributes_ok: "settings_ok e \<Longrightarrow> settings_ok (snd (negotiate_attributes kvs e))"
proof (induction kvs arbitrary: e)
  case (Cons kv kvs)
  then show ?case using negotiate_attribute_ok [of e kv] by (auto split: prod.split option.split)
qed simp

lemma settled_ok: "settled e \<Longrightarrow> settings_ok e"
proof (induction rule: settled.induct)
  case (settled_negotiate e offer)
  then show ?case using negotiate_attributes_ok [of e offer]
    by (auto simp: deflate_negotiate_def settings_ok_def Let_def split: prod.split option.split)
qed (auto simp: make_deflate_def settings_ok_def enable_s2c_no_context_takeover_def enable_c2s_no_context_takeover_def
    set_s2c_max_window_bits_def set_c2s_max_window_bits_def bits_ok_def not_less min_max_window_bits_def max_max_window_bits_def)

text \<open>
  C36: window sizes are typed. Whatever attributes a client offers, and whatever an application asks for, both window sizes are
  between 8 and 15, the values zlib takes; and since only \<^verbatim>\<open>init\<close> initialises the object, which no processor calls,
  an object that is merely configured and negotiated neither compresses nor decompresses.
\<close>

theorem settled_settings:
  assumes "settled e"
  shows "8 \<le> d_s2c_max_window_bits e \<and> d_s2c_max_window_bits e \<le> 15 \<and>
    8 \<le> d_c2s_max_window_bits e \<and> d_c2s_max_window_bits e \<le> 15 \<and>
    compress z e inp out = Some (Some D_uninitialized, out, e) \<and> decompress z e inp out = Some (Some D_uninitialized, out, e)"
  using settled_ok [OF assms]
  by (simp add: settings_ok_def bits_ok_def min_max_window_bits_def max_max_window_bits_def compress_def decompress_def)

theorem settled_settings_witness:
  "d_c2s_max_window_bits (snd (set_c2s_max_window_bits 200 Mode_largest (make_deflate () ()))) \<le> 15"
  using settled_settings [OF settled_c2s_bits [OF settled_new [of "()" "()"]], of 200 Mode_largest] by blast

subsection \<open>The answer of a server\<close>

lemma atoi_decimal: "n < 2 ^ 31 \<Longrightarrow> atoi (decimal n) = of_nat n"
  using atoi_digits [of "decimal n"] decimal_digits by simp

lemma bits_of_decimal: "n < 2 ^ 31 \<Longrightarrow> (ucast (atoi (decimal n)) :: u8) = of_nat n"
  by (simp add: atoi_decimal unsigned_of_nat take_bit_nat_eq_self)

lemma bits_read_back: "ucast (atoi (decimal (unat (b :: u8)))) = b"
  using bits_of_decimal [of "unat b"] less_trans [OF u8_less_256 [of b], of "2 ^ 31"] by simp

text \<open>
  The number of window bits is read modulo 256: an offer is taken for invalid exactly when that remainder is not between 8
  and 15, and a server that accepts what it is offered settles on the remainder.
\<close>

theorem window_bits_wrap:
  assumes "n < 2 ^ 31" "d_s2c_mode e = Mode_accept"
  shows "fst (negotiate_s2c_bits (decimal n) e) = (if 8 \<le> n mod 256 \<and> n mod 256 \<le> 15 then None else Some D_invalid_attribute_value) \<and>
    unat (d_s2c_max_window_bits (snd (negotiate_s2c_bits (decimal n) e))) = (if 8 \<le> n mod 256 \<and> n mod 256 \<le> 15 then n mod 256 else 15)"
proof -
  have b: "(ucast (atoi (decimal n)) :: u8) = of_nat n"
    using assms(1) by (rule bits_of_decimal)
  have u: "unat (of_nat n :: u8) = n mod 256" by (simp add: unat_of_nat)
  have "(of_nat n :: u8) < 8 \<longleftrightarrow> n mod 256 < 8" "(of_nat n :: u8) > 15 \<longleftrightarrow> n mod 256 > 15"
    using u by (simp_all add: word_less_nat_alt)
  then show ?thesis
    using assms(2) u by (auto simp: negotiate_s2c_bits_def Let_def b min_max_window_bits_def max_max_window_bits_def default_max_window_bits_def)
qed

theorem window_bits_wrap_witness:
  "fst (negotiate_s2c_bits (decimal 264) (make_deflate () ())) = None \<and>
   unat (d_s2c_max_window_bits (snd (negotiate_s2c_bits (decimal 264) (make_deflate () ())))) = 8"
  using window_bits_wrap [of 264 "make_deflate () ()"] by (simp add: make_deflate_def)

text \<open>The attributes of the answer, in the order they are printed.\<close>

definition answer_attributes :: "('d, 'i) deflate \<Rightarrow> attribute_list" where
  "answer_attributes e =
     (if d_s2c_no_context_takeover e then [(''s2c_no_context_takeover'', [])] else []) @
     (if d_c2s_no_context_takeover e then [(''c2s_no_context_takeover'', [])] else []) @
     (if d_s2c_max_window_bits e < default_max_window_bits
      then [(''s2c_max_window_bits'', decimal (unat (d_s2c_max_window_bits e)))] else []) @
     (if d_c2s_max_window_bits e < default_max_window_bits
      then [(''c2s_max_window_bits'', decimal (unat (d_c2s_max_window_bits e)))] else [])"

lemma decimal_not_empty [simp]: "decimal n \<noteq> []"
  using decimal_digits by blast

lemma response_text: "generate_response e = parameters_text [(''permessage-deflate'', answer_attributes e)]"
  by (simp add: generate_response_def answer_attributes_def parameter_text_def attributes_text_def attribute_text_def)

lemma digits_tokens: "list_all is_digit s \<Longrightarrow> list_all is_token_char s"
proof (induction s)
  case (Cons c s)
  define n where "n = (of_char c :: nat)"
  have "48 \<le> n" "n \<le> 57" using Cons.prems by (simp_all add: is_digit_def n_def)
  then have "n = 48 \<or> n = 49 \<or> n = 50 \<or> n = 51 \<or> n = 52 \<or> n = 53 \<or> n = 54 \<or> n = 55 \<or> n = 56 \<or> n = 57" by presburger
  then have "is_token_char c" unfolding n_def by (elim disjE) (simp_all add: is_token_char_def header_token_def)
  then show ?case using Cons by simp
qed simp

lemma answer_words: "parameter_words (''permessage-deflate'', answer_attributes e)"
proof -
  have names: "is_token ''permessage-deflate''" "is_token ''s2c_no_context_takeover''" "is_token ''c2s_no_context_takeover''"
    "is_token ''s2c_max_window_bits''" "is_token ''c2s_max_window_bits''"
    by code_simp+
  have "list_all is_token_char (decimal n)" for n using decimal_digits digits_tokens by blast
  with names show ?thesis by (simp add: parameter_words_def answer_attributes_def attribute_ok_def)
qed

lemma attribute_order:
  "''c2s_max_window_bits'' < ''c2s_no_context_takeover''" "''c2s_no_context_takeover'' < ''s2c_max_window_bits''"
  "''s2c_max_window_bits'' < ''s2c_no_context_takeover''" "''c2s_max_window_bits'' < ''s2c_max_window_bits''"
  "''c2s_max_window_bits'' < ''s2c_no_context_takeover''" "''c2s_no_context_takeover'' < ''s2c_no_context_takeover''"
  by code_simp+

text \<open>A fresh object offered the attributes of an answer takes over exactly its settings.\<close>

lemma settings_taken_over:
  assumes "settings_ok e"
  shows "negotiate_attributes (put_attributes (answer_attributes e) []) (make_deflate d i) =
    (None, (make_deflate d i)\<lparr>d_s2c_no_context_takeover := d_s2c_no_context_takeover e,
       d_c2s_no_context_takeover := d_c2s_no_context_takeover e,
       d_s2c_max_window_bits := d_s2c_max_window_bits e, d_c2s_max_window_bits := d_c2s_max_window_bits e\<rparr>)"
proof -
  have b: "bits_ok (d_s2c_max_window_bits e)" "bits_ok (d_c2s_max_window_bits e)" using assms by (simp_all add: settings_ok_def)
  have ends: "\<not> b < min_max_window_bits" "\<not> max_max_window_bits < b" "\<not> b < default_max_window_bits \<Longrightarrow> b = 15" if "bits_ok b" for b
    using that by (auto simp: bits_ok_def max_max_window_bits_def default_max_window_bits_def)
  have top: "\<not> (15 :: u8) < default_max_window_bits" by (simp add: default_max_window_bits_def)
  note eval = answer_attributes_def put_attributes_def negotiate_attribute_def negotiate_s2c_takeover_def negotiate_c2s_takeover_def
    negotiate_s2c_bits_def negotiate_c2s_bits_def make_deflate_def Let_def bits_read_back
  show ?thesis
    by (cases "d_s2c_no_context_takeover e"; cases "d_c2s_no_context_takeover e";
        cases "d_s2c_max_window_bits e < default_max_window_bits"; cases "d_c2s_max_window_bits e < default_max_window_bits")
      (simp_all add: eval top ends [OF b(1)] ends [OF b(2)] attribute_order attribute_order [THEN less_not_sym])
qed

text \<open>
  C35: both ends come to the same settings. The answer a server makes to an offer it accepts, parsed by the other end as the
  value of a header, is one extension with its attributes; and an object that starts from the defaults and is given these
  attributes takes over the four settings of the server, and would itself give the same answer.
\<close>

theorem negotiation_agreed:
  assumes "settled e" "deflate_negotiate offer e = ((None, answer), e')"
  shows "\<exists>attrs f. parse_parameter_list answer [] = (False, [(''permessage-deflate'', attrs)]) \<and>
    deflate_negotiate attrs (make_deflate d i) = ((None, answer), f) \<and>
    d_s2c_no_context_takeover f = d_s2c_no_context_takeover e' \<and> d_c2s_no_context_takeover f = d_c2s_no_context_takeover e' \<and>
    d_s2c_max_window_bits f = d_s2c_max_window_bits e' \<and> d_c2s_max_window_bits f = d_c2s_max_window_bits e' \<and> d_enabled f"
proof -
  have "settled e'" using settled_negotiate [OF assms(1), of offer] assms(2) by simp
  then have ok: "settings_ok e'" by (rule settled_ok)
  have answer: "answer = generate_response e'"
    using assms(2) by (auto simp: deflate_negotiate_def Let_def split: prod.splits option.splits)
  let ?a = "put_attributes (answer_attributes e') []"
  have "parse_parameter_list answer [] = (False, [(''permessage-deflate'', ?a)])"
    using parse_parameters_words [of "[(''permessage-deflate'', answer_attributes e')]"] answer_words [of e']
    by (simp add: answer response_text parameter_value_def)
  moreover have "\<exists>f. deflate_negotiate ?a (make_deflate d i) = ((None, answer), f) \<and>
    d_s2c_no_context_takeover f = d_s2c_no_context_takeover e' \<and> d_c2s_no_context_takeover f = d_c2s_no_context_takeover e' \<and>
    d_s2c_max_window_bits f = d_s2c_max_window_bits e' \<and> d_c2s_max_window_bits f = d_c2s_max_window_bits e' \<and> d_enabled f"
    by (simp add: deflate_negotiate_def settings_taken_over [OF ok] Let_def answer generate_response_def)
  ultimately show ?thesis by blast
qed

theorem negotiation_agreed_witness:
  "fst (deflate_negotiate [(''c2s_max_window_bits'', ''10''), (''s2c_no_context_takeover'', [])] (make_deflate () ())) =
     (None, ''permessage-deflate; s2c_no_context_takeover; c2s_max_window_bits=10'') \<and>
   (\<exists>attrs f. parse_parameter_list ''permessage-deflate; s2c_no_context_takeover; c2s_max_window_bits=10'' [] =
      (False, [(''permessage-deflate'', attrs)]) \<and>
     fst (deflate_negotiate attrs (make_deflate () ())) =
      (None, ''permessage-deflate; s2c_no_context_takeover; c2s_max_window_bits=10'') \<and>
     snd (deflate_negotiate attrs (make_deflate () ())) = f \<and> d_c2s_max_window_bits f = 10)"
proof -
  let ?offer = "[(''c2s_max_window_bits'', ''10''), (''s2c_no_context_takeover'', [])]"
  let ?answer = "''permessage-deflate; s2c_no_context_takeover; c2s_max_window_bits=10''"
  obtain e' where e': "deflate_negotiate ?offer (make_deflate () ()) = ((None, ?answer), e')" "d_c2s_max_window_bits e' = 10"
  proof
    have "decimal 10 = ''10''" by code_simp
    then have "atoi ''10'' = 10" using atoi_decimal [of 10] by simp
    then show "deflate_negotiate ?offer (make_deflate () ()) = ((None, ?answer), snd (deflate_negotiate ?offer (make_deflate () ())))"
      "d_c2s_max_window_bits (snd (deflate_negotiate ?offer (make_deflate () ()))) = 10"
      using \<open>decimal 10 = ''10''\<close>
      by (simp_all add: deflate_negotiate_def negotiate_attribute_def negotiate_c2s_bits_def negotiate_s2c_takeover_def make_deflate_def
          generate_response_def min_max_window_bits_def max_max_window_bits_def default_max_window_bits_def Let_def)
  qed
  show ?thesis using negotiation_agreed [OF settled_new e'(1), of "()" "()"] e' by auto
qed

subsection \<open>Using the extension\<close>

text \<open>
  A negotiated extension breaks the connection. A message marked for compression, prepared with the negotiated but
  never initialised object, gets a header that announces the size of its payload, and no payload.
\<close>

theorem negotiated_frame_empty:
  assumes "settled e" "deflate_is_enabled e" "msg_compressed m" "\<not> is_control (msg_opcode m)"
    and "msg_opcode m = Text \<longrightarrow> validate (msg_payload m)" "om = make_message op k"
  shows "\<exists>w h x. prepare_data_frame (\<lambda>inp out. case compress z e inp out of Some (err, out, e') \<Rightarrow> out | None \<Rightarrow> out)
      srv (deflate_is_enabled e) rnd (Some m) (Some om) = (None, Some w) \<and>
    msg_payload w = [] \<and> msg_header w = prepare_header h x \<and> get_payload_size h x = of_nat (length (msg_payload m))"
proof -
  have c: "compress z e i out = Some (Some D_uninitialized, out, e)" for i out
    using settled_ok [OF assms(1)] by (simp add: settings_ok_def compress_def)
  let ?sz = "of_nat (length (msg_payload m)) :: u64"
  let ?h = "make_basic_header (msg_opcode m) ?sz (msg_fin m) (\<not> srv) True False False"
  let ?x = "if \<not> srv then extended_header_masked ?sz rnd else extended_header_sized ?sz"
  have "get_payload_size ?h ?x = ?sz"
    by (rule get_payload_size_make) (simp add: ext_bytes_sized ext_bytes_masked)
  moreover have "word_mask_exact [] 0 rnd = []" using word_mask_exact_eq [of "[]" rnd] by simp
  then have "\<exists>w. prepare_data_frame (\<lambda>inp out. case compress z e inp out of Some (err, out, e') \<Rightarrow> out | None \<Rightarrow> out)
      srv (deflate_is_enabled e) rnd (Some m) (Some om) = (None, Some w) \<and>
    msg_payload w = [] \<and> msg_header w = prepare_header ?h ?x"
    using assms(2-6) c
    by (auto simp: prepare_data_frame_def Let_def masked_copy_def make_message_def set_prepared_def set_payload_def set_header_def)
  ultimately show ?thesis by blast
qed

text \<open>A zlib whose streams hold their octets uncompressed.\<close>

definition stored_zlib :: "(bytes, bytes) zlib" where
  "stored_zlib = \<lparr>z_deflate_init = (\<lambda>b d. (True, [])), z_inflate_init = (\<lambda>b i. (True, [])),
     z_deflate_input = (\<lambda>buf d. d @ buf), z_inflate_input = (\<lambda>buf i. i @ buf),
     z_deflate = (\<lambda>n d. (take n d, drop n d)), z_inflate = (\<lambda>n i. (Inflate_ok, take n i, drop n i))\<rparr>"

definition squeezed :: message where
  "squeezed = (make_message Text 2)\<lparr>msg_payload := [0x48, 0x69], msg_compressed := True\<rparr>"

theorem negotiated_frame_empty_witness:
  "\<exists>w h x. prepare_data_frame
      (\<lambda>inp out. case compress stored_zlib (snd (deflate_negotiate [] (make_deflate [] []))) inp out of
         Some (err, out, e') \<Rightarrow> out | None \<Rightarrow> out)
      True True 0 (Some squeezed) (Some (make_message Text 0)) = (None, Some w) \<and>
    msg_payload w = [] \<and> msg_header w = prepare_header h x \<and> get_payload_size h x = 2"
proof -
  let ?e = "snd (deflate_negotiate [] (make_deflate [] [])) :: (bytes, bytes) deflate"
  have e: "settled ?e" by (intro settled.intros)
  have en: "deflate_is_enabled ?e" by (simp add: deflate_is_enabled_def deflate_negotiate_def Let_def)
  have v: "validate [0x48, 0x69]" by code_simp
  have m: "msg_compressed squeezed" "\<not> is_control (msg_opcode squeezed)" "msg_opcode squeezed = Text \<longrightarrow> validate (msg_payload squeezed)"
    "length (msg_payload squeezed) = 2"
    using v by (simp_all add: squeezed_def is_control_def make_message_def)
  show ?thesis
    using negotiated_frame_empty [OF e en m(1-3) refl, of stored_zlib True 0 Text 0] en m(4) by simp
qed

lemma decompress_loop_all:
  assumes "\<And>i. z_inflate z n i = (Inflate_ok, take n (pending i), rest i)" "\<And>i. pending (rest i) = drop n (pending i)" "0 < n"
  shows "\<exists>i'. decompress_loop z n i out = Some (None, out @ pending i, i')"
proof (induction "length (pending i)" arbitrary: i out rule: less_induct)
  case less
  show ?case
  proof (cases "n \<le> length (pending i)")
    case True
    then have "length (pending (rest i)) < length (pending i)" using assms(2,3) by simp
    from less [OF this, of "out @ take n (pending i)"]
    obtain i' where "decompress_loop z n (rest i) (out @ take n (pending i)) = Some (None, out @ pending i, i')"
      using assms(2) by auto
    then show ?thesis using True assms(1) by (subst decompress_loop.simps) simp
  next
    case False
    then show ?thesis using assms(1) by (subst decompress_loop.simps) simp
  qed
qed



end
