(* ===== verification/Iostream_Transport.thy ===== *)
theory Iostream_Transport
  imports Close_Status
begin

text \<open>
  The transport over C++ streams (\<^verbatim>\<open>transport/iostream/base.hpp\<close>, \<^verbatim>\<open>connection.hpp\<close>, \<^verbatim>\<open>endpoint.hpp\<close>): octets are
  handed to it by calls or read from a stream, and it completes the read that is outstanding. Handlers are called
  at once, inside the call that completes an operation, and may start operations themselves: the argument \<open>app\<close> is what
  a handler does to the transport. The connection handle and the logs are left out.
\<close>

subsection \<open>Errors\<close>

datatype io_error = IO_general | IO_invalid_num_bytes | IO_double_read | IO_output_stream_required | IO_bad_stream

fun io_error_value :: "io_error \<Rightarrow> nat" where
  "io_error_value IO_general = 1"
| "io_error_value IO_invalid_num_bytes = 2"
| "io_error_value IO_double_read = 3"
| "io_error_value IO_output_stream_required = 4"
| "io_error_value IO_bad_stream = 5"

definition io_message :: "nat \<Rightarrow> string" where
  "io_message v =
     (if v = 1 then ''Generic iostream transport policy error''
      else if v = 2 then ''async_read_at_least call requested more bytes than buffer can store''
      else if v = 3 then ''Async read already in progress''
      else if v = 4 then ''An output stream to be set before async_write can be used''
      else if v = 5 then ''A stream operation returned ios::bad''
      else ''Unknown'')"

text \<open>A code is one of this transport or one all transports share.\<close>

datatype io_code = IO io_error | IO_shared transport_error

subsection \<open>Streams\<close>

text \<open>An output stream takes octets up to its capacity; a write that does not fit sets the bad bit.\<close>

record ostream =
  o_data :: bytes
  o_capacity :: nat
  o_bad :: bool

definition ostream_write :: "bytes \<Rightarrow> ostream \<Rightarrow> ostream" where
  "ostream_write bs out =
     (if o_bad out then out
      else out\<lparr>o_data := take (o_capacity out) (o_data out @ bs), o_bad := length (o_data out @ bs) > o_capacity out\<rparr>)"

text \<open>An input stream ends with the end of the file, or goes bad there.\<close>

record istream =
  i_data :: bytes
  i_breaks :: bool
  i_good :: bool
  i_bad :: bool

definition istream_read :: "nat \<Rightarrow> istream \<Rightarrow> bytes \<times> istream" where
  "istream_read n inp =
     (if length (i_data inp) < n
      then (i_data inp, inp\<lparr>i_data := [], i_good := False, i_bad := i_bad inp \<or> i_breaks inp\<rparr>)
      else (take n (i_data inp), inp\<lparr>i_data := drop n (i_data inp)\<rparr>))"

subsection \<open>State\<close>

text \<open>What is called back: the handler, the code, and for a read the octets in its buffer up to the cursor.\<close>

datatype 'h io_event =
    On_init 'h
  | On_read 'h "io_code option" bytes
  | On_written 'h "io_code option"
  | On_dispatch 'h
  | On_shutdown 'h

text \<open>\<open>t_buf\<close> is the memory of the buffer of the read that is outstanding; its length is \<^verbatim>\<open>m_len\<close>.\<close>

record 'h transport =
  t_buf :: bytes
  t_bytes_needed :: nat
  t_read_handler :: "'h option"
  t_cursor :: nat
  t_output :: "ostream option"
  t_reading :: bool
  t_is_server :: bool
  t_is_secure :: bool
  t_remote_endpoint :: string
  t_events :: "'h io_event list"

type_synonym 'h app = "'h io_event \<Rightarrow> 'h transport \<Rightarrow> 'h transport"

definition make_transport :: "bool \<Rightarrow> 'h transport" where
  "make_transport is_server =
     \<lparr>t_buf = [], t_bytes_needed = 0, t_read_handler = None, t_cursor = 0, t_output = None, t_reading = False,
      t_is_server = is_server, t_is_secure = False, t_remote_endpoint = ''iostream transport'', t_events = []\<rparr>"

definition call_back :: "'h app \<Rightarrow> 'h io_event \<Rightarrow> 'h transport \<Rightarrow> 'h transport" where
  "call_back app ev t = app ev (t\<lparr>t_events := t_events t @ [ev]\<rparr>)"

definition register_ostream :: "ostream option \<Rightarrow> 'h transport \<Rightarrow> 'h transport" where
  "register_ostream out t = t\<lparr>t_output := out\<rparr>"
definition io_set_secure :: "bool \<Rightarrow> 'h transport \<Rightarrow> 'h transport" where
  "io_set_secure v t = t\<lparr>t_is_secure := v\<rparr>"
definition set_remote_endpoint :: "string \<Rightarrow> 'h transport \<Rightarrow> 'h transport" where
  "set_remote_endpoint v t = t\<lparr>t_remote_endpoint := v\<rparr>"

text \<open>There are no timers: the pointer is null and the handler is never called.\<close>

definition io_set_timer :: "int \<Rightarrow> 'h \<Rightarrow> 'h transport \<Rightarrow> nat option \<times> 'h transport" where
  "io_set_timer duration h t = (None, t)"

definition io_init :: "'h app \<Rightarrow> 'h \<Rightarrow> 'h transport \<Rightarrow> 'h transport" where "io_init app h t = call_back app (On_init h) t"
definition io_dispatch :: "'h app \<Rightarrow> 'h \<Rightarrow> 'h transport \<Rightarrow> 'h transport" where
  "io_dispatch app h t = call_back app (On_dispatch h) t"
definition io_async_shutdown :: "'h app \<Rightarrow> 'h \<Rightarrow> 'h transport \<Rightarrow> 'h transport" where
  "io_async_shutdown app h t = call_back app (On_shutdown h) t"

subsection \<open>Reading\<close>

definition async_read_at_least :: "'h app \<Rightarrow> nat \<Rightarrow> bytes \<Rightarrow> 'h \<Rightarrow> 'h transport \<Rightarrow> 'h transport" where
  "async_read_at_least app num buf h t =
     (if num > length buf then call_back app (On_read h (Some (IO IO_invalid_num_bytes)) []) t
      else if t_reading t then call_back app (On_read h (Some (IO IO_double_read)) []) t
      else if num = 0 \<or> buf = [] then call_back app (On_read h None []) t
      else t\<lparr>t_buf := buf, t_bytes_needed := num, t_read_handler := Some h, t_cursor := 0, t_reading := True\<rparr>)"

text \<open>Without a handler, \<^verbatim>\<open>complete_read\<close> calls an empty function object, which throws: \<open>None\<close>.\<close>

definition complete_read :: "'h app \<Rightarrow> io_code option \<Rightarrow> 'h transport \<Rightarrow> 'h transport option" where
  "complete_read app ec t =
     (case t_read_handler t of
        None \<Rightarrow> None
      | Some h \<Rightarrow> Some (call_back app (On_read h ec (take (t_cursor t) (t_buf t))) (t\<lparr>t_reading := False, t_read_handler := None\<rparr>)))"

text \<open>\<^verbatim>\<open>std::copy\<close> to the cursor, and the cursor behind it.\<close>

definition fill :: "bytes \<Rightarrow> 'h transport \<Rightarrow> 'h transport" where
  "fill bs t = t\<lparr>t_buf := take (t_cursor t) (t_buf t) @ bs @ drop (t_cursor t + length bs) (t_buf t),
     t_cursor := t_cursor t + length bs\<rparr>"

definition read_some :: "'h app \<Rightarrow> bytes \<Rightarrow> 'h transport \<Rightarrow> (nat \<times> 'h transport) option" where
  "read_some app buf t =
     (if \<not> t_reading t then Some (0, t)
      else
        let n = min (length buf) (length (t_buf t) - t_cursor t); t = fill (take n buf) t in
        if t_cursor t \<ge> t_bytes_needed t then map_option (Pair n) (complete_read app None t) else Some (n, t))"

function read_all :: "'h app \<Rightarrow> bytes \<Rightarrow> 'h transport \<Rightarrow> (nat \<times> 'h transport) option" where
  "read_all app buf t =
     (case read_some app buf t of
        None \<Rightarrow> None
      | Some (n, t') \<Rightarrow>
          if n \<noteq> 0 \<and> n < length buf then map_option (apfst ((+) n)) (read_all app (drop n buf) t') else Some (n, t'))"
  by pat_completeness auto
termination by (relation "measure (\<lambda>(app, buf, t). length buf)") auto

declare read_all.simps [simp del]

definition io_eof :: "'h app \<Rightarrow> 'h transport \<Rightarrow> 'h transport option" where
  "io_eof app t = (if t_reading t then complete_read app (Some (IO_shared T_eof)) t else Some t)"

definition fatal_error :: "'h app \<Rightarrow> 'h transport \<Rightarrow> 'h transport option" where
  "fatal_error app t = (if t_reading t then complete_read app (Some (IO_shared T_pass_through)) t else Some t)"

text \<open>The stream operator. Each turn of the loop takes at least one octet of the stream.\<close>

function read_stream :: "'h app \<Rightarrow> istream \<Rightarrow> 'h transport \<Rightarrow> (istream \<times> 'h transport) option" where
  "read_stream app inp t =
     (if \<not> i_good inp \<or> \<not> t_reading t then Some (inp, t)
      else case istream_read (length (t_buf t) - t_cursor t) inp of
          (bs, inp') \<Rightarrow>
            if bs = [] then Some (inp', t)
            else
              let t = fill bs t in
              case (if i_bad inp' then complete_read app (Some (IO IO_bad_stream)) (t\<lparr>t_reading := False\<rparr>) else Some t) of
                None \<Rightarrow> None
              | Some t \<Rightarrow>
                  (case (if t_cursor t \<ge> t_bytes_needed t then complete_read app None (t\<lparr>t_reading := False\<rparr>) else Some t) of
                     None \<Rightarrow> None
                   | Some t \<Rightarrow> read_stream app inp' t))"
  by pat_completeness auto
termination
  by (relation "measure (\<lambda>(app, inp, t). length (i_data inp))") (auto simp: istream_read_def split: if_splits)

declare read_stream.simps [simp del]

subsection \<open>Writing\<close>

definition io_async_write :: "'h app \<Rightarrow> bytes \<Rightarrow> 'h \<Rightarrow> 'h transport \<Rightarrow> 'h transport" where
  "io_async_write app buf h t =
     (case t_output t of
        None \<Rightarrow> call_back app (On_written h (Some (IO IO_output_stream_required))) t
      | Some out \<Rightarrow>
          let out = ostream_write buf out; t = t\<lparr>t_output := Some out\<rparr>
          in call_back app (On_written h (if o_bad out then Some (IO IO_bad_stream) else None)) t)"

text \<open>
  The list of buffers: the handler is called for every buffer after the stream went bad, and at the end once more, with success.
  A handler that takes the stream away leaves a null pointer: \<open>None\<close>.
\<close>

fun write_buffers :: "'h app \<Rightarrow> bytes list \<Rightarrow> 'h \<Rightarrow> 'h transport \<Rightarrow> 'h transport option" where
  "write_buffers app [] h t = Some (call_back app (On_written h None) t)"
| "write_buffers app (b # bs) h t =
     (case t_output t of
        None \<Rightarrow> None
      | Some out \<Rightarrow>
          let out = ostream_write b out; t = t\<lparr>t_output := Some out\<rparr>
          in write_buffers app bs h (if o_bad out then call_back app (On_written h (Some (IO IO_bad_stream))) t else t))"

definition io_async_write_list :: "'h app \<Rightarrow> bytes list \<Rightarrow> 'h \<Rightarrow> 'h transport \<Rightarrow> 'h transport option" where
  "io_async_write_list app bufs h t =
     (case t_output t of
        None \<Rightarrow> Some (call_back app (On_written h (Some (IO IO_output_stream_required))) t)
      | Some out \<Rightarrow> write_buffers app bufs h t)"

subsection \<open>The endpoint\<close>

record io_endpoint =
  ep_output :: "ostream option"
  ep_secure :: bool

definition make_io_endpoint :: io_endpoint where "make_io_endpoint = \<lparr>ep_output = None, ep_secure = False\<rparr>"
definition ep_register_ostream :: "ostream option \<Rightarrow> io_endpoint \<Rightarrow> io_endpoint" where
  "ep_register_ostream out e = e\<lparr>ep_output := out\<rparr>"
definition ep_set_secure :: "bool \<Rightarrow> io_endpoint \<Rightarrow> io_endpoint" where "ep_set_secure v e = e\<lparr>ep_secure := v\<rparr>"
definition ep_async_connect :: "('h transport \<Rightarrow> 'h transport) \<Rightarrow> 'h transport \<Rightarrow> 'h transport" where "ep_async_connect cb t = cb t"
definition ep_init :: "io_endpoint \<Rightarrow> 'h transport \<Rightarrow> 'h transport" where "ep_init e t = register_ostream (ep_output e) t"

subsection \<open>What handlers do\<close>

text \<open>Part of \<^verbatim>\<open>async_read_at_least\<close>: the read is outstanding.\<close>

definition start_read :: "nat \<Rightarrow> bytes \<Rightarrow> 'h \<Rightarrow> 'h transport \<Rightarrow> 'h transport" where
  "start_read num buf h t = t\<lparr>t_buf := buf, t_bytes_needed := num, t_read_handler := Some h, t_cursor := 0, t_reading := True\<rparr>"

fun handed_over :: "'h io_event list \<Rightarrow> bytes" where
  "handed_over [] = []"
| "handed_over (On_read h ec bs # evs) = bs @ handed_over evs"
| "handed_over (ev # evs) = handed_over evs"

text \<open>
  Any number of calls that start reads and writes, one after the other, each of which may call a handler back at once, which then makes
  calls in its turn.
\<close>

inductive asks :: "'h transport \<Rightarrow> 'h transport \<Rightarrow> bool" where
  asks_nothing: "asks t t"
| asks_read: "asks t t1 \<Longrightarrow> \<not> t_reading t1 \<Longrightarrow> 0 < num \<Longrightarrow> num \<le> length buf \<Longrightarrow> asks t (start_read num buf h t1)"
| asks_write: "asks t t1 \<Longrightarrow> asks t (t1\<lparr>t_output := out\<rparr>)"
| asks_call: "asks t t1 \<Longrightarrow> handed_over [ev] = [] \<Longrightarrow> asks (t1\<lparr>t_events := t_events t1 @ [ev]\<rparr>) t2 \<Longrightarrow> asks t t2"

definition io_app_ok :: "'h app \<Rightarrow> bool" where
  "io_app_ok app \<longleftrightarrow> (\<forall>ev t. asks t (app ev t))"

lemma asks_trans_rev: "asks t1 t2 \<Longrightarrow> asks t t1 \<Longrightarrow> asks t t2"
proof (induction arbitrary: t rule: asks.induct)
  case (asks_call t1 u ev t2)
  then show ?case by (blast intro: asks.asks_call)
qed (blast intro: asks.intros)+

lemmas asks_trans = asks_trans_rev [rotated]

lemma asks_call_back: "io_app_ok app \<Longrightarrow> handed_over [ev] = [] \<Longrightarrow> asks t (call_back app ev t)"
  unfolding call_back_def io_app_ok_def by (blast intro: asks_call asks_nothing)

lemma asks_set_output: "asks t (t\<lparr>t_output := out\<rparr>)"
  by (rule asks_write) (rule asks_nothing)

lemma asks_buffers:
  "io_app_ok app \<Longrightarrow> write_buffers app bs h t = Some t' \<Longrightarrow> asks t t'"
proof (induction app bs h t arbitrary: t' rule: write_buffers.induct)
  case (2 app b bs h t)
  then obtain out where out: "t_output t = Some out" by (auto split: option.splits)
  let ?t = "t\<lparr>t_output := Some (ostream_write b out)\<rparr>"
  let ?u = "if o_bad (ostream_write b out) then call_back app (On_written h (Some (IO IO_bad_stream))) ?t else ?t"
  have "asks t ?u" using asks_trans [OF asks_set_output asks_call_back [OF 2(2)]] asks_set_output by auto
  moreover have "asks ?u t'" using 2(1) [OF out refl refl 2(2)] 2(3) out by (simp add: Let_def)
  ultimately show ?case by (rule asks_trans)
qed (auto intro: asks_call_back)

text \<open>So every call of the transport that a handler can make is one of these, whatever the handlers it calls back do.\<close>

lemma calls_asks:
  assumes "io_app_ok app"
  shows "asks t (async_read_at_least app num buf h t)" "asks t (io_async_write app bs h t)" "asks t (io_dispatch app h t)"
    "asks t (io_async_shutdown app h t)" "asks t (io_init app h t)" "io_async_write_list app bufs h t = Some t' \<Longrightarrow> asks t t'"
proof -
  note call = asks_call_back [OF assms]
  show "asks t (async_read_at_least app num buf h t)"
    using asks_read [OF asks_nothing, of t num buf h] call by (auto simp: async_read_at_least_def start_read_def)
  show "asks t (io_async_write app bs h t)"
    using call asks_trans [OF asks_set_output call] by (simp add: io_async_write_def Let_def split: option.split)
  show "asks t (io_dispatch app h t)" "asks t (io_async_shutdown app h t)" "asks t (io_init app h t)"
    using call by (simp_all add: io_dispatch_def io_async_shutdown_def io_init_def)
  show "io_async_write_list app bufs h t = Some t' \<Longrightarrow> asks t t'"
    using call asks_buffers [OF assms] by (auto simp: io_async_write_list_def split: option.splits)
qed

subsection \<open>The octets that went in\<close>

lemma handed_over_append [simp]: "handed_over (evs @ evs') = handed_over evs @ handed_over evs'"
  by (induction evs rule: handed_over.induct) simp_all

text \<open>The octets that have been handed over and those in the buffer of the read that is outstanding.\<close>

definition taken :: "'h transport \<Rightarrow> bytes" where
  "taken t = handed_over (t_events t) @ (if t_reading t then take (t_cursor t) (t_buf t) else [])"

definition transport_ok :: "'h transport \<Rightarrow> bool" where
  "transport_ok t \<longleftrightarrow>
     (t_reading t \<longrightarrow> t_read_handler t \<noteq> None \<and> t_cursor t < t_bytes_needed t \<and> t_bytes_needed t \<le> length (t_buf t))"

lemma asks_keeps: "asks t t' \<Longrightarrow> transport_ok t \<Longrightarrow> transport_ok t' \<and> taken t' = taken t"
proof (induction rule: asks.induct)
  case (asks_call t t1 ev t2)
  have "handed_over (t_events t1 @ [ev]) = handed_over (t_events t1)" using asks_call.hyps(2) by (simp only: handed_over_append) simp
  then have "transport_ok (t1\<lparr>t_events := t_events t1 @ [ev]\<rparr>) = transport_ok t1" "taken (t1\<lparr>t_events := t_events t1 @ [ev]\<rparr>) = taken t1"
    by (simp_all add: transport_ok_def taken_def)
  then show ?case using asks_call by simp
qed (auto simp: transport_ok_def taken_def start_read_def)

lemma filled:
  assumes "transport_ok t" "t_reading t" "length bs \<le> length (t_buf t) - t_cursor t"
  shows "taken (fill bs t) = taken t @ bs" "length (t_buf (fill bs t)) = length (t_buf t)"
  using assms by (auto simp: transport_ok_def taken_def fill_def)

lemma fill_simps [simp]:
  "t_reading (fill bs t) = t_reading t" "t_read_handler (fill bs t) = t_read_handler t" "t_bytes_needed (fill bs t) = t_bytes_needed t"
  "t_events (fill bs t) = t_events t" "t_cursor (fill bs t) = t_cursor t + length bs"
  by (simp_all add: fill_def)

lemma completed:
  assumes "io_app_ok app" "t_read_handler t = Some h" "t_reading t"
  shows "\<exists>t'. complete_read app ec t = Some t' \<and> transport_ok t' \<and> taken t' = taken t"
proof -
  let ?t = "t\<lparr>t_reading := False, t_read_handler := None\<rparr>"
  let ?ev = "On_read h ec (take (t_cursor t) (t_buf t))"
  have "transport_ok (?t\<lparr>t_events := t_events ?t @ [?ev]\<rparr>)" by (simp add: transport_ok_def)
  from asks_keeps [OF _ this] show ?thesis
    using assms by (auto simp: complete_read_def call_back_def io_app_ok_def taken_def)
qed

lemma read_some_takes:
  assumes "io_app_ok app" "transport_ok t"
  shows "\<exists>n t'. read_some app buf t = Some (n, t') \<and> n \<le> length buf \<and> transport_ok t' \<and> taken t' = taken t @ take n buf \<and>
    (n = 0 \<longrightarrow> buf = [] \<or> \<not> t_reading t \<and> t' = t)"
proof (cases "t_reading t")
  case True
  let ?n = "min (length buf) (length (t_buf t) - t_cursor t)"
  let ?t = "fill (take ?n buf) t"
  have room: "0 < length (t_buf t) - t_cursor t" using assms(2) True by (auto simp: transport_ok_def)
  note f = filled [OF assms(2) True, of "take ?n buf"]
  have zero: "buf = []" if "?n = 0" using room that by (auto simp: min_def split: if_splits)
  show ?thesis
  proof (cases "t_cursor ?t \<ge> t_bytes_needed t")
    case full: True
    obtain h where h: "t_read_handler ?t = Some h" using assms(2) True by (auto simp: transport_ok_def)
    from completed [OF assms(1) h, of None] obtain t' where
      "complete_read app None ?t = Some t'" "transport_ok t'" "taken t' = taken ?t" using True by auto
    then show ?thesis using f True full zero by (auto simp: read_some_def Let_def)
  next
    case False
    then have "transport_ok ?t" using assms(2) True f(2) by (simp add: transport_ok_def)
    then show ?thesis using f True False zero by (auto simp: read_some_def Let_def)
  qed
qed (use assms(2) in \<open>auto simp: read_some_def\<close>)

subsection \<open>Properties\<close>

text \<open>
  C34: nothing is lost, invented or reordered between \<^verbatim>\<open>read_all\<close> and the handlers. Whatever reads and writes the handlers
  start when they are called, the call returns, the octets handed over so far followed by those waiting in the buffer of the read that is
  outstanding grow by exactly the octets it says it read, and if it did not read all of them no read is outstanding.
\<close>

theorem read_all_delivers:
  assumes "io_app_ok app" "transport_ok t"
  shows "\<exists>n t'. read_all app buf t = Some (n, t') \<and> n \<le> length buf \<and> transport_ok t' \<and> taken t' = taken t @ take n buf \<and>
    (n = length buf \<or> \<not> t_reading t')"
  using assms(2)
proof (induction "length buf" arbitrary: buf t rule: less_induct)
  case less
  from read_some_takes [OF assms(1) less.prems, of buf] obtain n t' where
    some: "read_some app buf t = Some (n, t')" "n \<le> length buf" "transport_ok t'" "taken t' = taken t @ take n buf"
      "n = 0 \<longrightarrow> buf = [] \<or> \<not> t_reading t \<and> t' = t" by blast
  show ?case
  proof (cases "n \<noteq> 0 \<and> n < length buf")
    case True
    then have "length (drop n buf) < length buf" by auto
    from less.hyps [OF this some(3)] obtain m t'' where rest: "read_all app (drop n buf) t' = Some (m, t'')" "m \<le> length buf - n" "transport_ok t''"
        "taken t'' = taken t' @ take m (drop n buf)" "m = length buf - n \<or> \<not> t_reading t''"
      unfolding length_drop by blast
    have "read_all app buf t = Some (n + m, t'')" using some(1) rest(1) True by (simp add: read_all.simps [of app buf t])
    moreover have "taken t'' = taken t @ take (n + m) buf" using some(4) rest(4) by (simp add: take_add)
    ultimately show ?thesis using rest some(2) by (intro exI [of _ "n + m"] exI [of _ t'']) auto
  next
    case False
    then have "read_all app buf t = Some (n, t')" using some(1) by (auto simp: read_all.simps [of app buf t])
    then show ?thesis using some False by (intro exI [of _ n] exI [of _ t']) auto
  qed
qed

text \<open>A reader that asks for one to four octets each time it is called.\<close>

definition four_reader :: "unit app" where
  "four_reader ev t = (case ev of On_read h ec bs \<Rightarrow> if ec = None \<and> \<not> t_reading t then start_read 1 [0, 0, 0, 0] () t else t | _ \<Rightarrow> t)"

lemma four_reader_ok: "io_app_ok four_reader"
  by (auto simp: io_app_ok_def four_reader_def intro: asks_nothing asks_read [OF asks_nothing] split: io_event.split)

theorem read_all_delivers_witness:
  "\<exists>t'. read_all four_reader [1, 2, 3, 4, 5, 6] (async_read_at_least four_reader 2 [9, 9, 9] () (make_transport True)) = Some (6, t') \<and>
    taken t' = [1, 2, 3, 4, 5, 6]"
proof -
  let ?t = "async_read_at_least four_reader 2 [9, 9, 9] () (make_transport True)"
  have ok: "transport_ok ?t" "taken ?t = []"
    by (simp_all add: async_read_at_least_def make_transport_def transport_ok_def taken_def)
  have "read_all four_reader [1, 2, 3, 4, 5, 6] ?t \<noteq> None \<and> fst (the (read_all four_reader [1, 2, 3, 4, 5, 6] ?t)) = 6"
    by code_simp
  then show ?thesis using read_all_delivers [OF four_reader_ok ok(1), of "[1, 2, 3, 4, 5, 6]"] ok(2) by auto
qed

text \<open>
  A read completes within its bounds. When a piece of input completes the read that is outstanding, its handler is given the octets of
  this read in order, at least as many as it asked for and no more than its buffer holds, and otherwise the read
  stays outstanding and no handler is called.
\<close>

theorem completion_within_bounds:
  assumes "transport_ok t" "t_reading t" "read_some app buf t = Some (n, t')"
  shows "(\<exists>h bs. t_read_handler t = Some h \<and> bs = take (t_cursor t) (t_buf t) @ take n buf \<and>
      t_bytes_needed t \<le> length bs \<and> length bs \<le> length (t_buf t) \<and>
      t' = call_back app (On_read h None bs) ((fill (take n buf) t)\<lparr>t_reading := False, t_read_handler := None\<rparr>)) \<or>
    (t' = fill (take n buf) t \<and> n = length buf \<and> t_events t' = t_events t \<and> t_reading t')"
proof -
  obtain h where h: "t_read_handler t = Some h" using assms(1,2) by (auto simp: transport_ok_def)
  define m where "m = min (length buf) (length (t_buf t) - t_cursor t)"
  have room: "t_cursor t < length (t_buf t)" "m \<le> length buf" "t_cursor t + m \<le> length (t_buf t)"
    using assms(1,2) by (auto simp: transport_ok_def m_def)
  have octets: "take (t_cursor t + m) (t_buf (fill (take m buf) t)) = take (t_cursor t) (t_buf t) @ take m buf"
    using room by (simp add: fill_def)
  have run: "read_some app buf t =
      (if t_bytes_needed t \<le> t_cursor t + m then map_option (Pair m) (complete_read app None (fill (take m buf) t))
       else Some (m, fill (take m buf) t))"
    using assms(2) room by (simp add: read_some_def Let_def flip: m_def)
  show ?thesis
  proof (cases "t_bytes_needed t \<le> t_cursor t + m")
    case True
    then have "n = m" "t' = call_back app (On_read h None (take (t_cursor t) (t_buf t) @ take m buf))
        ((fill (take m buf) t)\<lparr>t_reading := False, t_read_handler := None\<rparr>)"
      using assms(3) h octets room by (auto simp: run complete_read_def)
    then show ?thesis using True h room by auto
  next
    case False
    moreover have "m = length buf" using False assms(1,2) by (auto simp: transport_ok_def m_def min_def split: if_splits)
    ultimately have "n = length buf" "t' = fill (take n buf) t" using assms(3) by (auto simp: run)
    then show ?thesis using assms(2) by simp
  qed
qed

theorem completion_within_bounds_witness:
  "\<exists>n t'. read_some (\<lambda>ev t. t) [1, 2, 3, 4] (start_read 2 [9, 9, 9] () (make_transport True)) = Some (n, t') \<and>
    t_events t' = [On_read () None [1, 2, 3]]"
proof -
  let ?t = "start_read 2 [9, 9, 9] () (make_transport True)"
  have ok: "transport_ok ?t" "t_reading ?t" by (simp_all add: start_read_def make_transport_def transport_ok_def)
  obtain t' where some: "read_some (\<lambda>ev t. t) [1, 2, 3, 4] ?t = Some (3, t')"
    by (simp add: read_some_def complete_read_def start_read_def make_transport_def fill_def Let_def)
  from completion_within_bounds [OF ok this] have "t_events t' = [On_read () None [1, 2, 3]]"
    by (auto simp: start_read_def make_transport_def call_back_def)
  then show ?thesis using some by blast
qed

text \<open>The stream operator takes a prefix of the stream and hands over the same octets, as long as the stream does not go bad.\<close>

lemma read_stream_takes:
  assumes "io_app_ok app" "transport_ok t" "\<not> i_breaks inp" "\<not> i_bad inp"
  shows "\<exists>inp' t' bs. read_stream app inp t = Some (inp', t') \<and> i_data inp = bs @ i_data inp' \<and> transport_ok t' \<and>
    taken t' = taken t @ bs \<and> (t_reading t' \<longrightarrow> i_data inp' = [] \<or> \<not> i_good inp)"
  using assms(2-4)
proof (induction "length (i_data inp)" arbitrary: inp t rule: less_induct)
  case less
  show ?case
  proof (cases "i_good inp \<and> t_reading t \<and> fst (istream_read (length (t_buf t) - t_cursor t) inp) \<noteq> []")
    case False
    have room: "0 < length (t_buf t) - t_cursor t" if "t_reading t" using less.prems(1) that by (auto simp: transport_ok_def)
    have "i_data inp = []" if "t_reading t" "fst (istream_read (length (t_buf t) - t_cursor t) inp) = []"
      using room [OF that(1)] that(2) by (auto simp: istream_read_def split: if_splits)
    moreover have "i_data b = []" if "istream_read k inp = (a, b)" "i_data inp = []" for k a b
      using that by (auto simp: istream_read_def split: if_splits)
    ultimately show ?thesis using False less.prems(1)
      by (auto simp: read_stream.simps [of app inp t] split: prod.split)
  next
    case True
    obtain bs inp' where r: "istream_read (length (t_buf t) - t_cursor t) inp = (bs, inp')" by fastforce
    have io: "i_data inp = bs @ i_data inp'" "length bs \<le> length (t_buf t) - t_cursor t" "\<not> i_bad inp'" "\<not> i_breaks inp'" "bs \<noteq> []"
        "\<not> i_good inp' \<longrightarrow> i_data inp' = []"
      using r less.prems True by (auto simp: istream_read_def split: if_splits)
    note f = filled [OF less.prems(1) _ io(2)]
    obtain h where h: "t_read_handler t = Some h" using less.prems(1) True by (auto simp: transport_ok_def)
    obtain u where u: "transport_ok u" "taken u = taken t @ bs"
        "read_stream app inp t = read_stream app inp' u"
    proof (cases "t_cursor t + length bs \<ge> t_bytes_needed t")
      case fits: True
      have "complete_read app None ((fill bs t)\<lparr>t_reading := False\<rparr>) = complete_read app None (fill bs t)"
        using h by (simp add: complete_read_def fill_def)
      with completed [OF assms(1), of "fill bs t" h None] h f True obtain v where
        "complete_read app None ((fill bs t)\<lparr>t_reading := False\<rparr>) = Some v" "transport_ok v" "taken v = taken t @ bs" by auto
      then show ?thesis using that True r io fits by (simp add: read_stream.simps [of app inp t] Let_def)
    next
      case False
      then have "transport_ok (fill bs t)" using less.prems(1) f True by (simp add: transport_ok_def)
      then show ?thesis using that True r io f False by (simp add: read_stream.simps [of app inp t] Let_def)
    qed
    have "length (i_data inp') < length (i_data inp)" using io(1,5) by simp
    from less.hyps [OF this u(1) io(4,3)] show ?thesis using u io(1,6) by auto
  qed
qed

text \<open>
  The stream operator hands over a prefix of the stream, the octets it took and no others, and stops only at the end of the
  stream or when no read is outstanding, as long as the stream does not go bad. A stream that goes bad with the octets that complete the
  read makes it call the handler that \<^verbatim>\<open>complete_read\<close> has just emptied, which throws.
\<close>

theorem stream_delivers_or_throws:
  assumes "io_app_ok app" "transport_ok t" "\<not> i_bad inp"
  shows "(\<not> i_breaks inp \<longrightarrow> (\<exists>inp' t' bs. read_stream app inp t = Some (inp', t') \<and> i_data inp = bs @ i_data inp' \<and>
      taken t' = taken t @ bs \<and> (t_reading t' \<longrightarrow> i_data inp' = [] \<or> \<not> i_good inp))) \<and>
    (i_breaks inp \<and> i_good inp \<and> t_reading t \<and> i_data inp \<noteq> [] \<and> length (i_data inp) < length (t_buf t) - t_cursor t \<and>
      t_bytes_needed t \<le> t_cursor t + length (i_data inp) \<longrightarrow> read_stream (\<lambda>ev t. t) inp t = None)"
proof (intro conjI impI)
  assume "\<not> i_breaks inp"
  from read_stream_takes [OF assms(1,2) this assms(3)] show "\<exists>inp' t' bs. read_stream app inp t = Some (inp', t') \<and>
      i_data inp = bs @ i_data inp' \<and> taken t' = taken t @ bs \<and> (t_reading t' \<longrightarrow> i_data inp' = [] \<or> \<not> i_good inp)" by blast
next
  assume bad: "i_breaks inp \<and> i_good inp \<and> t_reading t \<and> i_data inp \<noteq> [] \<and> length (i_data inp) < length (t_buf t) - t_cursor t \<and>
    t_bytes_needed t \<le> t_cursor t + length (i_data inp)"
  obtain h where "t_read_handler t = Some h" using assms(2) bad by (auto simp: transport_ok_def)
  then show "read_stream (\<lambda>ev t. t) inp t = None"
    using bad by (simp add: read_stream.simps [of _ inp t] istream_read_def complete_read_def call_back_def fill_def)
qed

theorem stream_delivers_or_throws_witness:
  "read_stream (\<lambda>ev t. t) \<lparr>i_data = [1, 2, 3], i_breaks = True, i_good = True, i_bad = False\<rparr>
     (start_read 2 [0, 0, 0, 0] () (make_transport True)) = None"
proof -
  have app: "io_app_ok (\<lambda>ev t. t :: unit transport)" by (simp add: io_app_ok_def asks_nothing)
  have ok: "transport_ok (start_read 2 [0, 0, 0, 0] () (make_transport True))"
    by (simp add: start_read_def make_transport_def transport_ok_def)
  from stream_delivers_or_throws [OF app ok, of "\<lparr>i_data = [1, 2, 3], i_breaks = True, i_good = True, i_bad = False\<rparr>"]
  show ?thesis by (simp add: start_read_def)
qed

text \<open>A write of a list of buffers to a stream that is bad completes once for every buffer with an error, and then with success.\<close>

lemma bad_list_write:
  assumes "t_output t = Some out" "o_bad out"
  shows "\<exists>t'. io_async_write_list (\<lambda>ev t. t) bufs h t = Some t' \<and>
    t_events t' = t_events t @ replicate (length bufs) (On_written h (Some (IO IO_bad_stream))) @ [On_written h None]"
proof -
  have "\<exists>t'. write_buffers (\<lambda>ev t. t) bufs h t = Some t' \<and>
    t_events t' = t_events t @ replicate (length bufs) (On_written h (Some (IO IO_bad_stream))) @ [On_written h None]"
    using assms
  proof (induction bufs arbitrary: t)
    case (Cons b bs)
    let ?t = "t\<lparr>t_output := Some (ostream_write b out), t_events := t_events t @ [On_written h (Some (IO IO_bad_stream))]\<rparr>"
    have "ostream_write b out = out" using Cons.prems by (simp add: ostream_write_def)
    with Cons.IH [of ?t] Cons.prems show ?case by (simp add: call_back_def replicate_append_same)
  qed (simp add: call_back_def)
  then show ?thesis using assms(1) by (simp add: io_async_write_list_def)
qed

text \<open>What is written to a stream with room arrives in order, whether in one call or buffer by buffer.\<close>

lemma good_writes:
  assumes "\<not> o_bad out" "length (o_data out) + length (a @ b) \<le> o_capacity out"
  shows "ostream_write (a @ b) out = ostream_write b (ostream_write a out)" "\<not> o_bad (ostream_write a out)"
    "o_data (ostream_write a out) = o_data out @ a"
  using assms by (simp_all add: ostream_write_def)

end
