(* ===== verification/Asio_Transport.thy ===== *)
theory Asio_Transport
  imports Handshake Uri "HOL-Library.Monad_Syntax"
begin

text \<open>
  The transport over boost::asio (\<^verbatim>\<open>transport/asio/base.hpp\<close>, \<^verbatim>\<open>connection.hpp\<close>, \<^verbatim>\<open>security/\<close> and the connecting half of
  \<^verbatim>\<open>endpoint.hpp\<close>): a connection is resolved, connected, led through a proxy, secured, read and written,
  and shut down. Every wait is guarded by a timer; the two race, and each must leave exactly one callback. The state holds
  the timers and the operations outstanding on the one \<^verbatim>\<open>io_service\<close>; a step completes one of them, whole, with any result, as on one thread or
  one strand. The argument \<open>app\<close> is what a handler does to the transport when it is called. Strands, logs, the
  connection handle and the allocator of handlers are left out.
\<close>

subsection \<open>Errors\<close>

datatype asio_error =
  A_general | A_invalid_num_bytes | A_pass_through | A_proxy_failed | A_proxy_invalid | A_invalid_host_service

fun asio_error_value :: "asio_error \<Rightarrow> nat" where
  "asio_error_value A_general = 1"
| "asio_error_value A_invalid_num_bytes = 2"
| "asio_error_value A_pass_through = 3"
| "asio_error_value A_proxy_failed = 4"
| "asio_error_value A_proxy_invalid = 5"
| "asio_error_value A_invalid_host_service = 6"

definition asio_message :: "nat \<Rightarrow> string" where
  "asio_message v =
     (if v = 1 then ''Generic asio transport policy error''
      else if v = 2 then ''async_read_at_least call requested more bytes than buffer can store''
      else if v = 3 then ''Underlying Transport Error''
      else if v = 4 then ''Proxy connection failed''
      else if v = 5 then ''Invalid proxy URI''
      else if v = 6 then ''Invalid host or service''
      else ''Unknown'')"

datatype socket_error =
    So_security | So_socket | So_invalid_state | So_invalid_tls_context | So_tls_handshake_timeout
  | So_pass_through | So_missing_tls_init_handler | So_tls_handshake_failed

fun socket_error_value :: "socket_error \<Rightarrow> nat" where
  "socket_error_value So_security = 1"
| "socket_error_value So_socket = 2"
| "socket_error_value So_invalid_state = 3"
| "socket_error_value So_invalid_tls_context = 4"
| "socket_error_value So_tls_handshake_timeout = 5"
| "socket_error_value So_pass_through = 6"
| "socket_error_value So_missing_tls_init_handler = 7"
| "socket_error_value So_tls_handshake_failed = 8"

definition socket_message :: "nat \<Rightarrow> string" where
  "socket_message v =
     (if v = 1 then ''Security policy error''
      else if v = 2 then ''Socket component error''
      else if v = 3 then ''Invalid state''
      else if v = 4 then ''Invalid or empty TLS context supplied''
      else if v = 5 then ''TLS handshake timed out''
      else if v = 6 then ''Pass through from socket policy''
      else if v = 7 then ''Required tls_init handler not present.''
      else if v = 8 then ''TLS handshake failed''
      else ''Unknown'')"

text \<open>A code of the library, and one of boost, as far as the code looks at it.\<close>

datatype asio_code = Asio asio_error | Socket socket_error | Code error_code

datatype sys_error = Sys_aborted | Sys_eof | Sys_not_connected | Sys_tls_short_read | Sys_tls | Sys_other

subsection \<open>State\<close>

text \<open>
  What a timer and an operation hold are the bound arguments of their handlers. An init handler may be empty. The second argument of the
  proxy operations is the timer that was set with the write; the code does not bind it and looks at \<^verbatim>\<open>m_proxy_data->timer\<close> instead.
\<close>

datatype 'h timer_call =
    Tm_user 'h
  | Tm_post_init "'h option"
  | Tm_proxy "'h option"
  | Tm_shutdown 'h
  | Tm_resolve 'h
  | Tm_connect 'h

datatype 'h asio_op =
    Op_handshake "nat option" "'h option"
  | Op_proxy_write "'h option" nat "bytes list"
  | Op_proxy_read "'h option" nat
  | Op_read nat nat
  | Op_write "bytes list"
  | Op_tls_shutdown nat 'h
  | Op_resolve string string nat 'h
  | Op_connect nat 'h
  | Op_posted 'h

text \<open>The calls that promise a callback, and the callbacks.\<close>

datatype 'h asio_event =
    Called_timer 'h
  | Called_init 'h
  | Called_shutdown 'h
  | Called_connect 'h
  | Ev_timer 'h "asio_code option"
  | Ev_init 'h "asio_code option"
  | Ev_shutdown 'h "asio_code option"
  | Ev_connect 'h "asio_code option"
  | Ev_read 'h "asio_code option" bytes
  | Ev_written 'h "asio_code option"
  | Ev_posted 'h
  | Ev_tcp_pre_init
  | Ev_tcp_post_init
  | Ev_socket_init
  | Ev_tls_init

text \<open>A timer is in the queue of the \<^verbatim>\<open>io_service\<close>, has been taken out of it because it was due or because it was cancelled, or has called.\<close>

datatype timer_state = Waiting | Due | Aborted | Finished

record 'h timer =
  tm_expiry :: int
  tm_state :: timer_state
  tm_call :: "'h timer_call"

datatype socket_state = S_UNINITIALIZED | S_READY | S_READING

record proxy_data =
  px_req :: request
  px_res :: response
  px_write_buf :: bytes
  px_read_buf :: string
  px_timeout :: int
  px_timer :: "nat option"

text \<open>The clock counts microseconds, the durations milliseconds.\<close>

record 'h asio =
  a_now :: int
  a_timers :: "'h timer list"
  a_ops :: "'h asio_op list"
  a_service :: bool
  a_socket :: bool
  a_state :: socket_state
  a_tls_ec :: "asio_code option"
  a_proxy :: string
  a_proxy_data :: "proxy_data option"
  a_bufs :: "bytes list"
  a_read_handler :: "'h option"
  a_write_handler :: "'h option"
  a_init_handler :: "'h option"
  a_async_read_handler :: bool
  a_async_write_handler :: bool
  a_tcp_pre_init :: bool
  a_tcp_post_init :: bool
  a_socket_init :: bool
  a_events :: "'h asio_event list"

text \<open>
  The configuration: the socket policy, what its TLS init handler returns (nothing without a handler), the timeouts, and how many
  microseconds after its time a timer is taken out of the queue at the earliest.
\<close>

record asio_config =
  cf_secure :: bool
  cf_tls_context :: "bool option"
  cf_timeout_dns :: int
  cf_timeout_connect :: int
  cf_timeout_proxy :: int
  cf_timeout_post_init :: int
  cf_timeout_shutdown :: int
  cf_slack :: int

type_synonym 'h asio_app = "'h asio_event \<Rightarrow> 'h asio \<Rightarrow> 'h asio"

definition make_asio :: "int \<Rightarrow> 'h asio" where
  "make_asio now =
     \<lparr>a_now = now, a_timers = [], a_ops = [], a_service = False, a_socket = False, a_state = S_UNINITIALIZED, a_tls_ec = None,
      a_proxy = [], a_proxy_data = None, a_bufs = [], a_read_handler = None, a_write_handler = None, a_init_handler = None,
      a_async_read_handler = False, a_async_write_handler = False, a_tcp_pre_init = False, a_tcp_post_init = False,
      a_socket_init = False, a_events = []\<rparr>"

definition log_event :: "'h asio_event \<Rightarrow> 'h asio \<Rightarrow> 'h asio" where
  "log_event ev s = s\<lparr>a_events := a_events s @ [ev]\<rparr>"

definition invoke :: "'h asio_app \<Rightarrow> 'h asio_event \<Rightarrow> 'h asio \<Rightarrow> 'h asio" where
  "invoke app ev s = app ev (log_event ev s)"

text \<open>Calling an empty init handler throws: \<open>None\<close>. So is everything the language leaves undefined.\<close>

definition invoke_init :: "'h asio_app \<Rightarrow> 'h option \<Rightarrow> asio_code option \<Rightarrow> 'h asio \<Rightarrow> 'h asio option" where
  "invoke_init app cb ec s = map_option (\<lambda>h. invoke app (Ev_init h ec) s) cb"

definition start :: "'h asio_op \<Rightarrow> 'h asio \<Rightarrow> 'h asio" where "start op s = s\<lparr>a_ops := a_ops s @ [op]\<rparr>"

text \<open>\<^verbatim>\<open>get_socket()\<close> and its relatives dereference the pointer.\<close>

definition with_socket :: "'h asio \<Rightarrow> 'h asio option" where "with_socket s = (if a_socket s then Some s else None)"

subsection \<open>Timers\<close>

definition add_timer :: "int \<Rightarrow> 'h timer_call \<Rightarrow> 'h asio \<Rightarrow> (nat \<times> 'h asio) option" where
  "add_timer duration call s =
     (if a_service s
      then Some (length (a_timers s),
        s\<lparr>a_timers := a_timers s @ [\<lparr>tm_expiry = a_now s + 1000 * duration, tm_state = Waiting, tm_call = call\<rparr>]\<rparr>)
      else None)"

definition set_timer_state :: "nat \<Rightarrow> timer_state \<Rightarrow> 'h asio \<Rightarrow> 'h asio" where
  "set_timer_state i st s = s\<lparr>a_timers := (a_timers s)[i := (a_timers s ! i)\<lparr>tm_state := st\<rparr>]\<rparr>"

definition cancel_timer :: "nat \<Rightarrow> 'h asio \<Rightarrow> 'h asio" where
  "cancel_timer i s = (if tm_state (a_timers s ! i) = Waiting then set_timer_state i Aborted s else s)"

text \<open>\<^verbatim>\<open>expires_from_now().is_negative()\<close>\<close>

definition timer_expired :: "nat \<Rightarrow> 'h asio \<Rightarrow> bool" where
  "timer_expired i s \<longleftrightarrow> tm_expiry (a_timers s ! i) < a_now s"

subsection \<open>The socket policies\<close>

text \<open>\<^verbatim>\<open>none.hpp\<close> and \<^verbatim>\<open>tls.hpp\<close>; the configuration chooses.\<close>

definition tls_translate_ec :: "sys_error \<Rightarrow> transport_error" where
  "tls_translate_ec e = (case e of Sys_tls_short_read \<Rightarrow> T_tls_short_read | Sys_tls \<Rightarrow> T_tls_error | _ \<Rightarrow> T_pass_through)"
definition plain_translate_ec :: "sys_error \<Rightarrow> transport_error" where "plain_translate_ec e = T_pass_through"
definition translate_ec :: "asio_config \<Rightarrow> sys_error \<Rightarrow> transport_error" where
  "translate_ec cf e = (if cf_secure cf then tls_translate_ec e else plain_translate_ec e)"

definition tls_init_asio :: "asio_config \<Rightarrow> 'h asio_app \<Rightarrow> 'h asio \<Rightarrow> asio_code option \<times> 'h asio" where
  "tls_init_asio cf app s =
     (case cf_tls_context cf of
        None \<Rightarrow> (Some (Socket So_missing_tls_init_handler), s)
      | Some ok \<Rightarrow>
          let s = invoke app Ev_tls_init s
          in if ok then (None, s\<lparr>a_socket := True\<rparr>) else (Some (Socket So_invalid_tls_context), s))"
definition plain_init_asio :: "'h asio \<Rightarrow> asio_code option \<times> 'h asio" where
  "plain_init_asio s =
     (if a_state s \<noteq> S_UNINITIALIZED then (Some (Socket So_invalid_state), s)
      else (None, s\<lparr>a_socket := True, a_state := S_READY\<rparr>))"
definition socket_init_asio :: "asio_config \<Rightarrow> 'h asio_app \<Rightarrow> 'h asio \<Rightarrow> asio_code option \<times> 'h asio" where
  "socket_init_asio cf app s = (if cf_secure cf then tls_init_asio cf app s else plain_init_asio s)"

text \<open>\<^verbatim>\<open>pre_init\<close>, as far as its callback: the code it passes on.\<close>

definition run_socket_init :: "'h asio_app \<Rightarrow> 'h asio \<Rightarrow> 'h asio option" where
  "run_socket_init app s = (if a_socket_init s then do { s \<leftarrow> with_socket s; Some (invoke app Ev_socket_init s) } else Some s)"

definition tls_pre_init :: "'h asio_app \<Rightarrow> 'h asio \<Rightarrow> (asio_code option \<times> 'h asio) option" where
  "tls_pre_init app s = do { s \<leftarrow> run_socket_init app s; Some (None, s) }"
definition plain_pre_init :: "'h asio_app \<Rightarrow> 'h asio \<Rightarrow> (asio_code option \<times> 'h asio) option" where
  "plain_pre_init app s =
     (if a_state s \<noteq> S_READY then Some (Some (Socket So_invalid_state), s)
      else do { s \<leftarrow> run_socket_init app s; Some (None, s\<lparr>a_state := S_READING\<rparr>) })"
definition socket_pre_init :: "asio_config \<Rightarrow> 'h asio_app \<Rightarrow> 'h asio \<Rightarrow> (asio_code option \<times> 'h asio) option" where
  "socket_pre_init cf app s = (if cf_secure cf then tls_pre_init app s else plain_pre_init app s)"

lemmas socket_defs = socket_init_asio_def tls_init_asio_def plain_init_asio_def socket_pre_init_def tls_pre_init_def plain_pre_init_def
  run_socket_init_def

definition cancel_socket :: "'h asio \<Rightarrow> 'h asio option" where "cancel_socket s = with_socket s"

definition get_ec :: "asio_config \<Rightarrow> 'h asio \<Rightarrow> asio_code option" where
  "get_ec cf s = (if cf_secure cf then a_tls_ec s else None)"

text \<open>The address the socket names, or the error it has.\<close>

definition asio_remote_endpoint :: "sys_error + string \<Rightarrow> 'h asio \<Rightarrow> string option" where
  "asio_remote_endpoint peer s =
     (if a_socket s then Some (case peer of Inl e \<Rightarrow> ''Unknown'' | Inr address \<Rightarrow> address) else None)"

subsection \<open>Configuration of the connection\<close>

definition asio_set_tcp_pre_init_handler :: "bool \<Rightarrow> 'h asio \<Rightarrow> 'h asio" where
  "asio_set_tcp_pre_init_handler on s = s\<lparr>a_tcp_pre_init := on\<rparr>"
definition asio_set_tcp_post_init_handler :: "bool \<Rightarrow> 'h asio \<Rightarrow> 'h asio" where
  "asio_set_tcp_post_init_handler on s = s\<lparr>a_tcp_post_init := on\<rparr>"
definition asio_set_socket_init_handler :: "bool \<Rightarrow> 'h asio \<Rightarrow> 'h asio" where
  "asio_set_socket_init_handler on s = s\<lparr>a_socket_init := on\<rparr>"

definition make_proxy_data :: "asio_config \<Rightarrow> proxy_data" where
  "make_proxy_data cf = \<lparr>px_req = make_request, px_res = make_response, px_write_buf = [], px_read_buf = [],
     px_timeout = cf_timeout_proxy cf, px_timer = None\<rparr>"

definition set_proxy :: "asio_config \<Rightarrow> string \<Rightarrow> 'h asio \<Rightarrow> 'h asio" where
  "set_proxy cf target s = s\<lparr>a_proxy := target, a_proxy_data := Some (make_proxy_data cf)\<rparr>"

definition set_proxy_basic_auth :: "string \<Rightarrow> string \<Rightarrow> 'h asio \<Rightarrow> ec \<times> 'h asio" where
  "set_proxy_basic_auth username password s =
     (case a_proxy_data s of
        None \<Rightarrow> (Some (Lib E_invalid_state), s)
      | Some px \<Rightarrow>
          let val = ''Basic '' @ octets_text (base64_encode (octets (username @ '':'' @ password)))
          in (None, s\<lparr>a_proxy_data := Some (px\<lparr>px_req := replace_header ''Proxy-Authorization'' val (px_req px)\<rparr>)\<rparr>))"

definition set_proxy_timeout :: "int \<Rightarrow> 'h asio \<Rightarrow> ec \<times> 'h asio" where
  "set_proxy_timeout duration s =
     (case a_proxy_data s of
        None \<Rightarrow> (Some (Lib E_invalid_state), s)
      | Some px \<Rightarrow> (None, s\<lparr>a_proxy_data := Some (px\<lparr>px_timeout := duration\<rparr>)\<rparr>))"

text \<open>\<open>CONNECT\<close> is a token, so \<open>set_method\<close> does not throw; \<open>None\<close> stands for that.\<close>

definition proxy_init :: "string \<Rightarrow> 'h asio \<Rightarrow> (ec \<times> 'h asio) option" where
  "proxy_init authority s =
     (case a_proxy_data s of
        None \<Rightarrow> Some (Some (Lib E_invalid_state), s)
      | Some px \<Rightarrow>
          (case set_method ''CONNECT'' (set_version ''HTTP/1.1'' (px_req px)) of
             Value r \<Rightarrow> Some (None, s\<lparr>a_proxy_data := Some (px\<lparr>px_req := replace_header ''Host'' authority (set_uri authority r)\<rparr>)\<rparr>)
           | _ \<Rightarrow> None))"

definition asio_init_asio :: "asio_config \<Rightarrow> 'h asio_app \<Rightarrow> 'h asio \<Rightarrow> asio_code option \<times> 'h asio" where
  "asio_init_asio cf app s =
     (let (ec, s) = socket_init_asio cf app (s\<lparr>a_service := True, a_async_read_handler := True, a_async_write_handler := True\<rparr>)
      in (ec, if ec \<noteq> None then s\<lparr>a_async_read_handler := False, a_async_write_handler := False\<rparr> else s))"

subsection \<open>Initialisation\<close>

text \<open>Timers the application sets through the connection.\<close>

definition asio_set_timer :: "int \<Rightarrow> 'h \<Rightarrow> 'h asio \<Rightarrow> (nat \<times> 'h asio) option" where
  "asio_set_timer duration h s = add_timer duration (Tm_user h) (log_event (Called_timer h) s)"

definition handle_post_init :: "'h asio_app \<Rightarrow> nat option \<Rightarrow> 'h option \<Rightarrow> asio_code option \<Rightarrow> 'h asio \<Rightarrow> 'h asio option" where
  "handle_post_init app post_timer cb ec s =
     (if ec = Some (Code (Transport T_operation_aborted)) \<or> (case post_timer of None \<Rightarrow> False | Some t \<Rightarrow> timer_expired t s)
      then Some s
      else
        let s = (case post_timer of None \<Rightarrow> s | Some t \<Rightarrow> cancel_timer t s);
            s = (if a_tcp_post_init s then invoke app Ev_tcp_post_init s else s)
        in invoke_init app cb ec s)"

definition handle_post_init_timeout :: "asio_config \<Rightarrow> 'h asio_app \<Rightarrow> 'h option \<Rightarrow> asio_code option \<Rightarrow> 'h asio \<Rightarrow> 'h asio option" where
  "handle_post_init_timeout cf app cb ec s =
     (if ec = Some (Code (Transport T_operation_aborted)) then Some s
      else
        let ret = (if ec \<noteq> None then ec else if get_ec cf s \<noteq> None then get_ec cf s else Some (Code (Transport T_timeout)))
        in do { s \<leftarrow> cancel_socket s; invoke_init app cb ret s })"

text \<open>The socket's \<^verbatim>\<open>post_init\<close>: without TLS the callback is called at once.\<close>

definition tls_post_init :: "nat option \<Rightarrow> 'h option \<Rightarrow> 'h asio \<Rightarrow> 'h asio option" where
  "tls_post_init post_timer cb s = do {
     s \<leftarrow> with_socket (s\<lparr>a_tls_ec := Some (Socket So_tls_handshake_timeout)\<rparr>);
     Some (start (Op_handshake post_timer cb) s) }"

definition post_init :: "asio_config \<Rightarrow> 'h asio_app \<Rightarrow> 'h asio \<Rightarrow> 'h asio option" where
  "post_init cf app s = do {
     (post_timer, s) \<leftarrow>
       (if cf_timeout_post_init cf > 0
        then map_option (apfst Some) (add_timer (cf_timeout_post_init cf) (Tm_post_init (a_init_handler s)) s)
        else Some (None, s));
     (if cf_secure cf then tls_post_init post_timer (a_init_handler s) s
      else handle_post_init app post_timer (a_init_handler s) None s) }"

text \<open>\<^verbatim>\<open>tls.hpp\<close>: the end of the handshake.\<close>

definition handle_init :: "'h asio_app \<Rightarrow> nat option \<Rightarrow> 'h option \<Rightarrow> sys_error option \<Rightarrow> 'h asio \<Rightarrow> 'h asio option" where
  "handle_init app post_timer cb sys s =
     (let s = s\<lparr>a_tls_ec := (if sys \<noteq> None then Some (Socket So_tls_handshake_failed) else None)\<rparr>
      in handle_post_init app post_timer cb (a_tls_ec s) s)"

definition proxy_write :: "'h asio_app \<Rightarrow> 'h asio \<Rightarrow> 'h asio option" where
  "proxy_write app s =
     (case a_proxy_data s of
        None \<Rightarrow> invoke_init app (a_init_handler s) (Some (Asio A_general)) s
      | Some px \<Rightarrow>
          let buf = octets (request_raw (px_req px)); bufs = a_bufs s @ [buf] in do {
            (t, s) \<leftarrow> add_timer (px_timeout px) (Tm_proxy (a_init_handler s)) (s\<lparr>a_bufs := bufs\<rparr>);
            let s = s\<lparr>a_proxy_data := Some (px\<lparr>px_write_buf := buf, px_timer := Some t\<rparr>)\<rparr>;
            s \<leftarrow> with_socket s;
            Some (start (Op_proxy_write (a_init_handler s) t bufs) s) })"

definition handle_pre_init :: "asio_config \<Rightarrow> 'h asio_app \<Rightarrow> asio_code option \<Rightarrow> 'h asio \<Rightarrow> 'h asio option" where
  "handle_pre_init cf app ec s =
     (let s = (if a_tcp_pre_init s then invoke app Ev_tcp_pre_init s else s) in do {
        s \<leftarrow> (if ec \<noteq> None then invoke_init app (a_init_handler s) ec s else Some s);
        (if a_proxy s \<noteq> [] then proxy_write app s else post_init cf app s) })"

definition asio_init :: "asio_config \<Rightarrow> 'h asio_app \<Rightarrow> 'h \<Rightarrow> 'h asio \<Rightarrow> 'h asio option" where
  "asio_init cf app h s = do {
     (ec, s) \<leftarrow> socket_pre_init cf app (log_event (Called_init h) (s\<lparr>a_init_handler := Some h\<rparr>));
     handle_pre_init cf app ec s }"

subsection \<open>The proxy\<close>

definition handle_proxy_timeout :: "'h asio_app \<Rightarrow> 'h option \<Rightarrow> asio_code option \<Rightarrow> 'h asio \<Rightarrow> 'h asio option" where
  "handle_proxy_timeout app cb ec s =
     (if ec = Some (Code (Transport T_operation_aborted)) then Some s
      else if ec \<noteq> None then invoke_init app cb ec s
      else do { s \<leftarrow> cancel_socket s; invoke_init app cb (Some (Code (Transport T_timeout))) s })"

text \<open>\<^verbatim>\<open>m_proxy_data->timer\<close>: either pointer may be null.\<close>

definition proxy_timer :: "'h asio \<Rightarrow> nat option" where "proxy_timer s = Option.bind (a_proxy_data s) px_timer"

text \<open>Without proxy data, \<^verbatim>\<open>proxy_read\<close> goes through the null pointer.\<close>

definition proxy_read :: "'h option \<Rightarrow> nat \<Rightarrow> 'h asio \<Rightarrow> 'h asio option" where
  "proxy_read cb t s =
     (case a_proxy_data s of
        None \<Rightarrow> None
      | Some px \<Rightarrow> do { s \<leftarrow> with_socket s; Some (start (Op_proxy_read cb t) s) })"

definition handle_proxy_write :: "'h asio_app \<Rightarrow> 'h option \<Rightarrow> nat \<Rightarrow> sys_error option \<Rightarrow> 'h asio \<Rightarrow> 'h asio option" where
  "handle_proxy_write app cb t0 sys s =
     (let s = s\<lparr>a_bufs := []\<rparr> in
      if sys = Some Sys_aborted then Some s
      else do {
        t \<leftarrow> proxy_timer s;
        (if timer_expired t s then Some s
         else if sys \<noteq> None then invoke_init app cb (Some (Asio A_pass_through)) (cancel_timer t s)
         else proxy_read cb t0 s) })"

text \<open>
  What the read got is in the buffer; reading the response takes all of it. A parser that throws ends the handler. Then the response is
  judged, and with the proxy data gone the connection goes on.
\<close>

definition judge_proxy :: "asio_config \<Rightarrow> 'h asio_app \<Rightarrow> 'h option \<Rightarrow> 'h asio \<Rightarrow> 'h asio option" where
  "judge_proxy cf app cb s =
     (case a_proxy_data s of
        None \<Rightarrow> invoke_init app cb (Some (Asio A_general)) s
      | Some px \<Rightarrow>
          (case response_consume_stream (px_read_buf px) (px_res px) of
             Value (res, n) \<Rightarrow>
               let s = s\<lparr>a_proxy_data := Some (px\<lparr>px_res := res, px_read_buf := []\<rparr>)\<rparr> in
               if \<not> headers_ready res then invoke_init app cb (Some (Asio A_general)) s
               else if m_status_code res \<noteq> status_value S_ok then invoke_init app cb (Some (Asio A_proxy_failed)) s
               else post_init cf app (s\<lparr>a_proxy_data := None\<rparr>)
           | Throw msg code \<Rightarrow> None
           | Bad_range \<Rightarrow> None))"

definition handle_proxy_read ::
    "asio_config \<Rightarrow> 'h asio_app \<Rightarrow> 'h option \<Rightarrow> sys_error option \<Rightarrow> string \<Rightarrow> 'h asio \<Rightarrow> 'h asio option" where
  "handle_proxy_read cf app cb sys received s =
     (let s = s\<lparr>a_proxy_data := map_option (\<lambda>px. px\<lparr>px_read_buf := px_read_buf px @ received\<rparr>) (a_proxy_data s)\<rparr> in
      if sys = Some Sys_aborted then Some s
      else do {
        t \<leftarrow> proxy_timer s;
        (if timer_expired t s then Some s
         else if sys \<noteq> None then invoke_init app cb (Some (Asio A_pass_through)) (cancel_timer t s)
         else judge_proxy cf app cb (cancel_timer t s)) })"

subsection \<open>Reading and writing\<close>

definition asio_read_at_least :: "'h asio_app \<Rightarrow> nat \<Rightarrow> nat \<Rightarrow> 'h \<Rightarrow> 'h asio \<Rightarrow> 'h asio option" where
  "asio_read_at_least app num len h s =
     (if \<not> a_async_read_handler s then Some (invoke app (Ev_read h (Some (Code (Transport T_action_after_shutdown))) []) s)
      else do { s \<leftarrow> with_socket (s\<lparr>a_read_handler := Some h\<rparr>); Some (start (Op_read num len) s) })"

definition handle_async_read :: "asio_config \<Rightarrow> 'h asio_app \<Rightarrow> sys_error option \<Rightarrow> bytes \<Rightarrow> 'h asio \<Rightarrow> 'h asio" where
  "handle_async_read cf app sys received s =
     (let tec = (case sys of
            None \<Rightarrow> None
          | Some Sys_eof \<Rightarrow> Some (Code (Transport T_eof))
          | Some e \<Rightarrow> Some (Code (Transport (translate_ec cf e))))
      in case a_read_handler s of None \<Rightarrow> s | Some h \<Rightarrow> invoke app (Ev_read h tec received) s)"

text \<open>A write of one buffer is a write of a list of one; both take all the buffers in the member.\<close>

definition asio_write :: "'h asio_app \<Rightarrow> bytes list \<Rightarrow> 'h \<Rightarrow> 'h asio \<Rightarrow> 'h asio option" where
  "asio_write app bufs h s =
     (if \<not> a_async_write_handler s then Some (invoke app (Ev_written h (Some (Code (Transport T_action_after_shutdown)))) s)
      else do {
        s \<leftarrow> with_socket (s\<lparr>a_bufs := a_bufs s @ bufs, a_write_handler := Some h\<rparr>);
        Some (start (Op_write (a_bufs s)) s) })"

definition asio_write_single :: "'h asio_app \<Rightarrow> bytes \<Rightarrow> 'h \<Rightarrow> 'h asio \<Rightarrow> 'h asio option" where
  "asio_write_single app buf h s =
     (if \<not> a_async_write_handler s then Some (invoke app (Ev_written h (Some (Code (Transport T_action_after_shutdown)))) s)
      else do {
        s \<leftarrow> with_socket (s\<lparr>a_bufs := a_bufs s @ [buf], a_write_handler := Some h\<rparr>);
        Some (start (Op_write (a_bufs s)) s) })"

definition handle_async_write :: "'h asio_app \<Rightarrow> sys_error option \<Rightarrow> 'h asio \<Rightarrow> 'h asio" where
  "handle_async_write app sys s =
     (let s = s\<lparr>a_bufs := []\<rparr>; tec = (if sys \<noteq> None then Some (Asio A_pass_through) else None)
      in case a_write_handler s of None \<Rightarrow> s | Some h \<Rightarrow> invoke app (Ev_written h tec) s)"

definition asio_interrupt :: "'h \<Rightarrow> 'h asio \<Rightarrow> (asio_code option \<times> 'h asio) option" where
  "asio_interrupt h s = (if a_service s then Some (None, start (Op_posted h) s) else None)"
definition asio_dispatch :: "'h \<Rightarrow> 'h asio \<Rightarrow> (asio_code option \<times> 'h asio) option" where
  "asio_dispatch h s = (if a_service s then Some (None, start (Op_posted h) s) else None)"

subsection \<open>Shutdown\<close>

definition handle_async_shutdown :: "asio_config \<Rightarrow> 'h asio_app \<Rightarrow> nat \<Rightarrow> 'h \<Rightarrow> sys_error option \<Rightarrow> 'h asio \<Rightarrow> 'h asio" where
  "handle_async_shutdown cf app t h sys s =
     (if sys = Some Sys_aborted \<or> timer_expired t s then s
      else
        let s = cancel_timer t s;
            tec = (case sys of
                None \<Rightarrow> None
              | Some Sys_not_connected \<Rightarrow> None
              | Some e \<Rightarrow> Some (Code (Transport (translate_ec cf e))))
        in invoke app (Ev_shutdown h tec) s)"

definition handle_async_shutdown_timeout :: "'h asio_app \<Rightarrow> 'h \<Rightarrow> asio_code option \<Rightarrow> 'h asio \<Rightarrow> 'h asio option" where
  "handle_async_shutdown_timeout app h ec s =
     (if ec = Some (Code (Transport T_operation_aborted)) then Some s
      else
        let ret = (if ec \<noteq> None then ec else Some (Code (Transport T_timeout)))
        in do { s \<leftarrow> cancel_socket s; Some (invoke app (Ev_shutdown h ret) s) })"

text \<open>\<open>sys\<close> is what the shutdown of a plain socket reports at once.\<close>

definition asio_shutdown :: "asio_config \<Rightarrow> 'h asio_app \<Rightarrow> sys_error option \<Rightarrow> 'h \<Rightarrow> 'h asio \<Rightarrow> 'h asio option" where
  "asio_shutdown cf app sys h s = do {
     (t, s) \<leftarrow> add_timer (cf_timeout_shutdown cf) (Tm_shutdown h) (log_event (Called_shutdown h)
       (s\<lparr>a_async_read_handler := False, a_async_write_handler := False, a_init_handler := None,
          a_read_handler := None, a_write_handler := None\<rparr>));
     s \<leftarrow> with_socket s;
     (if cf_secure cf then Some (start (Op_tls_shutdown t h) s) else Some (handle_async_shutdown cf app t h sys s)) }"

subsection \<open>Connecting\<close>

text \<open>From \<^verbatim>\<open>endpoint.hpp\<close>. The resolver is created by the first call, and is the one of all connections of the endpoint.\<close>

definition start_resolve :: "asio_config \<Rightarrow> string \<Rightarrow> string \<Rightarrow> 'h \<Rightarrow> 'h asio \<Rightarrow> 'h asio option" where
  "start_resolve cf host port h s = do {
     (t, s) \<leftarrow> add_timer (cf_timeout_dns cf) (Tm_resolve h) s;
     Some (start (Op_resolve host port t h) s) }"

definition asio_connect :: "asio_config \<Rightarrow> 'h asio_app \<Rightarrow> uri \<Rightarrow> 'h \<Rightarrow> 'h asio \<Rightarrow> 'h asio option" where
  "asio_connect cf app u h s =
     (let s = log_event (Called_connect h) s in
      if a_proxy s = [] then start_resolve cf (m_host u) (get_port_str u) h s
      else
        let pu = parse_uri (a_proxy s) in
        if \<not> m_valid pu then Some (invoke app (Ev_connect h (Some (Asio A_proxy_invalid))) s)
        else do {
          (ec, s) \<leftarrow> proxy_init (get_authority u) s;
          (if ec \<noteq> None then Some (invoke app (Ev_connect h (map_option Code ec)) s)
           else start_resolve cf (m_host pu) (get_port_str pu) h s) })"

text \<open>Cancelling the resolver makes no difference here: an operation may end with any error at any time.\<close>

definition handle_resolve_timeout :: "'h asio_app \<Rightarrow> 'h \<Rightarrow> asio_code option \<Rightarrow> 'h asio \<Rightarrow> 'h asio" where
  "handle_resolve_timeout app h ec s =
     (if ec = Some (Code (Transport T_operation_aborted)) then s
      else invoke app (Ev_connect h (if ec \<noteq> None then ec else Some (Code (Transport T_timeout)))) s)"

definition handle_resolve :: "asio_config \<Rightarrow> 'h asio_app \<Rightarrow> nat \<Rightarrow> 'h \<Rightarrow> sys_error option \<Rightarrow> 'h asio \<Rightarrow> 'h asio option" where
  "handle_resolve cf app t h sys s =
     (if sys = Some Sys_aborted \<or> timer_expired t s then Some s
      else
        let s = cancel_timer t s in
        if sys \<noteq> None then Some (invoke app (Ev_connect h (Some (Asio A_pass_through))) s)
        else do {
          (t, s) \<leftarrow> add_timer (cf_timeout_connect cf) (Tm_connect h) s;
          s \<leftarrow> with_socket s;
          Some (start (Op_connect t h) s) })"

definition handle_connect_timeout :: "'h asio_app \<Rightarrow> 'h \<Rightarrow> asio_code option \<Rightarrow> 'h asio \<Rightarrow> 'h asio option" where
  "handle_connect_timeout app h ec s =
     (if ec = Some (Code (Transport T_operation_aborted)) then Some s
      else do {
        s \<leftarrow> cancel_socket s;
        Some (invoke app (Ev_connect h (if ec \<noteq> None then ec else Some (Code (Transport T_timeout)))) s) })"

definition asio_handle_connect :: "'h asio_app \<Rightarrow> nat \<Rightarrow> 'h \<Rightarrow> sys_error option \<Rightarrow> 'h asio \<Rightarrow> 'h asio" where
  "asio_handle_connect app t h sys s =
     (if sys = Some Sys_aborted \<or> timer_expired t s then s
      else invoke app (Ev_connect h (if sys \<noteq> None then Some (Asio A_pass_through) else None)) (cancel_timer t s))"

subsection \<open>Completions\<close>

text \<open>\<^verbatim>\<open>handle_timer\<close>, and the function bound as its callback.\<close>

fun run_timer_call :: "asio_config \<Rightarrow> 'h asio_app \<Rightarrow> 'h timer_call \<Rightarrow> asio_code option \<Rightarrow> 'h asio \<Rightarrow> 'h asio option" where
  "run_timer_call cf app (Tm_user h) ec s = Some (invoke app (Ev_timer h ec) s)"
| "run_timer_call cf app (Tm_post_init cb) ec s = handle_post_init_timeout cf app cb ec s"
| "run_timer_call cf app (Tm_proxy cb) ec s = handle_proxy_timeout app cb ec s"
| "run_timer_call cf app (Tm_shutdown h) ec s = handle_async_shutdown_timeout app h ec s"
| "run_timer_call cf app (Tm_resolve h) ec s = Some (handle_resolve_timeout app h ec s)"
| "run_timer_call cf app (Tm_connect h) ec s = handle_connect_timeout app h ec s"

definition handle_timer :: "asio_config \<Rightarrow> 'h asio_app \<Rightarrow> 'h timer_call \<Rightarrow> sys_error option \<Rightarrow> 'h asio \<Rightarrow> 'h asio option" where
  "handle_timer cf app call sys s =
     run_timer_call cf app call
       (case sys of
          None \<Rightarrow> None
        | Some Sys_aborted \<Rightarrow> Some (Code (Transport T_operation_aborted))
        | Some _ \<Rightarrow> Some (Asio A_pass_through)) s"

text \<open>
  The \<^verbatim>\<open>io_service\<close> takes a timer that is due out of its queue; its handler runs when its turn comes, and can then no longer be
  cancelled. Any other operation ends with any error, or with none and what it received.
\<close>

definition timer_due :: "asio_config \<Rightarrow> nat \<Rightarrow> 'h asio \<Rightarrow> bool" where
  "timer_due cf i s \<longleftrightarrow> i < length (a_timers s) \<and> tm_state (a_timers s ! i) = Waiting \<and> tm_expiry (a_timers s ! i) + cf_slack cf \<le> a_now s"

definition run_timer :: "asio_config \<Rightarrow> 'h asio_app \<Rightarrow> nat \<Rightarrow> 'h asio \<Rightarrow> 'h asio option" where
  "run_timer cf app i s =
     (if i < length (a_timers s) \<and> tm_state (a_timers s ! i) \<in> {Due, Aborted}
      then handle_timer cf app (tm_call (a_timers s ! i)) (if tm_state (a_timers s ! i) = Due then None else Some Sys_aborted)
        (set_timer_state i Finished s)
      else None)"

fun complete_op :: "asio_config \<Rightarrow> 'h asio_app \<Rightarrow> 'h asio_op \<Rightarrow> sys_error option \<Rightarrow> string \<Rightarrow> 'h asio \<Rightarrow> 'h asio option" where
  "complete_op cf app (Op_handshake t cb) sys received s = handle_init app t cb sys s"
| "complete_op cf app (Op_proxy_write cb t bufs) sys received s = handle_proxy_write app cb t sys s"
| "complete_op cf app (Op_proxy_read cb t) sys received s = handle_proxy_read cf app cb sys received s"
| "complete_op cf app (Op_read num len) sys received s = Some (handle_async_read cf app sys (octets received) s)"
| "complete_op cf app (Op_write bufs) sys received s = Some (handle_async_write app sys s)"
| "complete_op cf app (Op_tls_shutdown t h) sys received s = Some (handle_async_shutdown cf app t h sys s)"
| "complete_op cf app (Op_resolve host port t h) sys received s = handle_resolve cf app t h sys s"
| "complete_op cf app (Op_connect t h) sys received s = Some (asio_handle_connect app t h sys s)"
| "complete_op cf app (Op_posted h) sys received s = Some (invoke app (Ev_posted h) s)"

definition run_op :: "asio_config \<Rightarrow> 'h asio_app \<Rightarrow> nat \<Rightarrow> sys_error option \<Rightarrow> string \<Rightarrow> 'h asio \<Rightarrow> 'h asio option" where
  "run_op cf app i sys received s =
     (if i < length (a_ops s)
      then complete_op cf app (a_ops s ! i) sys received (s\<lparr>a_ops := take i (a_ops s) @ drop (Suc i) (a_ops s)\<rparr>)
      else None)"

subsection \<open>Runs\<close>

text \<open>
  The calls of the transport. \<^verbatim>\<open>init_asio\<close> and \<^verbatim>\<open>init\<close> are called once, the latter on a socket that was initialised; only timers of
  the application's own are cancelled.
\<close>

inductive calls :: "asio_config \<Rightarrow> 'h asio_app \<Rightarrow> 'h asio \<Rightarrow> 'h asio \<Rightarrow> bool" for cf app where
  call_set_timer: "asio_set_timer d h s = Some (t, s') \<Longrightarrow> calls cf app s s'"
| call_cancel_timer: "t < length (a_timers s) \<Longrightarrow> tm_call (a_timers s ! t) = Tm_user h \<Longrightarrow> calls cf app s (cancel_timer t s)"
| call_tcp_pre_init: "calls cf app s (asio_set_tcp_pre_init_handler b s)"
| call_tcp_post_init: "calls cf app s (asio_set_tcp_post_init_handler b s)"
| call_socket_init: "calls cf app s (asio_set_socket_init_handler b s)"
| call_set_proxy: "calls cf app s (set_proxy cf target s)"
| call_basic_auth: "calls cf app s (snd (set_proxy_basic_auth username password s))"
| call_proxy_timeout: "calls cf app s (snd (set_proxy_timeout d s))"
| call_init_asio: "\<not> a_service s \<Longrightarrow> calls cf app s (snd (asio_init_asio cf app s))"
| call_init:
    "(\<forall>h. Called_init h \<notin> set (a_events s)) \<Longrightarrow> cf_secure cf \<or> a_state s = S_READY \<Longrightarrow> asio_init cf app h s = Some s' \<Longrightarrow>
      calls cf app s s'"
| call_read: "asio_read_at_least app num len h s = Some s' \<Longrightarrow> calls cf app s s'"
| call_write: "asio_write app bufs h s = Some s' \<Longrightarrow> calls cf app s s'"
| call_write_single: "asio_write_single app buf h s = Some s' \<Longrightarrow> calls cf app s s'"
| call_interrupt: "asio_interrupt h s = Some (ec, s') \<Longrightarrow> calls cf app s s'"
| call_dispatch: "asio_dispatch h s = Some (ec, s') \<Longrightarrow> calls cf app s s'"
| call_shutdown: "asio_shutdown cf app sys h s = Some s' \<Longrightarrow> calls cf app s s'"
| call_connect: "asio_connect cf app u h s = Some s' \<Longrightarrow> calls cf app s s'"

text \<open>A handler makes any number of calls, whose own handlers make any number of calls.\<close>

inductive handler_calls :: "asio_config \<Rightarrow> 'h asio \<Rightarrow> 'h asio \<Rightarrow> bool" for cf where
  no_call: "handler_calls cf s s"
| one_call: "handler_calls cf s s1 \<Longrightarrow> (\<forall>ev s. handler_calls cf s (app ev s)) \<Longrightarrow> calls cf app s1 s2 \<Longrightarrow> handler_calls cf s s2"

definition asio_app_ok :: "asio_config \<Rightarrow> 'h asio_app \<Rightarrow> bool" where
  "asio_app_ok cf app \<longleftrightarrow> (\<forall>ev s. handler_calls cf s (app ev s))"

inductive asio_step :: "asio_config \<Rightarrow> 'h asio \<Rightarrow> 'h asio \<Rightarrow> bool" for cf where
  step_call: "asio_app_ok cf app \<Longrightarrow> calls cf app s s' \<Longrightarrow> asio_step cf s s'"
| step_time: "0 \<le> d \<Longrightarrow> asio_step cf s (s\<lparr>a_now := a_now s + d\<rparr>)"
| step_due: "timer_due cf i s \<Longrightarrow> asio_step cf s (set_timer_state i Due s)"
| step_timer: "asio_app_ok cf app \<Longrightarrow> run_timer cf app i s = Some s' \<Longrightarrow> asio_step cf s s'"
| step_op: "asio_app_ok cf app \<Longrightarrow> run_op cf app i sys received s = Some s' \<Longrightarrow> asio_step cf s s'"

inductive asio_reachable :: "asio_config \<Rightarrow> 'h asio \<Rightarrow> bool" for cf where
  asio_fresh: "asio_reachable cf (make_asio now)"
| asio_next: "asio_reachable cf s \<Longrightarrow> asio_step cf s s' \<Longrightarrow> asio_reachable cf s'"

end
