(* ===== verification/Asio_Callbacks.thy ===== *)
theory Asio_Callbacks
  imports Asio_Transport
begin

text \<open>
  Callbacks of the asio transport are owed exactly once. \<open>outstanding\<close> counts what timers and unguarded operations still owe, \<open>balanced\<close> is
  the balance while a handler runs; every function keeps it (\<open>run_timer_balanced\<close>, \<open>run_op_balanced\<close>, \<open>calls_balanced\<close>), if those it
  calls back keep it, and what a handler can do keeps it by induction on its calls.
\<close>

subsection \<open>What is owed\<close>

text \<open>Callbacks are counted for each handler, those of \<^verbatim>\<open>init\<close> together.\<close>

datatype 'h key = Key_timer 'h | Key_init | Key_shutdown 'h | Key_connect 'h

fun call_key :: "'h asio_event \<Rightarrow> 'h key option" where
  "call_key (Called_timer h) = Some (Key_timer h)"
| "call_key (Called_init h) = Some Key_init"
| "call_key (Called_shutdown h) = Some (Key_shutdown h)"
| "call_key (Called_connect h) = Some (Key_connect h)"
| "call_key _ = None"

fun answer_key :: "'h asio_event \<Rightarrow> 'h key option" where
  "answer_key (Ev_timer h ec) = Some (Key_timer h)"
| "answer_key (Ev_init h ec) = Some Key_init"
| "answer_key (Ev_shutdown h ec) = Some (Key_shutdown h)"
| "answer_key (Ev_connect h ec) = Some (Key_connect h)"
| "answer_key _ = None"

fun timer_key :: "'h timer_call \<Rightarrow> 'h key" where
  "timer_key (Tm_user h) = Key_timer h"
| "timer_key (Tm_post_init cb) = Key_init"
| "timer_key (Tm_proxy cb) = Key_init"
| "timer_key (Tm_shutdown h) = Key_shutdown h"
| "timer_key (Tm_resolve h) = Key_connect h"
| "timer_key (Tm_connect h) = Key_connect h"

text \<open>The timer that guards an operation, and whom the two owe a callback.\<close>

fun guard_of :: "'h asio_op \<Rightarrow> (nat \<times> 'h key) option" where
  "guard_of (Op_handshake post_timer cb) = map_option (\<lambda>t. (t, Key_init)) post_timer"
| "guard_of (Op_proxy_write cb t bufs) = Some (t, Key_init)"
| "guard_of (Op_proxy_read cb t) = Some (t, Key_init)"
| "guard_of (Op_tls_shutdown t h) = Some (t, Key_shutdown h)"
| "guard_of (Op_resolve host port t h) = Some (t, Key_connect h)"
| "guard_of (Op_connect t h) = Some (t, Key_connect h)"
| "guard_of _ = None"

fun init_op :: "'h asio_op \<Rightarrow> bool" where
  "init_op (Op_handshake post_timer cb) \<longleftrightarrow> True"
| "init_op (Op_proxy_write cb t bufs) \<longleftrightarrow> True"
| "init_op (Op_proxy_read cb t) \<longleftrightarrow> True"
| "init_op _ \<longleftrightarrow> False"

fun proxy_op :: "'h asio_op \<Rightarrow> nat option" where
  "proxy_op (Op_proxy_write cb t bufs) = Some t"
| "proxy_op (Op_proxy_read cb t) = Some t"
| "proxy_op _ = None"

fun unguarded :: "'h asio_op \<Rightarrow> bool" where
  "unguarded (Op_handshake post_timer cb) \<longleftrightarrow> post_timer = None"
| "unguarded _ \<longleftrightarrow> False"

text \<open>A timer owes its callback until it has run; one that guards an operation owes none once it is cancelled.\<close>

definition owes :: "'h key \<Rightarrow> 'h timer \<Rightarrow> bool" where
  "owes k tm \<longleftrightarrow> timer_key (tm_call tm) = k \<and>
     (tm_state tm = Waiting \<or> tm_state tm = Due \<or> tm_state tm = Aborted \<and> (\<exists>h. tm_call tm = Tm_user h))"

definition called :: "'h key \<Rightarrow> 'h asio \<Rightarrow> nat" where
  "called k s = length (filter (\<lambda>ev. call_key ev = Some k) (a_events s))"
definition answered :: "'h key \<Rightarrow> 'h asio \<Rightarrow> nat" where
  "answered k s = length (filter (\<lambda>ev. answer_key ev = Some k) (a_events s))"
definition outstanding :: "'h key \<Rightarrow> 'h asio \<Rightarrow> nat" where
  "outstanding k s = length (filter (owes k) (a_timers s)) + length (filter (\<lambda>op. unguarded op \<and> k = Key_init) (a_ops s))"

definition guards :: "'h asio \<Rightarrow> (nat \<times> 'h key) list" where "guards s = List.map_filter guard_of (a_ops s)"
definition init_ops :: "'h asio \<Rightarrow> nat" where "init_ops s = length (filter init_op (a_ops s))"

definition live_guard :: "'h asio \<Rightarrow> nat \<Rightarrow> 'h key \<Rightarrow> bool" where
  "live_guard s t k \<longleftrightarrow> t < length (a_timers s) \<and> timer_key (tm_call (a_timers s ! t)) = k \<and>
     (tm_state (a_timers s ! t) = Waiting \<or> tm_state (a_timers s ! t) = Due \<or> timer_expired t s)"

text \<open>
  The balance: \<open>p\<close> counts the callbacks the running code owes, \<open>q\<close> is one while it may start an operation of \<^verbatim>\<open>init\<close>.
\<close>

definition counted :: "('h key \<Rightarrow> nat) \<Rightarrow> 'h asio \<Rightarrow> bool" where
  "counted p s \<longleftrightarrow> (\<forall>k. called k s = answered k s + outstanding k s + p k)"

definition wired :: "nat \<Rightarrow> 'h asio \<Rightarrow> bool" where
  "wired q s \<longleftrightarrow> init_ops s + q \<le> called Key_init s \<and> called Key_init s \<le> 1 \<and>
     distinct (List.map fst (guards s)) \<and> (\<forall>(t, k) \<in> set (guards s). live_guard s t k \<and> (\<forall>h. k \<noteq> Key_timer h)) \<and>
     (\<forall>op \<in> set (a_ops s). \<forall>t t'. proxy_op op = Some t \<and> proxy_timer s = Some t' \<longrightarrow> t' = t) \<and>
     (\<forall>tm \<in> set (a_timers s). tm_state tm = Due \<longrightarrow> tm_expiry tm < a_now s)"

definition balanced :: "('h key \<Rightarrow> nat) \<Rightarrow> nat \<Rightarrow> 'h asio \<Rightarrow> bool" where
  "balanced p q s \<longleftrightarrow> counted p s \<and> wired q s"

abbreviation owing :: "('h key \<Rightarrow> nat) \<Rightarrow> 'h key \<Rightarrow> 'h key \<Rightarrow> nat" where "owing p k \<equiv> p(k := Suc (p k))"

definition keeps :: "'h asio_app \<Rightarrow> bool" where
  "keeps app \<longleftrightarrow> (\<forall>ev s p q. balanced p q s \<longrightarrow> balanced p q (app ev s))"

subsection \<open>Lists\<close>

lemma length_filter_update:
  "i < length xs \<Longrightarrow> length (filter P (xs[i := y])) + (if P (xs ! i) then 1 else 0) = length (filter P xs) + (if P y then 1 else 0)"
proof (induction xs arbitrary: i)
  case (Cons x xs)
  then show ?case by (cases i) auto
qed simp

lemma length_filter_remove:
  assumes "i < length xs"
  shows "length (filter P (take i xs @ drop (Suc i) xs)) + (if P (xs ! i) then 1 else 0) = length (filter P xs)"
  by (subst (3) id_take_nth_drop [OF assms]) simp

lemma nth_update_if: "xs[i := y] ! t = (if t = i \<and> i < length xs then y else xs ! t)"
  by (cases "i < length xs") (auto simp: nth_list_update list_update_beyond)

lemma map_filter_append: "List.map_filter f (xs @ ys) = List.map_filter f xs @ List.map_filter f ys"
  by (simp add: List.map_filter_def)

lemma map_filter_empty: "List.map_filter f [] = []"
  by (simp add: List.map_filter_def)

lemma map_filter_one: "List.map_filter f [x] = (case f x of None \<Rightarrow> [] | Some y \<Rightarrow> [y])"
  by (simp add: List.map_filter_def split: option.split)

subsection \<open>The moves\<close>

lemma balanced_frame [simp]:
  "balanced p q (s\<lparr>a_service := v1\<rparr>) = balanced p q s" "balanced p q (s\<lparr>a_socket := v1\<rparr>) = balanced p q s"
  "balanced p q (s\<lparr>a_state := v2\<rparr>) = balanced p q s" "balanced p q (s\<lparr>a_tls_ec := v3\<rparr>) = balanced p q s"
  "balanced p q (s\<lparr>a_proxy := v4\<rparr>) = balanced p q s" "balanced p q (s\<lparr>a_bufs := v5\<rparr>) = balanced p q s"
  "balanced p q (s\<lparr>a_read_handler := v6\<rparr>) = balanced p q s" "balanced p q (s\<lparr>a_write_handler := v6\<rparr>) = balanced p q s"
  "balanced p q (s\<lparr>a_init_handler := v6\<rparr>) = balanced p q s" "balanced p q (s\<lparr>a_async_read_handler := v1\<rparr>) = balanced p q s"
  "balanced p q (s\<lparr>a_async_write_handler := v1\<rparr>) = balanced p q s" "balanced p q (s\<lparr>a_tcp_pre_init := v1\<rparr>) = balanced p q s"
  "balanced p q (s\<lparr>a_tcp_post_init := v1\<rparr>) = balanced p q s" "balanced p q (s\<lparr>a_socket_init := v1\<rparr>) = balanced p q s"
  by (simp_all add: balanced_def counted_def wired_def called_def answered_def outstanding_def guards_def init_ops_def live_guard_def timer_expired_def proxy_timer_def)

lemma balanced_proxy_data:
  "balanced p q s \<Longrightarrow> Option.bind px px_timer = None \<or> Option.bind px px_timer = proxy_timer s \<Longrightarrow> balanced p q (s\<lparr>a_proxy_data := px\<rparr>)"
  by (auto simp: balanced_def counted_def wired_def called_def answered_def outstanding_def guards_def init_ops_def live_guard_def timer_expired_def proxy_timer_def)

lemma balanced_weaken: "balanced p q s \<Longrightarrow> q' \<le> q \<Longrightarrow> balanced p q' s"
  by (auto simp: balanced_def wired_def)

lemma log_event_sels [simp]:
  "called k (log_event ev s) = called k s + (if call_key ev = Some k then 1 else 0)"
  "answered k (log_event ev s) = answered k s + (if answer_key ev = Some k then 1 else 0)"
  "outstanding k (log_event ev s) = outstanding k s" "guards (log_event ev s) = guards s" "init_ops (log_event ev s) = init_ops s"
  "live_guard (log_event ev s) = live_guard s" "proxy_timer (log_event ev s) = proxy_timer s"
  "a_ops (log_event ev s) = a_ops s" "a_timers (log_event ev s) = a_timers s" "a_now (log_event ev s) = a_now s"
  by (simp_all add: log_event_def called_def answered_def outstanding_def guards_def init_ops_def live_guard_def [abs_def]
      timer_expired_def proxy_timer_def)

lemma wired_log: "call_key ev \<noteq> Some Key_init \<Longrightarrow> wired q (log_event ev s) = wired q s"
  by (simp add: wired_def)

lemma wired_call_init: "wired q s \<Longrightarrow> called Key_init s = 0 \<Longrightarrow> wired 1 (log_event (Called_init h) s)"
  by (simp add: wired_def)

lemma balanced_log: "balanced p q s \<Longrightarrow> call_key ev = None \<Longrightarrow> answer_key ev = None \<Longrightarrow> balanced p q (log_event ev s)"
  by (simp add: balanced_def counted_def wired_log)

lemma balanced_answer: "balanced (owing p k) q s \<Longrightarrow> call_key ev = None \<Longrightarrow> answer_key ev = Some k \<Longrightarrow> balanced p q (log_event ev s)"
  by (simp add: balanced_def counted_def wired_log)

lemma balanced_call:
  "balanced p q s \<Longrightarrow> call_key ev = Some k \<Longrightarrow> answer_key ev = None \<Longrightarrow> k \<noteq> Key_init \<Longrightarrow> balanced (owing p k) q (log_event ev s)"
  by (simp add: balanced_def counted_def wired_log)

lemma balanced_call_init: "balanced p q s \<Longrightarrow> called Key_init s = 0 \<Longrightarrow> balanced (owing p Key_init) 1 (log_event (Called_init h) s)"
  using wired_call_init [of q s h] by (simp add: balanced_def counted_def)

lemma balanced_invoke:
  assumes "keeps app" "balanced p q s" "call_key ev = None" "answer_key ev = None"
  shows "balanced p q (invoke app ev s)"
  using balanced_log [OF assms(2-4)] assms(1) by (simp add: keeps_def invoke_def)

lemma balanced_invoke_answer:
  assumes "keeps app" "balanced (owing p k) q s" "call_key ev = None" "answer_key ev = Some k"
  shows "balanced p q (invoke app ev s)"
  using balanced_answer [OF assms(2-4)] assms(1) by (simp add: keeps_def invoke_def)

lemma balanced_invoke_init:
  assumes "keeps app" "balanced (owing p Key_init) q s" "invoke_init app cb ec s = Some s'"
  shows "balanced p q s'"
  using assms by (auto simp: invoke_init_def intro: balanced_invoke_answer)

text \<open>Operations: what a started or a completed one adds and takes.\<close>

lemma start_sels [simp]:
  "called k (start op s) = called k s" "answered k (start op s) = answered k s"
  "outstanding k (start op s) = outstanding k s + (if unguarded op \<and> k = Key_init then 1 else 0)"
  "guards (start op s) = guards s @ (case guard_of op of None \<Rightarrow> [] | Some g \<Rightarrow> [g])"
  "init_ops (start op s) = init_ops s + (if init_op op then 1 else 0)"
  "live_guard (start op s) = live_guard s" "proxy_timer (start op s) = proxy_timer s"
  "a_ops (start op s) = a_ops s @ [op]" "a_timers (start op s) = a_timers s" "a_now (start op s) = a_now s"
  by (simp_all add: start_def called_def answered_def outstanding_def guards_def init_ops_def live_guard_def [abs_def] timer_expired_def
      proxy_timer_def map_filter_append map_filter_one map_filter_empty split: option.split)

lemma balanced_start:
  assumes "balanced p q s" "guard_of op = None" "\<not> init_op op" "\<not> unguarded op" "proxy_op op = None"
  shows "balanced p q (start op s)"
  using assms by (auto simp: balanced_def counted_def wired_def)

lemma balanced_start_unguarded:
  assumes "balanced (owing p Key_init) (Suc q) s"
  shows "balanced p q (start (Op_handshake None cb) s)"
  using assms by (auto simp: balanced_def counted_def wired_def)

lemma wired_start:
  assumes "wired q s" "guard_of op = Some (t, k)" "live_guard s t k" "t \<notin> fst ` set (guards s)" "\<forall>h. k \<noteq> Key_timer h"
    "init_op op \<longrightarrow> 0 < q" "\<forall>t0 t'. proxy_op op = Some t0 \<and> proxy_timer s = Some t' \<longrightarrow> t' = t0"
  shows "wired (q - (if init_op op then 1 else 0)) (start op s)"
  using assms by (auto simp: wired_def)

lemma balanced_start_guarded:
  assumes "balanced p q s" "guard_of op = Some (t, k)" "live_guard s t k" "t \<notin> fst ` set (guards s)" "\<forall>h. k \<noteq> Key_timer h"
    "\<not> unguarded op" "init_op op \<longrightarrow> 0 < q" "\<forall>t0 t'. proxy_op op = Some t0 \<and> proxy_timer s = Some t' \<longrightarrow> t' = t0"
  shows "balanced p (q - (if init_op op then 1 else 0)) (start op s)"
  using wired_start [of q s op t k] assms by (simp add: balanced_def counted_def)

definition take_op :: "nat \<Rightarrow> 'h asio \<Rightarrow> 'h asio" where
  "take_op i s = s\<lparr>a_ops := take i (a_ops s) @ drop (Suc i) (a_ops s)\<rparr>"

lemma take_op_sels [simp]:
  "called k (take_op i s) = called k s" "answered k (take_op i s) = answered k s"
  "live_guard (take_op i s) = live_guard s" "proxy_timer (take_op i s) = proxy_timer s" "a_timers (take_op i s) = a_timers s"
  "a_now (take_op i s) = a_now s" "timer_expired t (take_op i s) = timer_expired t s"
  by (simp_all add: take_op_def called_def answered_def live_guard_def [abs_def] timer_expired_def proxy_timer_def)

lemma take_op_outstanding:
  assumes "i < length (a_ops s)"
  shows "outstanding k s = outstanding k (take_op i s) + (if unguarded (a_ops s ! i) \<and> k = Key_init then 1 else 0)"
  using length_filter_remove [OF assms, of "\<lambda>op. unguarded op \<and> k = Key_init"] by (simp add: outstanding_def take_op_def)

lemma take_op_init_ops:
  assumes "i < length (a_ops s)"
  shows "init_ops s = init_ops (take_op i s) + (if init_op (a_ops s ! i) then 1 else 0)"
  using length_filter_remove [OF assms, of init_op] by (simp add: init_ops_def take_op_def)

lemma take_op_guards:
  assumes "i < length (a_ops s)" "distinct (List.map fst (guards s))"
  shows "distinct (List.map fst (guards (take_op i s)))" "set (guards (take_op i s)) \<subseteq> set (guards s)"
    "guard_of (a_ops s ! i) = Some (t, k) \<Longrightarrow> (t, k) \<in> set (guards s) \<and> t \<notin> fst ` set (guards (take_op i s))"
proof -
  have split: "a_ops s = take i (a_ops s) @ [a_ops s ! i] @ drop (Suc i) (a_ops s)" using id_take_nth_drop [OF assms(1)] by simp
  have g: "guards s = List.map_filter guard_of (take i (a_ops s)) @ (case guard_of (a_ops s ! i) of None \<Rightarrow> [] | Some g \<Rightarrow> [g]) @
      List.map_filter guard_of (drop (Suc i) (a_ops s))"
    unfolding guards_def by (subst split) (simp only: map_filter_append map_filter_one)
  have r: "guards (take_op i s) = List.map_filter guard_of (take i (a_ops s)) @ List.map_filter guard_of (drop (Suc i) (a_ops s))"
    by (simp add: guards_def take_op_def map_filter_append)
  show "distinct (List.map fst (guards (take_op i s)))" "set (guards (take_op i s)) \<subseteq> set (guards s)"
    using assms(2) unfolding g r by auto
  show "(t, k) \<in> set (guards s) \<and> t \<notin> fst ` set (guards (take_op i s))" if "guard_of (a_ops s ! i) = Some (t, k)"
    using assms(2) that unfolding g r by auto
qed

lemma wired_take_op:
  assumes "i < length (a_ops s)" "wired q s"
  shows "wired (q + (if init_op (a_ops s ! i) then 1 else 0)) (take_op i s)"
proof -
  have "set (a_ops (take_op i s)) \<subseteq> set (a_ops s)"
    by (auto simp: take_op_def dest: in_set_takeD in_set_dropD)
  moreover note take_op_init_ops [OF assms(1)] take_op_guards(1,2) [OF assms(1)]
  ultimately show ?thesis using assms(2) unfolding wired_def split_beta take_op_sels
    by (intro conjI ballI) (auto simp: subset_iff)
qed

lemma balanced_take_op:
  assumes "i < length (a_ops s)" "balanced p q s"
  shows "balanced (if unguarded (a_ops s ! i) then owing p Key_init else p) (q + (if init_op (a_ops s ! i) then 1 else 0)) (take_op i s)"
  using wired_take_op [OF assms(1), of q] assms(2) take_op_outstanding [OF assms(1)] by (auto simp: balanced_def counted_def)

text \<open>The guard of the operation taken may still call, unless its time has passed, and nothing else is guarded by it.\<close>

lemma taken_guard:
  assumes "i < length (a_ops s)" "balanced p q s" "guard_of (a_ops s ! i) = Some (t, k)"
  shows "live_guard (take_op i s) t k" "t \<notin> fst ` set (guards (take_op i s))" "\<forall>h. k \<noteq> Key_timer h"
proof -
  have "distinct (List.map fst (guards s))" using assms(2) by (simp add: balanced_def wired_def)
  from take_op_guards(3) [OF assms(1) this assms(3)] assms(2)
  show "live_guard (take_op i s) t k" "t \<notin> fst ` set (guards (take_op i s))" "\<forall>h. k \<noteq> Key_timer h"
    by (auto simp: balanced_def wired_def)
qed

text \<open>Timers: one more, one whose state changes, the clock.\<close>

definition new_timer :: "int \<Rightarrow> 'h timer_call \<Rightarrow> 'h asio \<Rightarrow> 'h asio" where
  "new_timer d c s = s\<lparr>a_timers := a_timers s @ [\<lparr>tm_expiry = a_now s + 1000 * d, tm_state = Waiting, tm_call = c\<rparr>]\<rparr>"

lemma add_timer_new: "add_timer d c s = Some (t, s') \<longleftrightarrow> a_service s \<and> t = length (a_timers s) \<and> s' = new_timer d c s"
  by (auto simp: add_timer_def new_timer_def)

lemma new_timer_sels [simp]:
  "called k (new_timer d c s) = called k s" "answered k (new_timer d c s) = answered k s"
  "outstanding k (new_timer d c s) = outstanding k s + (if timer_key c = k then 1 else 0)"
  "guards (new_timer d c s) = guards s" "init_ops (new_timer d c s) = init_ops s"
  "live_guard s t k \<Longrightarrow> live_guard (new_timer d c s) t k" "proxy_timer (new_timer d c s) = proxy_timer s"
  "a_ops (new_timer d c s) = a_ops s" "a_now (new_timer d c s) = a_now s"
  "live_guard (new_timer d c s) (length (a_timers s)) (timer_key c)"
  by (auto simp: new_timer_def called_def answered_def outstanding_def guards_def init_ops_def live_guard_def timer_expired_def
      proxy_timer_def owes_def nth_append)

lemma wired_new_timer: "wired q s \<Longrightarrow> wired q (new_timer d c s)"
  by (auto simp: wired_def) (auto simp: new_timer_def)

lemma balanced_new_timer: "balanced (owing p (timer_key c)) q s \<Longrightarrow> balanced p q (new_timer d c s)"
  by (auto simp: balanced_def counted_def intro: wired_new_timer)

lemma new_timer_fresh: "wired q s \<Longrightarrow> length (a_timers s) \<notin> fst ` set (guards s)"
  by (auto simp: wired_def live_guard_def)

lemma set_timer_state_sels [simp]:
  "called k (set_timer_state i st s) = called k s" "answered k (set_timer_state i st s) = answered k s"
  "guards (set_timer_state i st s) = guards s" "init_ops (set_timer_state i st s) = init_ops s"
  "proxy_timer (set_timer_state i st s) = proxy_timer s" "a_ops (set_timer_state i st s) = a_ops s"
  "a_now (set_timer_state i st s) = a_now s" "timer_expired t (set_timer_state i st s) = timer_expired t s"
  by (auto simp: set_timer_state_def called_def answered_def guards_def init_ops_def proxy_timer_def timer_expired_def
      nth_update_if)

lemma outstanding_timer_state:
  assumes "i < length (a_timers s)"
  shows "outstanding k (set_timer_state i st s) + (if owes k (a_timers s ! i) then 1 else 0) =
    outstanding k s + (if owes k ((a_timers s ! i)\<lparr>tm_state := st\<rparr>) then 1 else 0)"
  using length_filter_update [OF assms, of "owes k"] by (simp add: outstanding_def set_timer_state_def)

lemma live_timer_state:
  "live_guard s t k \<Longrightarrow> t \<noteq> i \<or> st = Due \<or> st = Waiting \<or> timer_expired t s \<Longrightarrow> live_guard (set_timer_state i st s) t k"
  by (auto simp: live_guard_def set_timer_state_def timer_expired_def nth_update_if)

lemma wired_timer_state:
  assumes "wired q s" "i < length (a_timers s)" "i \<notin> fst ` set (guards s) \<or> st = Due \<or> timer_expired i s" "st = Due \<longrightarrow> timer_expired i s"
  shows "wired q (set_timer_state i st s)"
proof -
  have "\<forall>tm \<in> set (a_timers (set_timer_state i st s)). tm_state tm = Due \<longrightarrow> tm_expiry tm < a_now s"
    using assms by (auto simp: set_timer_state_def wired_def timer_expired_def dest!: set_update_subset_insert [THEN subsetD])
  moreover have "live_guard (set_timer_state i st s) t k" if "(t, k) \<in> set (guards s)" for t k
    using assms that by (intro live_timer_state) (auto simp: wired_def timer_expired_def image_iff)
  ultimately show ?thesis using assms(1) unfolding wired_def by auto
qed

lemma balanced_timer_state:
  assumes "balanced p q s" "i < length (a_timers s)" "i \<notin> fst ` set (guards s) \<or> st = Due \<or> timer_expired i s"
    "st = Due \<longrightarrow> timer_expired i s" "owes (timer_key (tm_call (a_timers s ! i))) ((a_timers s ! i)\<lparr>tm_state := st\<rparr>) =
      owes (timer_key (tm_call (a_timers s ! i))) (a_timers s ! i)"
  shows "balanced p q (set_timer_state i st s)"
proof -
  have "owes k ((a_timers s ! i)\<lparr>tm_state := st\<rparr>) = owes k (a_timers s ! i)" for k
    using assms(5) by (cases "k = timer_key (tm_call (a_timers s ! i))") (auto simp: owes_def)
  then show ?thesis using assms(1) wired_timer_state [of q s i st] assms(2-4) outstanding_timer_state [OF assms(2), of _ st]
    by (simp add: balanced_def counted_def)
qed

lemma balanced_timer_stops:
  assumes "balanced p q s" "i < length (a_timers s)" "i \<notin> fst ` set (guards s) \<or> timer_expired i s" "st \<noteq> Due"
    "owes k (a_timers s ! i)" "\<not> owes k ((a_timers s ! i)\<lparr>tm_state := st\<rparr>)"
  shows "balanced (owing p k) q (set_timer_state i st s)"
proof -
  have k: "k = timer_key (tm_call (a_timers s ! i))" using assms(5) by (simp add: owes_def)
  have "outstanding k' (set_timer_state i st s) = outstanding k' s" if "k' \<noteq> k" for k'
    using outstanding_timer_state [OF assms(2), of k' st] that by (simp add: owes_def k)
  moreover have "outstanding k s = Suc (outstanding k (set_timer_state i st s))"
    using outstanding_timer_state [OF assms(2), of k st] assms(5,6) by simp
  moreover have "wired q (set_timer_state i st s)" using wired_timer_state [of q s i st] assms by (auto simp: balanced_def)
  ultimately show ?thesis using assms(1) by (simp add: balanced_def counted_def)
qed

lemma balanced_cancel_user:
  assumes "balanced p q s" "i < length (a_timers s)" "tm_call (a_timers s ! i) = Tm_user h"
  shows "balanced p q (cancel_timer i s)"
proof (cases "tm_state (a_timers s ! i) = Waiting")
  case True
  have "i \<notin> fst ` set (guards s)" using assms by (fastforce simp: balanced_def wired_def live_guard_def)
  then show ?thesis using balanced_timer_state [OF assms(1,2), of Aborted] True assms(3) by (simp add: cancel_timer_def owes_def)
qed (use assms in \<open>simp add: cancel_timer_def\<close>)

text \<open>An operation that ends before its guard's time cancels it, and then owes the callback itself.\<close>

lemma balanced_cancel_guard:
  assumes "balanced p q s" "live_guard s t k" "t \<notin> fst ` set (guards s)" "\<forall>h. k \<noteq> Key_timer h" "\<not> timer_expired t s"
  shows "balanced (owing p k) q (cancel_timer t s)"
proof -
  have t: "t < length (a_timers s)" "timer_key (tm_call (a_timers s ! t)) = k" using assms(2) by (simp_all add: live_guard_def)
  have "tm_state (a_timers s ! t) \<noteq> Due" using assms(1,5) t(1) by (force simp: balanced_def wired_def timer_expired_def)
  then have w: "tm_state (a_timers s ! t) = Waiting" using assms(2,5) by (auto simp: live_guard_def)
  have "\<forall>h. tm_call (a_timers s ! t) \<noteq> Tm_user h" using t(2) assms(4) by auto
  then show ?thesis using balanced_timer_stops [OF assms(1) t(1), of Aborted k] assms(3) w t(2) by (simp add: cancel_timer_def owes_def)
qed

lemma balanced_time:
  assumes "balanced p q s" "0 \<le> d"
  shows "balanced p q (s\<lparr>a_now := a_now s + d\<rparr>)"
  using assms by (auto simp: balanced_def counted_def wired_def called_def answered_def outstanding_def guards_def init_ops_def
      live_guard_def timer_expired_def proxy_timer_def)

subsection \<open>Every function keeps the balance\<close>

lemma handle_post_init_guarded:
  assumes "keeps app" "balanced p q s" "live_guard s t Key_init" "t \<notin> fst ` set (guards s)"
    "handle_post_init app (Some t) cb ec s = Some s'"
  shows "balanced p q s'"
proof (cases "ec = Some (Code (Transport T_operation_aborted)) \<or> timer_expired t s")
  case False
  let ?s = "cancel_timer t s"
  have b: "balanced (owing p Key_init) q ?s" using balanced_cancel_guard [OF assms(2-4)] False by simp
  have "balanced (owing p Key_init) q (if a_tcp_post_init ?s then invoke app Ev_tcp_post_init ?s else ?s)"
    using b balanced_invoke [OF assms(1) b, of Ev_tcp_post_init] by simp
  from balanced_invoke_init [OF assms(1) this] show ?thesis using assms(5) False by (auto simp: handle_post_init_def Let_def)
qed (use assms in \<open>auto simp: handle_post_init_def\<close>)

lemma handle_post_init_unguarded:
  assumes "keeps app" "balanced (owing p Key_init) q s" "ec \<noteq> Some (Code (Transport T_operation_aborted))"
    "handle_post_init app None cb ec s = Some s'"
  shows "balanced p q s'"
proof -
  have "balanced (owing p Key_init) q (if a_tcp_post_init s then invoke app Ev_tcp_post_init s else s)"
    using assms(2) balanced_invoke [OF assms(1,2), of Ev_tcp_post_init] by simp
  from balanced_invoke_init [OF assms(1) this] show ?thesis using assms(3,4) by (auto simp: handle_post_init_def Let_def)
qed

lemma with_socket_some [simp]: "with_socket s = Some s' \<longleftrightarrow> a_socket s \<and> s' = s" "cancel_socket s = Some s' \<longleftrightarrow> a_socket s \<and> s' = s"
  by (auto simp: with_socket_def cancel_socket_def)

lemma guards_frame [simp]:
  "guards (s\<lparr>a_tls_ec := v\<rparr>) = guards s" "live_guard (s\<lparr>a_tls_ec := v\<rparr>) = live_guard s"
  "guards (s\<lparr>a_bufs := b\<rparr>) = guards s" "live_guard (s\<lparr>a_bufs := b\<rparr>) = live_guard s"
  "guards (s\<lparr>a_proxy_data := px\<rparr>) = guards s" "live_guard (s\<lparr>a_proxy_data := px\<rparr>) = live_guard s"
  by (simp_all add: guards_def live_guard_def [abs_def] timer_expired_def)

lemma post_init_balanced:
  assumes "keeps app" "balanced (owing p Key_init) (Suc q) s" "post_init cf app s = Some s'"
  shows "balanced p q s'"
proof (cases "cf_timeout_post_init cf > 0")
  case True
  define t where "t = length (a_timers s)"
  define s1 where "s1 = new_timer (cf_timeout_post_init cf) (Tm_post_init (a_init_handler s)) s"
  have b: "balanced p (Suc q) s1" using balanced_new_timer [of p "Tm_post_init (a_init_handler s)"] assms(2) by (simp add: s1_def)
  have g: "live_guard s1 t Key_init" using new_timer_sels(10) [of _ "Tm_post_init (a_init_handler s)" s] by (simp add: s1_def t_def)
  have f: "t \<notin> fst ` set (guards s1)" using assms(2) new_timer_fresh [of _ s] by (auto simp: balanced_def s1_def t_def)
  show ?thesis
  proof (cases "cf_secure cf")
    case True
    let ?s = "s1\<lparr>a_tls_ec := Some (Socket So_tls_handshake_timeout)\<rparr>"
    have "balanced p (Suc q - 1) (start (Op_handshake (Some t) cb) ?s)" for cb
      using balanced_start_guarded [of p "Suc q" ?s "Op_handshake (Some t) cb" t Key_init] b g f by simp
    then show ?thesis using assms(3) True \<open>cf_timeout_post_init cf > 0\<close>
      by (auto simp: post_init_def tls_post_init_def bind_eq_Some_conv add_timer_new t_def s1_def)
  next
    case False
    then have "handle_post_init app (Some t) (a_init_handler s1) None s1 = Some s'"
      using assms(3) True by (auto simp: post_init_def tls_post_init_def bind_eq_Some_conv add_timer_new t_def s1_def)
    from handle_post_init_guarded [OF assms(1) b g f this] show ?thesis by (rule balanced_weaken) simp
  qed
next
  case False
  show ?thesis
  proof (cases "cf_secure cf")
    case True
    have "balanced p q (start (Op_handshake None cb) (s\<lparr>a_tls_ec := Some (Socket So_tls_handshake_timeout)\<rparr>))" for cb
      using assms(2) by (intro balanced_start_unguarded) simp
    then show ?thesis using assms(3) True False by (auto simp: post_init_def tls_post_init_def bind_eq_Some_conv)
  next
    case plain: False
    then have "handle_post_init app None (a_init_handler s) None s = Some s'" using assms(3) False by (simp add: post_init_def)
    from handle_post_init_unguarded [OF assms(1,2) _ this] show ?thesis by (simp add: balanced_weaken)
  qed
qed

lemma no_init_ops:
  assumes "balanced p (Suc q) s"
  shows "\<forall>op \<in> set (a_ops s). \<not> init_op op"
proof -
  have "init_ops s = 0" using assms by (simp add: balanced_def wired_def)
  then show ?thesis by (simp add: init_ops_def filter_empty_conv)
qed

lemma proxy_op_init: "proxy_op op = Some t \<Longrightarrow> init_op op"
  by (cases op) auto

lemma balanced_proxy_timer:
  assumes "balanced p (Suc q) s"
  shows "balanced p (Suc q) (s\<lparr>a_proxy_data := px\<rparr>)"
  using assms no_init_ops [OF assms]
  by (auto simp: balanced_def counted_def wired_def called_def answered_def outstanding_def init_ops_def dest: proxy_op_init)

lemma proxy_write_balanced:
  assumes "keeps app" "balanced (owing p Key_init) (Suc q) s" "proxy_write app s = Some s'"
  shows "balanced p q s'"
proof (cases "a_proxy_data s")
  case None
  then have "invoke_init app (a_init_handler s) (Some (Asio A_general)) s = Some s'" using assms(3) by (simp add: proxy_write_def)
  from balanced_invoke_init [OF assms(1,2) this] show ?thesis by (rule balanced_weaken) simp
next
  case (Some px)
  define bufs where "bufs = a_bufs s @ [octets (request_raw (px_req px))]"
  define c where "c = Tm_proxy (a_init_handler s)"
  define t where "t = length (a_timers s)"
  define s1 where "s1 = (new_timer (px_timeout px) c (s\<lparr>a_bufs := bufs\<rparr>))\<lparr>a_proxy_data :=
    Some (px\<lparr>px_write_buf := octets (request_raw (px_req px)), px_timer := Some t\<rparr>)\<rparr>"
  have b: "balanced p (Suc q) s1"
    using assms(2) unfolding s1_def c_def by (intro balanced_proxy_timer balanced_new_timer) simp
  have "live_guard (new_timer (px_timeout px) c (s\<lparr>a_bufs := bufs\<rparr>)) t Key_init"
    using new_timer_sels(10) [of _ c "s\<lparr>a_bufs := bufs\<rparr>"] by (simp add: t_def c_def)
  then have g: "live_guard s1 t Key_init" by (simp add: s1_def)
  have f: "t \<notin> fst ` set (guards s1)" using assms(2) new_timer_fresh [of _ s] by (auto simp: balanced_def s1_def t_def)
  have link: "\<forall>t'. proxy_timer s1 = Some t' \<longrightarrow> t' = t" by (simp add: s1_def proxy_timer_def)
  have "balanced p (Suc q - 1) (start (Op_proxy_write cb t bs) s1)" for cb bs
    using balanced_start_guarded [OF b, of "Op_proxy_write cb t bs" t Key_init] g f link by simp
  moreover have "s' = start (Op_proxy_write (a_init_handler s) t bufs) s1"
    using assms(3) Some by (auto simp: proxy_write_def Let_def bind_eq_Some_conv add_timer_new t_def s1_def c_def bufs_def new_timer_def)
  ultimately show ?thesis by simp
qed

lemma asio_init_balanced:
  assumes "keeps app" "balanced p q s" "\<forall>h. Called_init h \<notin> set (a_events s)" "cf_secure cf \<or> a_state s = S_READY"
    "asio_init cf app h s = Some s'"
  shows "balanced p q s'"
proof -
  have none: "called Key_init s = 0"
  proof -
    have "call_key ev \<noteq> Some Key_init" if "ev \<in> set (a_events s)" for ev using assms(3) that by (cases ev) auto
    then show ?thesis by (simp add: called_def filter_empty_conv)
  qed
  then have q: "q = 0" using assms(2) by (simp add: balanced_def wired_def)
  define s0 where "s0 = log_event (Called_init h) (s\<lparr>a_init_handler := Some h\<rparr>)"
  have none': "called Key_init (s\<lparr>a_init_handler := Some h\<rparr>) = 0" using none by (simp add: called_def)
  have b: "balanced (owing p Key_init) 1 s0" using balanced_call_init [OF _ none'] assms(2) by (simp add: s0_def)
  obtain s1 where s1: "socket_pre_init cf app s0 = Some (None, s1)" "handle_pre_init cf app None s1 = Some s'"
    using assms(4,5) by (auto simp: asio_init_def s0_def log_event_def socket_defs bind_eq_Some_conv split: if_splits)
  have b1: "balanced (owing p Key_init) 1 s1"
    using s1(1) b balanced_invoke [OF assms(1) b, of Ev_socket_init]
    by (auto simp: socket_defs bind_eq_Some_conv split: if_splits)
  let ?s2 = "if a_tcp_pre_init s1 then invoke app Ev_tcp_pre_init s1 else s1"
  have "balanced (owing p Key_init) (Suc q) ?s2" using b1 balanced_invoke [OF assms(1) b1, of Ev_tcp_pre_init] q by simp
  from proxy_write_balanced [OF assms(1) this] post_init_balanced [OF assms(1) this] show ?thesis
    using s1(2) by (auto simp: handle_pre_init_def Let_def split: if_splits)
qed

lemma balanced_px [simp]: "Option.bind (map_option (\<lambda>px. px\<lparr>px_read_buf := f px\<rparr>) d) px_timer = Option.bind d px_timer"
  by (cases d) simp_all

lemma proxy_timer_frame [simp]:
  "proxy_timer (s\<lparr>a_bufs := b\<rparr>) = proxy_timer s" "proxy_timer (s\<lparr>a_proxy_data := px\<rparr>) = Option.bind px px_timer"
  "timer_expired t (s\<lparr>a_bufs := b\<rparr>) = timer_expired t s" "timer_expired t (s\<lparr>a_proxy_data := px\<rparr>) = timer_expired t s"
  "proxy_timer (cancel_timer t s) = proxy_timer s" "a_proxy_data (cancel_timer t s) = a_proxy_data s"
  by (simp_all add: proxy_timer_def timer_expired_def cancel_timer_def set_timer_state_def)

text \<open>Taking a proxy operation: the timer the handler looks at is the one that guards the operation.\<close>

lemma handle_proxy_write_balanced:
  assumes "keeps app" "balanced p (Suc q) s" "live_guard s t Key_init" "t \<notin> fst ` set (guards s)"
    "\<forall>t'. proxy_timer s = Some t' \<longrightarrow> t' = t" "handle_proxy_write app cb t sys s = Some s'"
  shows "balanced p q s'"
proof -
  let ?s = "s\<lparr>a_bufs := []\<rparr>"
  have b: "balanced p (Suc q) ?s" using assms(2) by simp
  consider "s' = ?s" | "\<not> timer_expired t ?s" "invoke_init app cb (Some (Asio A_pass_through)) (cancel_timer t ?s) = Some s'"
    | "s' = start (Op_proxy_read cb t) ?s"
  proof (cases "sys = Some Sys_aborted")
    case False
    moreover have "proxy_timer s = Some t" using assms(5,6) False by (cases "proxy_timer s") (auto simp: handle_proxy_write_def Let_def)
    ultimately show ?thesis using assms(6) that
      by (auto simp: handle_proxy_write_def Let_def bind_eq_Some_conv proxy_read_def split: if_splits option.splits)
  qed (use assms(6) that in \<open>auto simp: handle_proxy_write_def\<close>)
  then show ?thesis
  proof cases
    case 1
    then show ?thesis using b by (auto intro: balanced_weaken)
  next
    case 2
    have "balanced (owing p Key_init) (Suc q) (cancel_timer t ?s)" using assms(3,4) 2(1) by (intro balanced_cancel_guard [OF b]) simp_all
    from balanced_invoke_init [OF assms(1) this 2(2)] show ?thesis by (rule balanced_weaken) simp
  next
    case 3
    have "balanced p (Suc q - 1) (start (Op_proxy_read cb t) ?s)"
      using balanced_start_guarded [OF b, of "Op_proxy_read cb t" t Key_init] assms(3-5) by simp
    then show ?thesis using 3 by simp
  qed
qed

lemma judge_proxy_balanced:
  assumes "keeps app" "balanced (owing p Key_init) (Suc q) s" "judge_proxy cf app cb s = Some s'"
  shows "balanced p q s'"
proof -
  have px: "balanced (owing p Key_init) (Suc q) (s\<lparr>a_proxy_data := d\<rparr>)" for d by (rule balanced_proxy_timer [OF assms(2)])
  have answer: "balanced p q s'" if "invoke_init app cb ec (s\<lparr>a_proxy_data := d\<rparr>) = Some s'" for ec d
    using balanced_invoke_init [OF assms(1) px that] by (rule balanced_weaken) simp
  show ?thesis
  proof (cases "a_proxy_data s")
    case None
    then have "invoke_init app cb (Some (Asio A_general)) s = Some s'" using assms(3) by (simp add: judge_proxy_def)
    from balanced_invoke_init [OF assms(1,2) this] show ?thesis by (rule balanced_weaken) simp
  next
    case (Some d)
    then show ?thesis using assms(3)
      by (cases "response_consume_stream (px_read_buf d) (px_res d)")
        (auto simp: judge_proxy_def Let_def split: if_splits dest: answer post_init_balanced [OF assms(1) px])
  qed
qed

lemma handle_proxy_read_balanced:
  assumes "keeps app" "balanced p (Suc q) s" "live_guard s t Key_init" "t \<notin> fst ` set (guards s)"
    "\<forall>t'. proxy_timer s = Some t' \<longrightarrow> t' = t" "handle_proxy_read cf app cb sys received s = Some s'"
  shows "balanced p q s'"
proof -
  define s0 where "s0 = s\<lparr>a_proxy_data := map_option (\<lambda>px. px\<lparr>px_read_buf := px_read_buf px @ received\<rparr>) (a_proxy_data s)\<rparr>"
  have b: "balanced p (Suc q) s0" using assms(2) unfolding s0_def by (intro balanced_proxy_timer)
  have px0: "proxy_timer s0 = proxy_timer s" by (simp add: s0_def proxy_timer_def)
  note run = assms(6) [unfolded handle_proxy_read_def Let_def s0_def [symmetric] px0]
  show ?thesis
  proof (cases "sys = Some Sys_aborted \<or> timer_expired t s0")
    case True
    then have "s' = s0" using run assms(5) by (auto simp: bind_eq_Some_conv split: if_splits)
    then show ?thesis using b by (auto intro: balanced_weaken)
  next
    case False
    have c: "balanced (owing p Key_init) (Suc q) (cancel_timer t s0)"
      using assms(3,4) False by (intro balanced_cancel_guard [OF b]) (simp_all add: s0_def)
    have "invoke_init app cb (Some (Asio A_pass_through)) (cancel_timer t s0) = Some s' \<or>
        judge_proxy cf app cb (cancel_timer t s0) = Some s'"
      using False run assms(5) by (auto simp: bind_eq_Some_conv split: if_splits)
    then show ?thesis
      using balanced_weaken [OF balanced_invoke_init [OF assms(1) c]] judge_proxy_balanced [OF assms(1) c] by auto
  qed
qed

lemma handle_async_shutdown_balanced:
  assumes "keeps app" "balanced p q s" "live_guard s t (Key_shutdown h)" "t \<notin> fst ` set (guards s)"
  shows "balanced p q (handle_async_shutdown cf app t h sys s)"
  using assms(2) balanced_invoke_answer [OF assms(1) balanced_cancel_guard [OF assms(2-4)]]
  by (simp add: handle_async_shutdown_def Let_def)

lemma asio_shutdown_balanced:
  assumes "keeps app" "balanced p q s" "asio_shutdown cf app sys h s = Some s'"
  shows "balanced p q s'"
proof -
  let ?quiet = "s\<lparr>a_async_read_handler := False, a_async_write_handler := False, a_init_handler := None,
    a_read_handler := None, a_write_handler := None\<rparr>"
  define s0 where "s0 = log_event (Called_shutdown h) ?quiet"
  define t where "t = length (a_timers s0)"
  define s1 where "s1 = new_timer (cf_timeout_shutdown cf) (Tm_shutdown h) s0"
  have "balanced p q ?quiet" using assms(2) by simp
  from balanced_call [OF this, of "Called_shutdown h"] have b0: "balanced (owing p (Key_shutdown h)) q s0" by (simp add: s0_def)
  then have b: "balanced p q s1" unfolding s1_def by (intro balanced_new_timer) simp
  have g: "live_guard s1 t (Key_shutdown h)" using new_timer_sels(10) [of _ "Tm_shutdown h" s0] by (simp add: s1_def t_def)
  have f: "t \<notin> fst ` set (guards s1)" using b0 new_timer_fresh [of _ s0] by (auto simp: balanced_def s1_def t_def)
  have "s' = (if cf_secure cf then start (Op_tls_shutdown t h) s1 else handle_async_shutdown cf app t h sys s1)"
    using assms(3) by (auto simp: asio_shutdown_def bind_eq_Some_conv add_timer_new s0_def s1_def t_def split: if_splits)
  moreover have "balanced p q (start (Op_tls_shutdown t h) s1)"
    using balanced_start_guarded [OF b, of "Op_tls_shutdown t h" t] g f by simp
  ultimately show ?thesis using handle_async_shutdown_balanced [OF assms(1) b g f] by simp
qed

lemma resolve_balanced:
  assumes "balanced (owing p (Key_connect h)) q s"
  shows "balanced p q (start (Op_resolve host port (length (a_timers s)) h) (new_timer d (Tm_resolve h) s))"
    "balanced p q (start (Op_connect (length (a_timers s)) h) (new_timer d (Tm_connect h) s))"
proof -
  have f: "length (a_timers s) \<notin> fst ` set (guards s)" using assms new_timer_fresh [of _ s] by (auto simp: balanced_def)
  have b: "balanced p q (new_timer d (Tm_resolve h) s)" "balanced p q (new_timer d (Tm_connect h) s)"
    using assms by (auto intro: balanced_new_timer)
  show "balanced p q (start (Op_resolve host port (length (a_timers s)) h) (new_timer d (Tm_resolve h) s))"
    using balanced_start_guarded [OF b(1), of "Op_resolve host port (length (a_timers s)) h"] f
      new_timer_sels(10) [of _ "Tm_resolve h" s] by simp
  show "balanced p q (start (Op_connect (length (a_timers s)) h) (new_timer d (Tm_connect h) s))"
    using balanced_start_guarded [OF b(2), of "Op_connect (length (a_timers s)) h"] f
      new_timer_sels(10) [of _ "Tm_connect h" s] by simp
qed

lemma start_resolve_balanced:
  "balanced (owing p (Key_connect h)) q s \<Longrightarrow> start_resolve cf host port h s = Some s' \<Longrightarrow> balanced p q s'"
  using resolve_balanced(1) by (auto simp: start_resolve_def bind_eq_Some_conv add_timer_new)

lemma proxy_init_balanced: "balanced p q s \<Longrightarrow> proxy_init authority s = Some (ec, s') \<Longrightarrow> balanced p q s'"
  by (auto simp: proxy_init_def proxy_timer_def split: option.splits http_result.splits intro: balanced_proxy_data)

lemma asio_connect_balanced:
  assumes "keeps app" "balanced p q s" "asio_connect cf app u h s = Some s'"
  shows "balanced p q s'"
proof -
  define s0 where "s0 = log_event (Called_connect h) s"
  have b: "balanced (owing p (Key_connect h)) q s0" using balanced_call [OF assms(2), of "Called_connect h"] by (simp add: s0_def)
  note run = assms(3) [unfolded asio_connect_def Let_def s0_def [symmetric]]
  note answer = balanced_invoke_answer [OF assms(1), of p "Key_connect h" q]
  consider "a_proxy s0 = []" | "a_proxy s0 \<noteq> []" "\<not> m_valid (parse_uri (a_proxy s0))" | "a_proxy s0 \<noteq> []" "m_valid (parse_uri (a_proxy s0))"
    by blast
  then show ?thesis
  proof cases
    case 1
    then show ?thesis using run start_resolve_balanced [OF b] by simp
  next
    case 2
    then show ?thesis using run answer [OF b] by auto
  next
    case 3
    then obtain ec s1 where i: "proxy_init (get_authority u) s0 = Some (ec, s1)" using run by (auto simp: bind_eq_Some_conv)
    note b1 = proxy_init_balanced [OF b i]
    show ?thesis
    proof (cases ec)
      case None
      then show ?thesis using run 3 i start_resolve_balanced [OF b1] by simp
    next
      case (Some e)
      then show ?thesis using run 3 i answer [OF b1] by auto
    qed
  qed
qed

lemma handle_resolve_balanced:
  assumes "keeps app" "balanced p q s" "live_guard s t (Key_connect h)" "t \<notin> fst ` set (guards s)" "handle_resolve cf app t h sys s = Some s'"
  shows "balanced p q s'"
proof (cases "sys = Some Sys_aborted \<or> timer_expired t s")
  case False
  have b: "balanced (owing p (Key_connect h)) q (cancel_timer t s)" using balanced_cancel_guard [OF assms(2-4)] False by simp
  have "s' = invoke app (Ev_connect h (Some (Asio A_pass_through))) (cancel_timer t s) \<or>
    s' = start (Op_connect (length (a_timers (cancel_timer t s))) h) (new_timer (cf_timeout_connect cf) (Tm_connect h) (cancel_timer t s))"
    using assms(5) False by (auto simp: handle_resolve_def Let_def bind_eq_Some_conv add_timer_new split: if_splits)
  then show ?thesis using resolve_balanced(2) [OF b] balanced_invoke_answer [OF assms(1) b] by auto
qed (use assms in \<open>auto simp: handle_resolve_def\<close>)

lemma handle_connect_balanced:
  assumes "keeps app" "balanced p q s" "live_guard s t (Key_connect h)" "t \<notin> fst ` set (guards s)"
  shows "balanced p q (asio_handle_connect app t h sys s)"
  using assms(2) balanced_invoke_answer [OF assms(1) balanced_cancel_guard [OF assms(2-4)]] by (simp add: asio_handle_connect_def)

lemma asio_init_asio_balanced:
  assumes "keeps app" "balanced p q s"
  shows "balanced p q (snd (asio_init_asio cf app s))"
  using assms balanced_invoke [OF assms(1), of p q "s\<lparr>a_service := True, a_async_read_handler := True, a_async_write_handler := True\<rparr>" Ev_tls_init]
  by (auto simp: asio_init_asio_def socket_defs Let_def split: option.split)

lemma read_write_balanced:
  assumes "keeps app" "balanced p q s"
  shows "asio_read_at_least app num len h s = Some s' \<Longrightarrow> balanced p q s'"
    "asio_write app bufs h s = Some s' \<Longrightarrow> balanced p q s'"
    "asio_write_single app buf h s = Some s' \<Longrightarrow> balanced p q s'"
    "balanced p q (handle_async_read cf app sys received s)"
    "balanced p q (handle_async_write app sys s)"
  using assms balanced_invoke [OF assms(1), of p q "s\<lparr>a_bufs := []\<rparr>"]
  by (auto simp: asio_read_at_least_def asio_write_def asio_write_single_def handle_async_read_def handle_async_write_def bind_eq_Some_conv
      Let_def intro: balanced_invoke balanced_start split: if_splits option.split)

lemma set_proxy_balanced:
  assumes "balanced p q s"
  shows "balanced p q (set_proxy cf target s)" "balanced p q (snd (set_proxy_basic_auth username password s))"
    "balanced p q (snd (set_proxy_timeout d s))"
  using assms balanced_proxy_data [OF assms] balanced_proxy_data [of p q "s\<lparr>a_proxy := target\<rparr>" "Some (make_proxy_data cf)"]
  by (auto simp: set_proxy_def make_proxy_data_def set_proxy_basic_auth_def set_proxy_timeout_def proxy_timer_def split: option.split)

lemma calls_balanced:
  assumes "calls cf app s s'" "keeps app" "balanced p q s"
  shows "balanced p q s'"
  using assms(1)
proof cases
  case (call_set_timer d h t)
  have "balanced (owing p (Key_timer h)) q (log_event (Called_timer h) s)" using assms(3) by (intro balanced_call) simp_all
  then show ?thesis using call_set_timer balanced_new_timer [of p "Tm_user h"] by (auto simp: asio_set_timer_def add_timer_new)
next
  case (call_interrupt h ec)
  then show ?thesis using assms(3) by (auto simp: asio_interrupt_def intro: balanced_start split: if_splits)
next
  case (call_dispatch h ec)
  then show ?thesis using assms(3) by (auto simp: asio_dispatch_def intro: balanced_start split: if_splits)
qed (use assms(2,3) in \<open>auto simp: asio_set_tcp_pre_init_handler_def asio_set_tcp_post_init_handler_def asio_set_socket_init_handler_def
  intro: balanced_cancel_user set_proxy_balanced asio_init_asio_balanced asio_init_balanced read_write_balanced asio_shutdown_balanced
    asio_connect_balanced\<close>)

lemma handler_calls_balanced: "handler_calls cf s s' \<Longrightarrow> balanced p q s \<Longrightarrow> balanced p q s'"
proof (induction arbitrary: p q rule: handler_calls.induct)
  case (one_call s s1 app s2)
  from one_call.IH(2) have "keeps app" by (auto simp: keeps_def)
  then show ?case using calls_balanced [OF one_call.hyps(2)] one_call.IH(1) one_call.prems by blast
qed

lemma app_keeps: "asio_app_ok cf app \<Longrightarrow> keeps app"
  unfolding asio_app_ok_def keeps_def using handler_calls_balanced by blast

lemma run_timer_call_balanced:
  assumes "keeps app" "balanced (owing p (timer_key c)) q s" "ec \<noteq> Some (Code (Transport T_operation_aborted)) \<or> (\<exists>h. c = Tm_user h)"
    "run_timer_call cf app c ec s = Some s'"
  shows "balanced p q s'"
  using assms
  by (cases c)
    (auto simp: handle_post_init_timeout_def handle_proxy_timeout_def handle_async_shutdown_timeout_def handle_resolve_timeout_def
      handle_connect_timeout_def bind_eq_Some_conv Let_def intro: balanced_invoke_answer balanced_invoke_init split: if_splits)

lemma run_timer_call_aborted:
  assumes "\<forall>h. c \<noteq> Tm_user h"
  shows "run_timer_call cf app c (Some (Code (Transport T_operation_aborted))) s = Some s"
  using assms by (cases c)
    (auto simp: handle_post_init_timeout_def handle_proxy_timeout_def handle_async_shutdown_timeout_def handle_resolve_timeout_def
      handle_connect_timeout_def)

lemma run_timer_balanced:
  assumes "keeps app" "balanced p q s" "run_timer cf app i s = Some s'"
  shows "balanced p q s'"
proof -
  let ?tm = "a_timers s ! i" and ?s = "set_timer_state i Finished s"
  have i: "i < length (a_timers s)" "tm_state ?tm = Due \<or> tm_state ?tm = Aborted"
    using assms(3) by (auto simp: run_timer_def split: if_splits)
  have free: "i \<notin> fst ` set (guards s) \<or> timer_expired i s"
    using assms(2) i by (fastforce simp: balanced_def wired_def live_guard_def timer_expired_def)
  show ?thesis
  proof (cases "tm_state ?tm = Due \<or> (\<exists>h. tm_call ?tm = Tm_user h)")
    case True
    have "balanced (owing p (timer_key (tm_call ?tm))) q ?s"
      using True i by (intro balanced_timer_stops [OF assms(2) i(1) free]) (auto simp: owes_def)
    from run_timer_call_balanced [OF assms(1) this] show ?thesis
      using assms(3) i True by (auto simp: run_timer_def handle_timer_def split: if_splits)
  next
    case False
    then have "balanced p q ?s" using i free by (intro balanced_timer_state [OF assms(2) i(1)]) (auto simp: owes_def)
    then show ?thesis using assms(3) i False run_timer_call_aborted [of "tm_call ?tm"]
      by (auto simp: run_timer_def handle_timer_def split: if_splits)
  qed
qed

lemma run_op_balanced:
  assumes "keeps app" "balanced p q s" "run_op cf app i sys received s = Some s'"
  shows "balanced p q s'"
proof -
  let ?op = "a_ops s ! i" and ?s = "take_op i s"
  have i: "i < length (a_ops s)" and run: "complete_op cf app ?op sys received ?s = Some s'"
    using assms(3) by (auto simp: run_op_def take_op_def split: if_splits)
  note b = balanced_take_op [OF i assms(2)]
  note g = taken_guard [OF i assms(2)]
  have link: "\<forall>t'. proxy_timer ?s = Some t' \<longrightarrow> t' = t" if "proxy_op ?op = Some t" for t
    using assms(2) nth_mem [OF i] that unfolding balanced_def wired_def take_op_sels by blast
  show ?thesis
  proof (cases ?op)
    case (Op_handshake post_timer cb)
    let ?u = "?s\<lparr>a_tls_ec := (if sys \<noteq> None then Some (Socket So_tls_handshake_failed) else None)\<rparr>"
    have u: "handle_post_init app post_timer cb (a_tls_ec ?u) ?u = Some s'" "a_tls_ec ?u \<noteq> Some (Code (Transport T_operation_aborted))"
      using run Op_handshake by (auto simp: handle_init_def Let_def)
    have "balanced p (q + 1) s'"
    proof (cases post_timer)
      case None
      then have "balanced (owing p Key_init) (q + 1) ?u" using b Op_handshake by simp
      from handle_post_init_unguarded [OF assms(1) this u(2)] u(1) None show ?thesis by simp
    next
      case (Some t)
      then have "balanced p (q + 1) ?u" "live_guard ?u t Key_init" "t \<notin> fst ` set (guards ?u)"
        using b g Op_handshake by simp_all
      from handle_post_init_guarded [OF assms(1) this] u(1) Some show ?thesis by simp
    qed
    then show ?thesis by (rule balanced_weaken) simp
  next
    case (Op_proxy_write cb t bufs)
    then show ?thesis using handle_proxy_write_balanced [OF assms(1), of p q ?s t cb sys s'] b g link run by simp
  next
    case (Op_proxy_read cb t)
    then show ?thesis using handle_proxy_read_balanced [OF assms(1), of p q ?s t cf cb sys received s'] b g link run by simp
  next
    case (Op_tls_shutdown t h)
    then show ?thesis using handle_async_shutdown_balanced [OF assms(1), of p q ?s t h] b g run by auto
  next
    case (Op_resolve host port t h)
    then show ?thesis using handle_resolve_balanced [OF assms(1), of p q ?s t h] b g run by auto
  next
    case (Op_connect t h)
    then show ?thesis using handle_connect_balanced [OF assms(1), of p q ?s t h] b g run by auto
  qed (use b run read_write_balanced(4,5) [OF assms(1)] balanced_invoke [OF assms(1)] in auto)
qed

lemma step_balanced:
  assumes "asio_step cf s s'" "0 < cf_slack cf" "balanced p q s"
  shows "balanced p q s'"
  using assms(1)
proof cases
  case (step_call app)
  then show ?thesis using calls_balanced app_keeps assms(3) by blast
next
  case (step_time d)
  then show ?thesis using balanced_time assms(3) by blast
next
  case (step_due i)
  then have "i < length (a_timers s)" "timer_expired i s" "tm_state (a_timers s ! i) = Waiting"
    using assms(2) by (auto simp: timer_due_def timer_expired_def)
  then show ?thesis using step_due balanced_timer_state [OF assms(3), of i Due] by (simp add: owes_def)
next
  case (step_timer app i)
  then show ?thesis using run_timer_balanced app_keeps assms(3) by blast
next
  case (step_op app i sys received)
  then show ?thesis using run_op_balanced app_keeps assms(3) by blast
qed

lemma make_balanced: "balanced (\<lambda>k. 0) 0 (make_asio now)"
  by (simp add: balanced_def counted_def wired_def make_asio_def called_def answered_def outstanding_def guards_def init_ops_def
      map_filter_empty)

lemma reachable_balanced: "asio_reachable cf s \<Longrightarrow> 0 < cf_slack cf \<Longrightarrow> balanced (\<lambda>k. 0) 0 s"
  by (induction rule: asio_reachable.induct) (auto intro: make_balanced step_balanced)

subsection \<open>Properties\<close>


definition sample_config :: asio_config where
  "sample_config = \<lparr>cf_secure = True, cf_tls_context = Some True, cf_timeout_dns = 5, cf_timeout_connect = 5, cf_timeout_proxy = 5,
     cf_timeout_post_init = 5, cf_timeout_shutdown = 5, cf_slack = 1\<rparr>"

definition ignore :: "unit asio_app" where "ignore ev s = s"

lemma ignore_ok: "asio_app_ok cf ignore"
  by (simp add: asio_app_ok_def ignore_def no_call)

text \<open>A TLS handshake ends well, and its timer, which was cancelled, runs afterwards.\<close>

definition sample_start :: "unit asio" where
  "sample_start = the (asio_init sample_config ignore () (snd (asio_init_asio sample_config ignore (make_asio 0))))"
definition sample_end :: "unit asio" where
  "sample_end = the (run_timer sample_config ignore 0 (the (run_op sample_config ignore 0 None [] sample_start)))"

lemma sample_start_reachable: "asio_reachable sample_config sample_start"
proof -
  let ?s0 = "make_asio 0" and ?s1 = "snd (asio_init_asio sample_config ignore (make_asio 0))"
  have "asio_step sample_config ?s0 ?s1"
    by (rule step_call [OF ignore_ok]) (rule call_init_asio, simp add: make_asio_def)
  moreover have "asio_step sample_config ?s1 sample_start"
  proof (rule step_call [OF ignore_ok], rule call_init)
    have "a_events ?s1 = [Ev_tls_init]" by code_simp
    then show "\<forall>h. Called_init h \<notin> set (a_events ?s1)" by simp
    have "asio_init sample_config ignore () ?s1 \<noteq> None" by code_simp
    then show "asio_init sample_config ignore () ?s1 = Some sample_start" by (simp add: sample_start_def)
  qed (simp add: sample_config_def)
  ultimately show ?thesis using asio_fresh asio_next by metis
qed


text \<open>
  C29: a timer that leaves the queue at its very microsecond is too late to be cancelled and too early to be seen as expired: when the
  operation it guards ends in that microsecond, both call the handler.
\<close>

theorem shutdown_called_twice:
  assumes "cf_secure cf" "cf_slack cf = 0" "0 \<le> cf_timeout_shutdown cf" "a_service s" "a_socket s"
  shows "\<exists>s'. (asio_step cf)\<^sup>*\<^sup>* s s' \<and>
    a_events s' = a_events s @ [Called_shutdown h, Ev_shutdown h None, Ev_shutdown h (Some (Code (Transport T_timeout)))]"
proof -
  define app :: "'a asio_app" where "app = (\<lambda>ev s. s)"
  have app: "asio_app_ok cf app" by (simp add: app_def asio_app_ok_def no_call)
  define t where "t = length (a_timers s)"
  define i where "i = length (a_ops s)"
  define s1 where "s1 = the (asio_shutdown cf app None h s)"
  define s2 where "s2 = s1\<lparr>a_now := a_now s1 + 1000 * cf_timeout_shutdown cf\<rparr>"
  define s3 where "s3 = set_timer_state t Due s2"
  define s4 where "s4 = the (run_op cf app i None [] s3)"
  define s5 where "s5 = the (run_timer cf app t s4)"
  note state = s1_def s2_def s3_def t_def i_def
  note run = asio_shutdown_def add_timer_def with_socket_def start_def log_event_def set_timer_state_def
  have 1: "asio_shutdown cf app None h s = Some s1" using assms by (simp add: s1_def run)
  have due: "timer_due cf t s2" using assms by (simp add: timer_due_def state run nth_append)
  have 4: "run_op cf app i None [] s3 = Some s4"
    using assms by (simp add: s4_def run_op_def state run nth_append)
  have tm: "t < length (a_timers s4)" "tm_state (a_timers s4 ! t) = Due" "tm_call (a_timers s4 ! t) = Tm_shutdown h" "a_socket s4"
      "a_events s4 = a_events s @ [Called_shutdown h, Ev_shutdown h None]"
    using assms by (simp_all add: s4_def run_op_def state run nth_append handle_async_shutdown_def timer_expired_def cancel_timer_def
        app_def invoke_def Let_def nth_update_if)
  have 5: "run_timer cf app t s4 = Some s5" "a_events s5 = a_events s4 @ [Ev_shutdown h (Some (Code (Transport T_timeout)))]"
    using tm by (simp_all add: s5_def run_timer_def handle_timer_def handle_async_shutdown_timeout_def cancel_socket_def with_socket_def
        set_timer_state_def app_def invoke_def log_event_def)
  have "asio_step cf s s1" by (rule step_call [OF app call_shutdown [OF 1]])
  moreover have "asio_step cf s1 s2" unfolding s2_def by (rule step_time) (use assms in simp)
  moreover have "asio_step cf s2 s3" unfolding s3_def by (rule step_due [OF due])
  moreover have "asio_step cf s3 s4" "asio_step cf s4 s5" by (rule step_op [OF app 4], rule step_timer [OF app 5(1)])
  ultimately have "(asio_step cf)\<^sup>*\<^sup>* s s5" by (meson r_into_rtranclp rtranclp.rtrancl_into_rtrancl)
  then show ?thesis using tm(5) 5(2) by auto
qed

theorem shutdown_called_twice_witness:
  "\<exists>s'. (asio_step (sample_config\<lparr>cf_slack := 0\<rparr>))\<^sup>*\<^sup>* ((make_asio 0)\<lparr>a_service := True, a_socket := True\<rparr>) s' \<and>
    a_events s' = [Called_shutdown (), Ev_shutdown () None, Ev_shutdown () (Some (Code (Transport T_timeout)))]"
  using shutdown_called_twice [of "sample_config\<lparr>cf_slack := 0\<rparr>" "(make_asio 0)\<lparr>a_service := True, a_socket := True\<rparr>" "()"]
  by (simp add: sample_config_def make_asio_def)

text \<open>On a plain socket that was not initialised, or twice, \<^verbatim>\<open>init\<close> reports the error and goes on.\<close>

lemma init_called_twice:
  assumes "\<not> cf_secure cf" "a_state s \<noteq> S_READY" "a_service s" "a_proxy s = []" "\<not> a_tcp_pre_init s" "\<not> a_tcp_post_init s"
  shows "\<exists>s'. asio_init cf (\<lambda>ev s. s) h s = Some s' \<and>
    a_events s' = a_events s @ [Called_init h, Ev_init h (Some (Socket So_invalid_state)), Ev_init h None]"
  using assms
  by (simp add: asio_init_def socket_defs handle_pre_init_def post_init_def handle_post_init_def invoke_init_def invoke_def
      log_event_def add_timer_def timer_expired_def cancel_timer_def set_timer_state_def Let_def)

text \<open>A write started while another is under way sends the octets of both.\<close>

lemma overlapping_write:
  assumes "a_socket s" "a_async_write_handler s" "asio_write app b1 h1 s = Some s1" "asio_write app b2 h2 s1 = Some s2"
  shows "a_ops s2 = a_ops s @ [Op_write (a_bufs s @ b1), Op_write (a_bufs s @ b1 @ b2)]"
  using assms by (auto simp: asio_write_def bind_eq_Some_conv start_def)

lemma write_single_list: "asio_write_single app b h s = asio_write app [b] h s"
  by (simp add: asio_write_single_def asio_write_def)

text \<open>Every error has its own number and its own text.\<close>

lemma asio_errors_distinct:
  "asio_error_value e = asio_error_value f \<longleftrightarrow> e = f" "asio_message (asio_error_value e) = asio_message (asio_error_value f) \<longleftrightarrow> e = f"
  "socket_error_value x = socket_error_value y \<longleftrightarrow> x = y"
  "socket_message (socket_error_value x) = socket_message (socket_error_value y) \<longleftrightarrow> x = y"
  by ((cases e; cases f; simp add: asio_message_def), (cases e; cases f; simp add: asio_message_def),
      (cases x; cases y; simp), (cases x; cases y; simp add: socket_message_def))

end
