(* ===== verification/Asio_Shutdown.thy ===== *)
theory Asio_Shutdown
  imports Asio_Callbacks
begin

text \<open>
  What the asio transport does after its shutdown: \<open>quiet\<close> holds from the moment the handlers are taken away, and every function keeps it.
\<close>

subsection \<open>After the shutdown\<close>

text \<open>From the shutdown on, reads and writes complete at once with an error, and those outstanding call nobody.\<close>

fun refused :: "'h asio_event \<Rightarrow> bool" where
  "refused (Ev_read h ec bs) \<longleftrightarrow> ec = Some (Code (Transport T_action_after_shutdown)) \<and> bs = []"
| "refused (Ev_written h ec) \<longleftrightarrow> ec = Some (Code (Transport T_action_after_shutdown))"
| "refused _ \<longleftrightarrow> True"

definition quiet :: "'h asio_event list \<Rightarrow> 'h asio \<Rightarrow> bool" where
  "quiet evs s \<longleftrightarrow> a_service s \<and> \<not> a_async_read_handler s \<and> \<not> a_async_write_handler s \<and> a_read_handler s = None \<and>
     a_write_handler s = None \<and> (\<exists>new. a_events s = evs @ new \<and> list_all refused new)"

definition stays_quiet :: "'h asio_app \<Rightarrow> bool" where
  "stays_quiet app \<longleftrightarrow> (\<forall>ev s evs. quiet evs s \<longrightarrow> quiet evs (app ev s))"

lemma quiet_frame [simp]:
  "quiet evs (s\<lparr>a_socket := v1\<rparr>) = quiet evs s" "quiet evs (s\<lparr>a_state := v2\<rparr>) = quiet evs s"
  "quiet evs (s\<lparr>a_tls_ec := v3\<rparr>) = quiet evs s" "quiet evs (s\<lparr>a_proxy := v4\<rparr>) = quiet evs s"
  "quiet evs (s\<lparr>a_proxy_data := v5\<rparr>) = quiet evs s" "quiet evs (s\<lparr>a_bufs := v6\<rparr>) = quiet evs s"
  "quiet evs (s\<lparr>a_init_handler := v7\<rparr>) = quiet evs s" "quiet evs (s\<lparr>a_tcp_pre_init := v1\<rparr>) = quiet evs s"
  "quiet evs (s\<lparr>a_tcp_post_init := v1\<rparr>) = quiet evs s" "quiet evs (s\<lparr>a_socket_init := v1\<rparr>) = quiet evs s"
  "quiet evs (s\<lparr>a_now := v8\<rparr>) = quiet evs s" "quiet evs (s\<lparr>a_timers := v9\<rparr>) = quiet evs s" "quiet evs (s\<lparr>a_ops := v10\<rparr>) = quiet evs s"
  by (simp_all add: quiet_def)

lemma quiet_moves [simp]:
  "quiet evs (start op s) = quiet evs s" "quiet evs (set_timer_state i st s) = quiet evs s" "quiet evs (cancel_timer i s) = quiet evs s"
  "quiet evs (new_timer d c s) = quiet evs s"
  by (simp_all add: start_def set_timer_state_def cancel_timer_def new_timer_def)

lemma quiet_log: "quiet evs s \<Longrightarrow> refused ev \<Longrightarrow> quiet evs (log_event ev s)"
  by (auto simp: quiet_def log_event_def)

lemma quiet_invoke: "stays_quiet app \<Longrightarrow> quiet evs s \<Longrightarrow> refused ev \<Longrightarrow> quiet evs (invoke app ev s)"
  by (simp add: stays_quiet_def invoke_def quiet_log)

lemma quiet_invoke_init: "invoke_init app cb ec s = Some s' \<Longrightarrow> stays_quiet app \<Longrightarrow> quiet evs s \<Longrightarrow> quiet evs s'"
  by (auto simp: invoke_init_def intro: quiet_invoke)

lemmas quiet_intros = quiet_log quiet_invoke

lemma quiet_post_init:
  assumes "stays_quiet app" "quiet evs s"
  shows "handle_post_init app t cb ec s = Some s' \<Longrightarrow> quiet evs s'" "post_init cf app s = Some s' \<Longrightarrow> quiet evs s'"
proof -
  have h: "quiet evs s'" if "handle_post_init app t cb ec s = Some s'" "quiet evs s" for t cb ec s s'
  proof (cases "s' = s")
    case False
    define u where "u = (case t of None \<Rightarrow> s | Some t \<Rightarrow> cancel_timer t s)"
    have "quiet evs u" using that(2) by (simp add: u_def split: option.split)
    then have "quiet evs (if a_tcp_post_init u then invoke app Ev_tcp_post_init u else u)" using assms(1) by (simp add: quiet_invoke)
    then show ?thesis using that(1) False quiet_invoke_init [OF _ assms(1)]
      by (auto simp: handle_post_init_def Let_def simp flip: u_def split: if_splits)
  qed (use that in simp)
  show "handle_post_init app t cb ec s = Some s' \<Longrightarrow> quiet evs s'" using h assms(2) by blast
  show "post_init cf app s = Some s' \<Longrightarrow> quiet evs s'"
    using assms by (auto simp: post_init_def tls_post_init_def bind_eq_Some_conv add_timer_new split: if_splits intro: h)
qed

lemma quiet_init:
  assumes "stays_quiet app" "quiet evs s"
  shows "proxy_write app s = Some s' \<Longrightarrow> quiet evs s'" "asio_init cf app h s = Some s' \<Longrightarrow> quiet evs s'"
proof -
  have w: "quiet evs s'" if "proxy_write app s = Some s'" "quiet evs s" for s s'
    using assms(1) that
    by (auto simp: proxy_write_def Let_def bind_eq_Some_conv add_timer_new intro: quiet_intros elim: quiet_invoke_init split: option.splits)
  have p: "quiet evs s'" if p0: "handle_pre_init cf app ec s = Some s'" and "quiet evs s" for ec s s'
  proof -
    let ?u = "if a_tcp_pre_init s then invoke app Ev_tcp_pre_init s else s"
    have "quiet evs ?u" using assms(1) that(2) by (simp add: quiet_invoke)
    moreover obtain v where v: "(if ec \<noteq> None then invoke_init app (a_init_handler ?u) ec ?u else Some ?u) = Some v"
        "(if a_proxy v \<noteq> [] then proxy_write app v else post_init cf app v) = Some s'"
      using p0 by (auto simp: handle_pre_init_def Let_def bind_eq_Some_conv)
    ultimately have "quiet evs v" by (auto split: if_splits elim: quiet_invoke_init [OF _ assms(1)])
    then show ?thesis using v(2) by (auto split: if_splits elim: w quiet_post_init(2) [OF assms(1), rotated])
  qed
  show "proxy_write app s = Some s' \<Longrightarrow> quiet evs s'" using w assms(2) by blast
  have "quiet evs u" if "socket_pre_init cf app s = Some (ec, u)" "quiet evs s" for ec s u
    using that by (auto simp: socket_defs bind_eq_Some_conv quiet_invoke [OF assms(1)] split: if_splits)
  moreover have "quiet evs (log_event (Called_init h) (s\<lparr>a_init_handler := Some h\<rparr>))" using assms(2) by (simp add: quiet_log)
  ultimately show "asio_init cf app h s = Some s' \<Longrightarrow> quiet evs s'" by (auto simp: asio_init_def bind_eq_Some_conv elim: p)
qed

lemma quiet_proxy:
  assumes "stays_quiet app" "quiet evs s"
  shows "handle_proxy_write app cb t sys s = Some s' \<Longrightarrow> quiet evs s'" "handle_proxy_read cf app cb sys received s = Some s' \<Longrightarrow> quiet evs s'"
proof -
  show "handle_proxy_write app cb t sys s = Some s' \<Longrightarrow> quiet evs s'"
    using assms by (auto simp: handle_proxy_write_def Let_def bind_eq_Some_conv proxy_read_def intro: quiet_intros elim: quiet_invoke_init split: if_splits option.splits)
  have "quiet evs s'" if "judge_proxy cf app cb s = Some s'" "quiet evs s" for s
  proof (cases "a_proxy_data s")
    case None
    then show ?thesis using that assms(1) by (auto simp: judge_proxy_def elim: quiet_invoke_init)
  next
    case (Some px)
    have q: "quiet evs (s\<lparr>a_proxy_data := d\<rparr>)" for d using that(2) by simp
    show ?thesis
      using that assms(1) Some
      by (cases "response_consume_stream (px_read_buf px) (px_res px)")
        (auto simp: judge_proxy_def Let_def split: if_splits dest: quiet_invoke_init [OF _ assms(1) q] quiet_post_init(2) [OF assms(1) q])
  qed
  then show "handle_proxy_read cf app cb sys received s = Some s' \<Longrightarrow> quiet evs s'"
    using assms by (auto simp: handle_proxy_read_def Let_def bind_eq_Some_conv split: if_splits elim: quiet_invoke_init)
qed

lemma quiet_io:
  assumes "stays_quiet app" "quiet evs s"
  shows "asio_read_at_least app num len h s = Some s' \<Longrightarrow> quiet evs s'"
    "asio_write app bufs h s = Some s' \<Longrightarrow> quiet evs s'" "asio_write_single app buf h s = Some s' \<Longrightarrow> quiet evs s'"
    "quiet evs (handle_async_read cf app sys received s)" "quiet evs (handle_async_write app sys s)"
    "quiet evs (handle_async_shutdown cf app t h sys s)" "quiet evs (asio_handle_connect app t h sys s)"
    "asio_shutdown cf app sys h s = Some s' \<Longrightarrow> quiet evs s'" "asio_connect cf app u h s = Some s' \<Longrightarrow> quiet evs s'"
    "handle_resolve cf app t h sys s = Some s' \<Longrightarrow> quiet evs s'"
proof -
  have q: "\<not> a_async_read_handler s" "\<not> a_async_write_handler s" "a_read_handler s = None" "a_write_handler s = None"
    using assms(2) by (simp_all add: quiet_def)
  show "asio_read_at_least app num len h s = Some s' \<Longrightarrow> quiet evs s'"
    "asio_write app bufs h s = Some s' \<Longrightarrow> quiet evs s'" "asio_write_single app buf h s = Some s' \<Longrightarrow> quiet evs s'"
    "quiet evs (handle_async_read cf app sys received s)" "quiet evs (handle_async_write app sys s)"
    "quiet evs (asio_handle_connect app t h sys s)"
    using assms q by (auto simp: asio_read_at_least_def asio_write_def asio_write_single_def handle_async_read_def handle_async_write_def
        asio_handle_connect_def Let_def intro: quiet_invoke)
  have s: "quiet evs (handle_async_shutdown cf app t h sys s)" if "quiet evs s" for t s
    using assms(1) that by (auto simp: handle_async_shutdown_def Let_def intro: quiet_invoke)
  then show "quiet evs (handle_async_shutdown cf app t h sys s)" using assms(2) by blast
  let ?off = "s\<lparr>a_async_read_handler := False, a_async_write_handler := False, a_init_handler := None, a_read_handler := None, a_write_handler := None\<rparr>"
  have "quiet evs ?off" using assms(2) by (simp add: quiet_def)
  then have "quiet evs (log_event (Called_shutdown h) ?off)" by (rule quiet_log) simp
  then show "asio_shutdown cf app sys h s = Some s' \<Longrightarrow> quiet evs s'"
    by (auto simp: asio_shutdown_def bind_eq_Some_conv add_timer_new intro: s split: if_splits)
  show "handle_resolve cf app t h sys s = Some s' \<Longrightarrow> quiet evs s'"
    using assms by (auto simp: handle_resolve_def Let_def bind_eq_Some_conv add_timer_new intro: quiet_invoke split: if_splits)
  let ?s0 = "log_event (Called_connect h) s"
  have l: "quiet evs ?s0" using assms(2) by (simp add: quiet_log)
  have r: "quiet evs s'" if "start_resolve cf host port h s = Some s'" "quiet evs s" for host port s
    using that by (auto simp: start_resolve_def bind_eq_Some_conv add_timer_new)
  have p: "quiet evs u" if "proxy_init authority s = Some (ec, u)" "quiet evs s" for authority s ec u
    using that by (auto simp: proxy_init_def split: option.splits http_result.splits)
  have "quiet evs s'" if c: "asio_connect cf app u h s = Some s'" "a_proxy ?s0 \<noteq> []" "m_valid (parse_uri (a_proxy ?s0))"
  proof -
    obtain ec v where "proxy_init (get_authority u) ?s0 = Some (ec, v)"
      using c by (auto simp: asio_connect_def Let_def bind_eq_Some_conv)
    then show ?thesis using that r p [OF _ l] quiet_invoke [OF assms(1)]
      by (auto simp: asio_connect_def Let_def split: if_splits)
  qed
  then show "asio_connect cf app u h s = Some s' \<Longrightarrow> quiet evs s'"
    using l r quiet_invoke [OF assms(1) l] by (fastforce simp: asio_connect_def Let_def split: if_splits)
qed

lemma quiet_calls:
  assumes "calls cf app s s'" "stays_quiet app" "quiet evs s"
  shows "quiet evs s'"
  using assms(1)
proof cases
  case (call_set_timer d h t)
  then show ?thesis using assms(3) by (auto simp: asio_set_timer_def add_timer_new quiet_log)
next
  case call_init_asio
  then show ?thesis using assms(3) by (simp add: quiet_def)
next
  case (call_interrupt h ec)
  then show ?thesis using assms(3) by (auto simp: asio_interrupt_def split: if_splits)
next
  case (call_dispatch h ec)
  then show ?thesis using assms(3) by (auto simp: asio_dispatch_def split: if_splits)
qed (use assms(2,3) in \<open>auto simp: asio_set_tcp_pre_init_handler_def asio_set_tcp_post_init_handler_def asio_set_socket_init_handler_def
  set_proxy_def set_proxy_basic_auth_def set_proxy_timeout_def elim: quiet_init quiet_io(1-3,8,9) split: option.split\<close>)

lemma quiet_handler_calls: "handler_calls cf s s' \<Longrightarrow> quiet evs s \<Longrightarrow> quiet evs s'"
proof (induction arbitrary: evs rule: handler_calls.induct)
  case (one_call s s1 app s2)
  from one_call.IH(2) have "stays_quiet app" by (auto simp: stays_quiet_def)
  then show ?case using quiet_calls [OF one_call.hyps(2)] one_call.IH(1) one_call.prems by blast
qed

lemma app_quiet: "asio_app_ok cf app \<Longrightarrow> stays_quiet app"
  unfolding asio_app_ok_def stays_quiet_def using quiet_handler_calls by blast

lemma quiet_timer_call:
  assumes "stays_quiet app" "quiet evs s" "run_timer_call cf app c ec s = Some s'"
  shows "quiet evs s'"
  using assms
  by (cases c)
    (auto simp: handle_post_init_timeout_def handle_proxy_timeout_def handle_async_shutdown_timeout_def handle_resolve_timeout_def
      handle_connect_timeout_def bind_eq_Some_conv Let_def intro: quiet_intros elim: quiet_invoke_init split: if_splits)

lemma quiet_complete:
  assumes "stays_quiet app" "quiet evs s" "complete_op cf app op sys received s = Some s'"
  shows "quiet evs s'"
proof (cases op)
  case (Op_handshake post_timer cb)
  then show ?thesis using assms(2,3) by (auto simp: handle_init_def Let_def elim: quiet_post_init(1) [OF assms(1), rotated])
qed (use assms in \<open>auto intro: quiet_io(4-7) quiet_invoke elim: quiet_proxy quiet_io(10)\<close>)

lemma quiet_step:
  assumes "asio_step cf s s'" "quiet evs s"
  shows "quiet evs s'"
  using assms(1)
proof cases
  case (step_call app)
  then show ?thesis using quiet_calls app_quiet assms(2) by blast
next
  case (step_timer app i)
  then show ?thesis using quiet_timer_call [OF app_quiet [OF step_timer(1)], of evs "set_timer_state i Finished s"] assms(2)
    by (auto simp: run_timer_def handle_timer_def split: if_splits)
next
  case (step_op app i sys received)
  have "quiet evs (s\<lparr>a_ops := take i (a_ops s) @ drop (Suc i) (a_ops s)\<rparr>)" using assms(2) by simp
  from quiet_complete [OF app_quiet [OF step_op(1)] this] show ?thesis using step_op(2) by (auto simp: run_op_def split: if_splits)
qed (use assms(2) in simp_all)

lemma quiet_steps: "(asio_step cf)\<^sup>*\<^sup>* s s' \<Longrightarrow> quiet evs s \<Longrightarrow> quiet evs s'"
  by (induction rule: rtranclp_induct) (auto intro: quiet_step)

subsection \<open>The property\<close>

text \<open>
  C15: from a shutdown on, no read and no write calls its handler any more, whatever completes, but to refuse one that is asked for after it.
\<close>

theorem quiet_after_shutdown:
  assumes "asio_app_ok cf app" "asio_shutdown cf app sys h s = Some s1" "(asio_step cf)\<^sup>*\<^sup>* s1 s2"
  shows "\<exists>new. a_events s2 = a_events s @ new \<and>
    (\<forall>h ec bs. Ev_read h ec bs \<in> set new \<longrightarrow> ec = Some (Code (Transport T_action_after_shutdown)) \<and> bs = []) \<and>
    (\<forall>h ec. Ev_written h ec \<in> set new \<longrightarrow> ec = Some (Code (Transport T_action_after_shutdown)))"
proof -
  let ?off = "s\<lparr>a_async_read_handler := False, a_async_write_handler := False, a_init_handler := None, a_read_handler := None, a_write_handler := None\<rparr>"
  have "asio_shutdown cf app sys h ?off = Some s1" using assms(2) by (simp add: asio_shutdown_def)
  moreover have "a_service s" using assms(2) by (auto simp: asio_shutdown_def bind_eq_Some_conv add_timer_new log_event_def)
  then have "quiet (a_events s) ?off" by (simp add: quiet_def)
  ultimately have "quiet (a_events s) s1" using quiet_io(8) [OF app_quiet [OF assms(1)]] by blast
  then have "quiet (a_events s) s2" by (rule quiet_steps [OF assms(3)])
  then show ?thesis by (fastforce simp: quiet_def list_all_iff)
qed

text \<open>The octets of a read that was outstanding at the shutdown reach no handler, and the read after it is refused.\<close>

definition shut_start :: "unit asio" where
  "shut_start = the (asio_read_at_least ignore 1 8 () (snd (asio_init_asio sample_config ignore (make_asio 0))))"
definition shut_end :: "unit asio" where
  "shut_end = the (asio_read_at_least ignore 1 8 () (the (run_op sample_config ignore 0 None ''abc''
     (the (asio_shutdown sample_config ignore None () shut_start)))))"

theorem quiet_after_shutdown_witness:
  "\<exists>new. a_events shut_end = a_events shut_start @ new \<and>
    (\<forall>h ec bs. Ev_read h ec bs \<in> set new \<longrightarrow> ec = Some (Code (Transport T_action_after_shutdown)) \<and> bs = []) \<and>
    Ev_read () (Some (Code (Transport T_action_after_shutdown))) [] \<in> set (a_events shut_end)"
proof -
  let ?s1 = "the (asio_shutdown sample_config ignore None () shut_start)"
  let ?s2 = "the (run_op sample_config ignore 0 None ''abc'' ?s1)"
  have defined: "asio_shutdown sample_config ignore None () shut_start \<noteq> None" "run_op sample_config ignore 0 None ''abc'' ?s1 \<noteq> None"
    "asio_read_at_least ignore 1 8 () ?s2 \<noteq> None" by code_simp+
  have "asio_step sample_config ?s1 ?s2" by (rule step_op [OF ignore_ok, of _ 0 None "''abc''"]) (use defined(2) in simp)
  moreover have "asio_step sample_config ?s2 shut_end"
    by (rule step_call [OF ignore_ok], rule call_read [of ignore 1 8 "()"]) (use defined(3) in \<open>simp add: shut_end_def\<close>)
  ultimately have "(asio_step sample_config)\<^sup>*\<^sup>* ?s1 shut_end" by simp
  moreover have "asio_shutdown sample_config ignore None () shut_start = Some ?s1" using defined(1) by simp
  moreover have "Ev_read () (Some (Code (Transport T_action_after_shutdown))) [] \<in> set (a_events shut_end)" by code_simp
  ultimately show ?thesis using quiet_after_shutdown [OF ignore_ok, of sample_config None "()" shut_start ?s1 shut_end] by blast
qed

end
