(* ===== verification/Asio_Endpoint.thy ===== *)
theory Asio_Endpoint
  imports Asio_Transport
begin

text \<open>
  The endpoint of the asio transport (\<^verbatim>\<open>transport/asio/endpoint.hpp\<close>): who owns the \<^verbatim>\<open>io_service\<close>, the acceptor and the state of listening.
  Services are numbered; \<open>live\<close> lists those that exist. Connecting is part of \<open>Asio_Transport\<close>; \<^verbatim>\<open>run\<close>, \<^verbatim>\<open>poll\<close>, \<^verbatim>\<open>stop\<close> and
  their relatives only pass the call on to the service.
\<close>

subsection \<open>State\<close>

datatype endpoint_state = E_UNINITIALIZED | E_READY | E_LISTENING

text \<open>\<open>e_acceptor\<close> is whether the acceptor is open, \<open>e_accepts\<close> the handlers of the accepts outstanding on it.\<close>

record 'h asio_endpoint =
  e_service :: "nat option"
  e_external :: bool
  e_acceptor :: "bool option"
  e_accepts :: "'h list"
  e_work :: bool
  e_backlog :: int
  e_reuse_addr :: bool
  e_state :: endpoint_state
  e_tcp_pre_init :: bool
  e_tcp_post_init :: bool
  e_socket_init :: bool

definition make_asio_endpoint :: "'h asio_endpoint" where
  "make_asio_endpoint =
     \<lparr>e_service = None, e_external = False, e_acceptor = None, e_accepts = [], e_work = False, e_backlog = 0, e_reuse_addr = False,
      e_state = E_UNINITIALIZED, e_tcp_pre_init = False, e_tcp_post_init = False, e_socket_init = False\<rparr>"

text \<open>The destructor. Deleting a service that does not exist is undefined: \<open>None\<close>.\<close>

definition destroy_endpoint :: "'h asio_endpoint \<Rightarrow> nat list \<Rightarrow> nat list option" where
  "destroy_endpoint e live =
     (if e_state e \<noteq> E_UNINITIALIZED \<and> \<not> e_external e
      then (case e_service e of None \<Rightarrow> Some live | Some p \<Rightarrow> if p \<in> set live then Some (remove1 p live) else None)
      else Some live)"

definition max_connections :: int where "max_connections = 128"

text \<open>The move constructor: the new endpoint, and what is left of the old one. Handlers, work and resolver stay behind.\<close>

definition move_endpoint :: "'h asio_endpoint \<Rightarrow> 'h asio_endpoint \<times> 'h asio_endpoint" where
  "move_endpoint src =
     (make_asio_endpoint\<lparr>e_service := e_service src, e_external := e_external src, e_acceptor := e_acceptor src, e_accepts := e_accepts src,
        e_backlog := max_connections, e_reuse_addr := e_reuse_addr src, e_state := e_state src\<rparr>,
      src\<lparr>e_service := None, e_external := False, e_acceptor := None, e_accepts := [], e_state := E_UNINITIALIZED\<rparr>)"

subsection \<open>Initialisation\<close>

definition init_external_ec :: "nat \<Rightarrow> 'h asio_endpoint \<Rightarrow> asio_code option \<times> 'h asio_endpoint" where
  "init_external_ec p e =
     (if e_state e \<noteq> E_UNINITIALIZED then (Some (Code (Lib E_invalid_state)), e)
      else (None, e\<lparr>e_service := Some p, e_external := True, e_acceptor := Some False, e_state := E_READY\<rparr>))"

definition init_external :: "nat \<Rightarrow> 'h asio_endpoint \<Rightarrow> asio_code + 'h asio_endpoint" where
  "init_external p e = (case init_external_ec p e of (Some ec, e) \<Rightarrow> Inl ec | (None, e) \<Rightarrow> Inr e)"

text \<open>With a service of its own, which is allocated first, whatever the state.\<close>

definition init_internal_ec :: "nat \<Rightarrow> 'h asio_endpoint \<Rightarrow> nat list \<Rightarrow> (asio_code option \<times> 'h asio_endpoint) \<times> nat list" where
  "init_internal_ec new e live = (case init_external_ec new e of (ec, e) \<Rightarrow> ((ec, e\<lparr>e_external := False\<rparr>), new # live))"

definition init_internal :: "nat \<Rightarrow> 'h asio_endpoint \<Rightarrow> nat list \<Rightarrow> (asio_code + 'h asio_endpoint) \<times> nat list" where
  "init_internal new e live =
     ((case init_external new e of Inl ec \<Rightarrow> Inl ec | Inr e \<Rightarrow> Inr (e\<lparr>e_external := False\<rparr>)), new # live)"

definition e_set_tcp_pre_init_handler :: "bool \<Rightarrow> 'h asio_endpoint \<Rightarrow> 'h asio_endpoint" where
  "e_set_tcp_pre_init_handler on e = e\<lparr>e_tcp_pre_init := on\<rparr>"
definition e_set_tcp_post_init_handler :: "bool \<Rightarrow> 'h asio_endpoint \<Rightarrow> 'h asio_endpoint" where
  "e_set_tcp_post_init_handler on e = e\<lparr>e_tcp_post_init := on\<rparr>"
definition set_listen_backlog :: "int \<Rightarrow> 'h asio_endpoint \<Rightarrow> 'h asio_endpoint" where "set_listen_backlog n e = e\<lparr>e_backlog := n\<rparr>"
definition set_reuse_addr :: "bool \<Rightarrow> 'h asio_endpoint \<Rightarrow> 'h asio_endpoint" where "set_reuse_addr v e = e\<lparr>e_reuse_addr := v\<rparr>"

definition start_perpetual :: "'h asio_endpoint \<Rightarrow> 'h asio_endpoint option" where
  "start_perpetual e = (if e_service e = None then None else Some (e\<lparr>e_work := True\<rparr>))"
definition stop_perpetual :: "'h asio_endpoint \<Rightarrow> 'h asio_endpoint" where "stop_perpetual e = e\<lparr>e_work := False\<rparr>"

text \<open>\<^verbatim>\<open>init\<close>: a connection made by this endpoint.\<close>

definition init_transport :: "asio_config \<Rightarrow> 'h asio_app \<Rightarrow> 'h asio_endpoint \<Rightarrow> 'h asio \<Rightarrow> asio_code option \<times> 'h asio" where
  "init_transport cf app e s =
     (let s = asio_set_socket_init_handler (e_socket_init e) s; (ec, s) = asio_init_asio cf app s
      in if ec \<noteq> None then (ec, s)
         else (None, asio_set_tcp_post_init_handler (e_tcp_post_init e) (asio_set_tcp_pre_init_handler (e_tcp_pre_init e) s)))"

subsection \<open>Listening\<close>

text \<open>What the operating system answers; a second \<^verbatim>\<open>open\<close> of an acceptor that is open fails without asking it.\<close>

record listen_results =
  r_open :: bool
  r_option :: bool
  r_bind :: bool
  r_listen :: bool

definition listen_ec :: "listen_results \<Rightarrow> 'h asio_endpoint \<Rightarrow> (asio_code option \<times> 'h asio_endpoint) option" where
  "listen_ec r e =
     (if e_state e \<noteq> E_READY then Some (Some (Code (Lib E_invalid_state)), e)
      else case e_acceptor e of
          None \<Rightarrow> None
        | Some is_open \<Rightarrow>
            let opened = (\<not> is_open \<and> r_open r); e = e\<lparr>e_acceptor := Some (is_open \<or> opened)\<rparr>
            in if opened \<and> r_option r \<and> r_bind r \<and> r_listen r then Some (None, e\<lparr>e_state := E_LISTENING\<rparr>)
               else Some (Some (Asio A_pass_through), e))"

definition listen :: "listen_results \<Rightarrow> 'h asio_endpoint \<Rightarrow> (asio_code + 'h asio_endpoint) option" where
  "listen r e = map_option (\<lambda>(ec, e). case ec of Some ec \<Rightarrow> Inl ec | None \<Rightarrow> Inr e) (listen_ec r e)"

text \<open>By host and service: the addresses they resolve to, of which the first is taken.\<close>

definition listen_service_ec :: "'a list \<Rightarrow> ('a \<Rightarrow> listen_results) \<Rightarrow> 'h asio_endpoint \<Rightarrow> (asio_code option \<times> 'h asio_endpoint) option" where
  "listen_service_ec addresses r e =
     (if e_service e = None then None
      else case addresses of
          [] \<Rightarrow> Some (Some (Asio A_invalid_host_service), e)
        | address # rest \<Rightarrow> listen_ec (r address) e)"

text \<open>Closing the acceptor ends the accepts outstanding on it.\<close>

definition stop_listening_ec :: "'h asio_endpoint \<Rightarrow> asio_code option \<times> 'h asio_endpoint" where
  "stop_listening_ec e =
     (if e_state e \<noteq> E_LISTENING then (Some (Code (Lib E_invalid_state)), e)
      else (None, e\<lparr>e_acceptor := Some False, e_state := E_READY\<rparr>))"

definition is_listening :: "'h asio_endpoint \<Rightarrow> bool" where "is_listening e \<longleftrightarrow> e_state e = E_LISTENING"

definition async_accept_ec :: "'h \<Rightarrow> 'h asio_endpoint \<Rightarrow> asio_code option \<times> 'h asio_endpoint" where
  "async_accept_ec h e =
     (if e_state e \<noteq> E_LISTENING then (Some (Code (Lib E_async_accept_not_listening)), e)
      else (None, e\<lparr>e_accepts := e_accepts e @ [h]\<rparr>))"

definition async_accept :: "'h \<Rightarrow> 'h asio_endpoint \<Rightarrow> asio_code + 'h asio_endpoint" where
  "async_accept h e = (case async_accept_ec h e of (Some ec, e) \<Rightarrow> Inl ec | (None, e) \<Rightarrow> Inr e)"

text \<open>The code the accept handler gets. An operation aborted by asio is one cancelled to the system.\<close>

definition handle_accept :: "sys_error option \<Rightarrow> asio_code option" where
  "handle_accept sys =
     (case sys of
        None \<Rightarrow> None
      | Some Sys_aborted \<Rightarrow> Some (Code (Lib E_operation_canceled))
      | Some _ \<Rightarrow> Some (Asio A_pass_through))"

subsection \<open>Properties\<close>

text \<open>
  The state, the acceptor and the service agree: listening goes with an open acceptor, and an endpoint that was initialised has both.
\<close>

definition endpoint_ok :: "'h asio_endpoint \<Rightarrow> bool" where
  "endpoint_ok e \<longleftrightarrow> (e_state e = E_UNINITIALIZED \<longleftrightarrow> e_acceptor e = None) \<and> (e_acceptor e = None \<longleftrightarrow> e_service e = None) \<and>
     (e_state e = E_LISTENING \<longrightarrow> e_acceptor e = Some True)"

lemma endpoint_kept:
  "endpoint_ok make_asio_endpoint"
  "endpoint_ok e \<Longrightarrow> endpoint_ok (snd (init_external_ec p e))"
  "endpoint_ok e \<Longrightarrow> endpoint_ok (snd (fst (init_internal_ec p e live)))"
  "endpoint_ok e \<Longrightarrow> endpoint_ok (fst (move_endpoint e)) \<and> endpoint_ok (snd (move_endpoint e))"
  "endpoint_ok e \<Longrightarrow> listen_ec r e = Some (ec, e') \<Longrightarrow> endpoint_ok e' \<and> (ec = None \<longrightarrow> is_listening e')"
  "endpoint_ok e \<Longrightarrow> endpoint_ok (snd (stop_listening_ec e))"
  "endpoint_ok e \<Longrightarrow> endpoint_ok (snd (async_accept_ec h e))"
  by (auto simp: endpoint_ok_def make_asio_endpoint_def init_external_ec_def init_internal_ec_def move_endpoint_def listen_ec_def
      stop_listening_ec_def async_accept_ec_def is_listening_def Let_def split: if_splits option.splits)

text \<open>
  A failed \<^verbatim>\<open>listen\<close> sticks. When the system opens the acceptor and refuses a later step (a port in use), the acceptor is left open, and
  every further \<^verbatim>\<open>listen\<close> fails with the same code, whatever the system would answer, and changes nothing.
\<close>

theorem failed_listen_sticks:
  assumes "endpoint_ok e" "e_state e = E_READY" "r_open r" "\<not> (r_option r \<and> r_bind r \<and> r_listen r)"
  shows "\<exists>e'. listen_ec r e = Some (Some (Asio A_pass_through), e') \<and>
    (\<forall>r'. listen_ec r' e' = Some (Some (Asio A_pass_through), e') \<and> listen r' e' = Some (Inl (Asio A_pass_through)))"
  using assms by (auto simp: endpoint_ok_def listen_ec_def listen_def Let_def split: option.split)

theorem failed_listen_sticks_witness:
  "\<exists>e'. listen_ec \<lparr>r_open = True, r_option = True, r_bind = False, r_listen = True\<rparr> (snd (init_external_ec 7 make_asio_endpoint)) =
      Some (Some (Asio A_pass_through), e') \<and>
    listen_ec \<lparr>r_open = True, r_option = True, r_bind = True, r_listen = True\<rparr> e' = Some (Some (Asio A_pass_through), e')"
proof -
  let ?e = "snd (init_external_ec 7 make_asio_endpoint)"
  have "endpoint_ok ?e" by (intro endpoint_kept)
  moreover have "e_state ?e = E_READY" by (simp add: init_external_ec_def make_asio_endpoint_def)
  ultimately show ?thesis
    using failed_listen_sticks [of ?e "\<lparr>r_open = True, r_option = True, r_bind = False, r_listen = True\<rparr>"] by auto
qed

text \<open>Listening that ended well can begin again.\<close>

lemma listen_again:
  assumes "listen_ec r e = Some (None, e')"
  shows "is_listening e' \<and> stop_listening_ec e' = (None, e) \<and> listen_ec r (snd (stop_listening_ec e')) = Some (None, e')"
  using assms by (auto simp: listen_ec_def stop_listening_ec_def is_listening_def Let_def split: if_splits option.splits)

text \<open>
  The ownership of the service. An endpoint deletes the service it made and no other, when it or what it was moved to is destroyed; but
  \<^verbatim>\<open>init_asio(ec)\<close> on an endpoint that uses a service of the application's reports an error and then takes that service for its own, which its
  destructor deletes, while the one just made is never deleted.
\<close>

theorem service_ownership:
  fixes e :: "'h asio_endpoint"
  assumes "p \<notin> set live" "new \<notin> set live" "p \<noteq> new"
  shows "init_internal_ec p make_asio_endpoint live = ((None, e1), live1) \<Longrightarrow> destroy_endpoint (e1 :: 'h asio_endpoint) live1 = Some live"
    "init_internal_ec p make_asio_endpoint live = ((None, e1), live1) \<Longrightarrow> move_endpoint e1 = (e2, e3) \<Longrightarrow>
      destroy_endpoint (e2 :: 'h asio_endpoint) live1 = Some live \<and> destroy_endpoint e3 live = Some live"
    "init_external_ec p make_asio_endpoint = (None, e) \<Longrightarrow> destroy_endpoint e (p # live) = Some (p # live) \<and>
      (\<exists>e'. init_internal_ec new e (p # live) = ((Some (Code (Lib E_invalid_state)), e'), new # p # live) \<and>
        destroy_endpoint e' (new # p # live) = Some (new # live))"
  using assms by (auto simp: init_internal_ec_def init_external_ec_def make_asio_endpoint_def destroy_endpoint_def move_endpoint_def)

theorem service_ownership_witness:
  "destroy_endpoint (snd (fst (init_internal_ec 4 (snd (init_external_ec 3 (make_asio_endpoint :: unit asio_endpoint))) [3]))) [4, 3] = Some [4]"
proof -
  define e where "e = snd (init_external_ec 3 (make_asio_endpoint :: unit asio_endpoint))"
  have "init_external_ec 3 make_asio_endpoint = (None, e)" by (simp add: e_def init_external_ec_def make_asio_endpoint_def)
  from service_ownership(3) [OF _ _ _ this, of "[]" 4] show ?thesis by (auto simp flip: e_def)
qed

end
