(* ===== verification/Endpoint.thy ===== *)
theory Endpoint
  imports Connection_Safety Uri
begin

text \<open>
  An endpoint and its connections (\<^verbatim>\<open>endpoint.hpp\<close>, \<^verbatim>\<open>impl/endpoint_impl.hpp\<close>, \<^verbatim>\<open>roles/client_endpoint.hpp\<close>,
  \<^verbatim>\<open>roles/server_endpoint.hpp\<close>): new connections take over its settings, calls by handle reach one of them, and a server's accept loop starts
  them. A handle is a number, and a pointer that lasts as long as the connection exists. The transport is what it answers: to the
  initialisation of a connection, an accept and a connect. Loggers and locks are left out.
\<close>

subsection \<open>State\<close>

record endpoint_config =
  g_open_timeout :: int
  g_close_timeout :: int
  g_pong_timeout :: int
  g_max_message_size :: u64
  g_user_agent :: string
  g_secure :: bool

record endpoint =
  p_is_server :: bool
  p_user_agent :: string
  p_handlers :: "handler list"
  p_open_timeout :: int
  p_close_timeout :: int
  p_pong_timeout :: int
  p_max_message_size :: u64
  p_connections :: "nat \<Rightarrow> connection option"
  p_next :: nat
  p_listening :: bool
  p_accepts :: "nat list"
  p_connects :: "nat list"

definition make_endpoint :: "endpoint_config \<Rightarrow> bool \<Rightarrow> endpoint" where
  "make_endpoint g is_server =
     \<lparr>p_is_server = is_server, p_user_agent = g_user_agent g, p_handlers = [], p_open_timeout = g_open_timeout g,
      p_close_timeout = g_close_timeout g, p_pong_timeout = g_pong_timeout g, p_max_message_size = g_max_message_size g,
      p_connections = (\<lambda>n. None), p_next = 0, p_listening = False, p_accepts = [], p_connects = []\<rparr>"

definition make_client :: "endpoint_config \<Rightarrow> endpoint" where "make_client g = make_endpoint g False"
definition make_server :: "endpoint_config \<Rightarrow> endpoint" where "make_server g = make_endpoint g True"

definition set_user_agent :: "string \<Rightarrow> endpoint \<Rightarrow> endpoint" where "set_user_agent ua p = p\<lparr>p_user_agent := ua\<rparr>"
definition p_set_handler :: "handler \<Rightarrow> bool \<Rightarrow> endpoint \<Rightarrow> endpoint" where
  "p_set_handler h b p = p\<lparr>p_handlers := (if b then h # p_handlers p else filter (\<lambda>k. k \<noteq> h) (p_handlers p))\<rparr>"
definition p_set_open_handshake_timeout :: "int \<Rightarrow> endpoint \<Rightarrow> endpoint" where
  "p_set_open_handshake_timeout n p = p\<lparr>p_open_timeout := n\<rparr>"
definition p_set_close_handshake_timeout :: "int \<Rightarrow> endpoint \<Rightarrow> endpoint" where
  "p_set_close_handshake_timeout n p = p\<lparr>p_close_timeout := n\<rparr>"
definition p_set_pong_timeout :: "int \<Rightarrow> endpoint \<Rightarrow> endpoint" where "p_set_pong_timeout n p = p\<lparr>p_pong_timeout := n\<rparr>"
definition p_set_max_message_size :: "u64 \<Rightarrow> endpoint \<Rightarrow> endpoint" where "p_set_max_message_size n p = p\<lparr>p_max_message_size := n\<rparr>"

subsection \<open>New connections\<close>

text \<open>The handlers an endpoint hands on, in the order of the code; the termination handler is not one of them.\<close>

definition endpoint_handlers :: "handler list" where
  "endpoint_handlers =
     [Open_handler, Close_handler, Fail_handler, Ping_handler, Pong_handler, Pong_timeout_handler, Interrupt_handler, Http_handler,
      Validate_handler, Message_handler]"

definition new_connection :: "endpoint_config \<Rightarrow> endpoint \<Rightarrow> connection" where
  "new_connection g p =
     (let c = make_connection (p_is_server p) (p_user_agent p) (g_open_timeout g) (g_close_timeout g) (g_pong_timeout g) (g_max_message_size g);
          c = fold (\<lambda>h. set_handler h (List.member (p_handlers p) h)) endpoint_handlers c;
          c = (if p_open_timeout p \<noteq> g_open_timeout g then set_open_handshake_timeout (p_open_timeout p) c else c);
          c = (if p_close_timeout p \<noteq> g_close_timeout g then set_close_handshake_timeout (p_close_timeout p) c else c);
          c = (if p_pong_timeout p \<noteq> g_pong_timeout g then set_pong_timeout (p_pong_timeout p) c else c)
      in if p_max_message_size p \<noteq> g_max_message_size g then set_max_message_size (p_max_message_size p) c else c)"

text \<open>\<open>ec\<close> is what the transport answers to the initialisation; the handle, or a null pointer.\<close>

definition create_connection :: "endpoint_config \<Rightarrow> ec \<Rightarrow> endpoint \<Rightarrow> nat option \<times> endpoint" where
  "create_connection g ec p =
     (if ec \<noteq> None then (None, p)
      else (Some (p_next p), p\<lparr>p_connections := (p_connections p)(p_next p := Some (new_connection g p)), p_next := Suc (p_next p)\<rparr>))"

subsection \<open>Calls by handle\<close>

definition put_connection :: "nat \<Rightarrow> connection \<Rightarrow> endpoint \<Rightarrow> endpoint" where
  "put_connection n c p = p\<lparr>p_connections := (p_connections p)(n := Some c)\<rparr>"

text \<open>\<open>ec\<close> is the output argument as the caller passes it in; it is set only when there is no connection.\<close>

definition get_con_from_hdl :: "nat \<Rightarrow> ec \<Rightarrow> endpoint \<Rightarrow> connection option \<times> ec" where
  "get_con_from_hdl n ec p =
     (case p_connections p n of None \<Rightarrow> (None, Some (Lib E_bad_connection)) | Some c \<Rightarrow> (Some c, ec))"

text \<open>What the calls have in common. \<open>None\<close> is a null pointer dereferenced by the connection.\<close>

definition by_handle :: "(connection \<Rightarrow> (ec \<times> connection) option) \<Rightarrow> nat \<Rightarrow> ec \<Rightarrow> endpoint \<Rightarrow> (ec \<times> endpoint) option" where
  "by_handle f n ec p =
     (case get_con_from_hdl n ec p of
        (con, ec) \<Rightarrow>
          if ec \<noteq> None then Some (ec, p)
          else case con of None \<Rightarrow> None | Some c \<Rightarrow> map_option (\<lambda>(ec, c). (ec, put_connection n c p)) (f c))"

definition p_interrupt :: "nat \<Rightarrow> ec \<Rightarrow> endpoint \<Rightarrow> (ec \<times> endpoint) option" where
  "p_interrupt n ec p = by_handle (\<lambda>c. Some (None, interrupt c)) n ec p"
definition p_pause_reading :: "nat \<Rightarrow> ec \<Rightarrow> endpoint \<Rightarrow> (ec \<times> endpoint) option" where
  "p_pause_reading n ec p = by_handle (\<lambda>c. Some (None, pause_reading c)) n ec p"
definition p_resume_reading :: "nat \<Rightarrow> ec \<Rightarrow> endpoint \<Rightarrow> (ec \<times> endpoint) option" where
  "p_resume_reading n ec p = by_handle (\<lambda>c. Some (None, resume_reading c)) n ec p"
definition p_send_payload :: "env \<Rightarrow> bytes \<Rightarrow> opcode \<Rightarrow> nat \<Rightarrow> ec \<Rightarrow> endpoint \<Rightarrow> (ec \<times> endpoint) option" where
  "p_send_payload env payload op n ec p = by_handle (send_payload env payload op) n ec p"
definition p_send :: "env \<Rightarrow> message \<Rightarrow> nat \<Rightarrow> ec \<Rightarrow> endpoint \<Rightarrow> (ec \<times> endpoint) option" where
  "p_send env msg n ec p = by_handle (send env msg) n ec p"
definition p_close :: "env \<Rightarrow> u16 \<Rightarrow> bytes \<Rightarrow> nat \<Rightarrow> ec \<Rightarrow> endpoint \<Rightarrow> (ec \<times> endpoint) option" where
  "p_close env code reason n ec p = by_handle (close env code reason) n ec p"
definition p_ping :: "env \<Rightarrow> bytes \<Rightarrow> nat \<Rightarrow> ec \<Rightarrow> endpoint \<Rightarrow> (ec \<times> endpoint) option" where
  "p_ping env payload n ec p = by_handle (ping env payload) n ec p"
definition p_pong :: "env \<Rightarrow> bytes \<Rightarrow> nat \<Rightarrow> ec \<Rightarrow> endpoint \<Rightarrow> (ec \<times> endpoint) option" where
  "p_pong env payload n ec p = by_handle (pong env payload) n ec p"

text \<open>The overloads that throw start with an empty code.\<close>

definition or_throw :: "(ec \<times> endpoint) option \<Rightarrow> (error_code + endpoint) option" where
  "or_throw r = map_option (\<lambda>(ec, p). case ec of None \<Rightarrow> Inr p | Some e \<Rightarrow> Inl e) r"

definition interrupt_or_throw :: "nat \<Rightarrow> endpoint \<Rightarrow> (error_code + endpoint) option" where
  "interrupt_or_throw n p = or_throw (p_interrupt n None p)"
definition pause_reading_or_throw :: "nat \<Rightarrow> endpoint \<Rightarrow> (error_code + endpoint) option" where
  "pause_reading_or_throw n p = or_throw (p_pause_reading n None p)"
definition resume_reading_or_throw :: "nat \<Rightarrow> endpoint \<Rightarrow> (error_code + endpoint) option" where
  "resume_reading_or_throw n p = or_throw (p_resume_reading n None p)"
definition send_payload_or_throw :: "env \<Rightarrow> bytes \<Rightarrow> opcode \<Rightarrow> nat \<Rightarrow> endpoint \<Rightarrow> (error_code + endpoint) option" where
  "send_payload_or_throw env payload op n p = or_throw (p_send_payload env payload op n None p)"
definition send_or_throw :: "env \<Rightarrow> message \<Rightarrow> nat \<Rightarrow> endpoint \<Rightarrow> (error_code + endpoint) option" where
  "send_or_throw env msg n p = or_throw (p_send env msg n None p)"
definition close_or_throw :: "env \<Rightarrow> u16 \<Rightarrow> bytes \<Rightarrow> nat \<Rightarrow> endpoint \<Rightarrow> (error_code + endpoint) option" where
  "close_or_throw env code reason n p = or_throw (p_close env code reason n None p)"
definition ping_or_throw :: "env \<Rightarrow> bytes \<Rightarrow> nat \<Rightarrow> endpoint \<Rightarrow> (error_code + endpoint) option" where
  "ping_or_throw env payload n p = or_throw (p_ping env payload n None p)"
definition pong_or_throw :: "env \<Rightarrow> bytes \<Rightarrow> nat \<Rightarrow> endpoint \<Rightarrow> (error_code + endpoint) option" where
  "pong_or_throw env payload n p = or_throw (p_pong env payload n None p)"

subsection \<open>The client\<close>

definition get_connection :: "endpoint_config \<Rightarrow> ec \<Rightarrow> uri \<Rightarrow> endpoint \<Rightarrow> (nat option \<times> ec) \<times> endpoint" where
  "get_connection g init_ec u p =
     (if m_secure u \<and> \<not> g_secure g then ((None, Some (Lib E_endpoint_not_secure)), p)
      else case create_connection g init_ec p of
          (None, p) \<Rightarrow> ((None, Some (Lib E_con_creation_failed)), p)
        | (Some n, p) \<Rightarrow>
            ((Some n, None), p\<lparr>p_connections := (p_connections p)(n := map_option (con_set_uri u) (p_connections p n))\<rparr>))"

definition get_connection_text :: "endpoint_config \<Rightarrow> ec \<Rightarrow> string \<Rightarrow> endpoint \<Rightarrow> (nat option \<times> ec) \<times> endpoint" where
  "get_connection_text g init_ec s p =
     (let u = parse_uri s in if \<not> m_valid u then ((None, Some (Lib E_invalid_uri)), p) else get_connection g init_ec u p)"

definition connect :: "nat \<Rightarrow> endpoint \<Rightarrow> endpoint" where "connect n p = p\<lparr>p_connects := p_connects p @ [n]\<rparr>"

text \<open>The outcome of a handler on one connection: an exception it lets through, or none.\<close>

fun put_outcome :: "nat \<Rightarrow> outcome \<Rightarrow> endpoint \<Rightarrow> (exn option \<times> endpoint) option" where
  "put_outcome n (Done c) p = Some (None, put_connection n c p)"
| "put_outcome n (Throws e c) p = Some (Some e, put_connection n c p)"
| "put_outcome n Undefined p = None"

definition p_handle_connect :: "nat \<Rightarrow> ec \<Rightarrow> endpoint \<Rightarrow> (exn option \<times> endpoint) option" where
  "p_handle_connect n ec p =
     (case p_connections p n of
        None \<Rightarrow> None
      | Some c \<Rightarrow> put_outcome n (if ec \<noteq> None then Done (terminate ec c) else start c) p)"

subsection \<open>The server\<close>

text \<open>
  \<open>init_ec\<close> is what the transport answers to the initialisation of the new connection, \<open>accept_ec\<close> to the accept. The accept goes through the
  pointer to the connection, null or not.
\<close>

definition start_accept :: "endpoint_config \<Rightarrow> ec \<Rightarrow> ec \<Rightarrow> endpoint \<Rightarrow> (ec \<times> endpoint) option" where
  "start_accept g init_ec accept_ec p =
     (if \<not> p_listening p then Some (Some (Lib E_async_accept_not_listening), p)
      else case create_connection g init_ec p of
          (None, p) \<Rightarrow> None
        | (Some n, p) \<Rightarrow>
            (if accept_ec \<noteq> None
             then Some (accept_ec, p\<lparr>p_connections := (p_connections p)(n := map_option (terminate None) (p_connections p n))\<rparr>)
             else Some (None, p\<lparr>p_accepts := p_accepts p @ [n]\<rparr>)))"

definition start_accept_or_throw :: "endpoint_config \<Rightarrow> ec \<Rightarrow> ec \<Rightarrow> endpoint \<Rightarrow> (error_code + endpoint) option" where
  "start_accept_or_throw g init_ec accept_ec p = or_throw (start_accept g init_ec accept_ec p)"

text \<open>The code of the accept that is started anew is only logged. An exception of \<^verbatim>\<open>start\<close> leaves the handler before that.\<close>

definition p_handle_accept :: "endpoint_config \<Rightarrow> ec \<Rightarrow> ec \<Rightarrow> nat \<Rightarrow> ec \<Rightarrow> endpoint \<Rightarrow> (exn option \<times> endpoint) option" where
  "p_handle_accept g init_ec accept_ec n ec p =
     (case p_connections p n of
        None \<Rightarrow> None
      | Some c \<Rightarrow>
          (case put_outcome n (if ec \<noteq> None then Done (terminate ec c) else start c) p of
             Some (None, p) \<Rightarrow> map_option (\<lambda>(ec, p). (None, p)) (start_accept g init_ec accept_ec p)
           | r \<Rightarrow> r))"

subsection \<open>Runs\<close>

text \<open>
  The world of an endpoint: settings, new connections, calls by handle and by pointer, completions on any connection, connects and accepts that end,
  listening that begins and ends, and connections nobody holds any more. A connection that is being accepted or connected is held by that operation
  alone. The application's handlers act on their own connection.
\<close>

inductive endpoint_step :: "endpoint_config \<Rightarrow> env \<Rightarrow> endpoint \<Rightarrow> endpoint \<Rightarrow> bool" for g env where
  ep_settings: "endpoint_step g env p (p\<lparr>p_user_agent := ua, p_handlers := hs, p_open_timeout := ot, p_close_timeout := ct,
     p_pong_timeout := pt, p_max_message_size := mx\<rparr>)"
| ep_listening: "endpoint_step g env p (p\<lparr>p_listening := b\<rparr>)"
| ep_get: "endpoint_step g env p (snd (get_connection g init_ec u p))"
| ep_create: "endpoint_step g env p (snd (create_connection g init_ec p))"
| ep_connection: "p_connections p n = Some c \<Longrightarrow> n \<notin> set (p_accepts p) \<Longrightarrow> n \<notin> set (p_connects p) \<Longrightarrow> step env c c' \<Longrightarrow>
    endpoint_step g env p (put_connection n c' p)"
| ep_connect: "p_connections p n = Some c \<Longrightarrow> n \<notin> set (p_accepts p) \<Longrightarrow> n \<notin> set (p_connects p) \<Longrightarrow>
    endpoint_step g env p (connect n p)"
| ep_connected: "n \<in> set (p_connects p) \<Longrightarrow> p_handle_connect n ec (p\<lparr>p_connects := remove1 n (p_connects p)\<rparr>) = Some (x, p') \<Longrightarrow>
    endpoint_step g env p p'"
| ep_start_accept: "start_accept g init_ec accept_ec p = Some (ec, p') \<Longrightarrow> endpoint_step g env p p'"
| ep_accepted: "n \<in> set (p_accepts p) \<Longrightarrow>
    p_handle_accept g init_ec accept_ec n ec (p\<lparr>p_accepts := remove1 n (p_accepts p)\<rparr>) = Some (x, p') \<Longrightarrow> endpoint_step g env p p'"
| ep_expired: "n \<notin> set (p_accepts p) \<Longrightarrow> n \<notin> set (p_connects p) \<Longrightarrow>
    endpoint_step g env p (p\<lparr>p_connections := (p_connections p)(n := None)\<rparr>)"

inductive endpoint_reachable :: "endpoint_config \<Rightarrow> env \<Rightarrow> endpoint \<Rightarrow> bool" for g env where
  ep_fresh: "endpoint_reachable g env (make_endpoint g is_server)"
| ep_next: "endpoint_reachable g env p \<Longrightarrow> endpoint_step g env p p' \<Longrightarrow> endpoint_reachable g env p'"

subsection \<open>Settings\<close>

lemma set_handler_sels [simp]:
  "c_open_timeout (set_handler h b c) = c_open_timeout c" "c_close_timeout (set_handler h b c) = c_close_timeout c"
  "c_pong_timeout (set_handler h b c) = c_pong_timeout c" "c_max_message_size (set_handler h b c) = c_max_message_size c"
  "c_is_server (set_handler h b c) = c_is_server c" "c_user_agent (set_handler h b c) = c_user_agent c"
  "c_internal_state (set_handler h b c) = c_internal_state c" "c_outstanding (set_handler h b c) = c_outstanding c"
  "c_state (set_handler h b c) = c_state c" "c_processor (set_handler h b c) = c_processor c"
  by (simp_all add: set_handler_def)

lemma fold_set_handler_sels [simp]:
  "c_open_timeout (fold (\<lambda>h. set_handler h (f h)) hs c) = c_open_timeout c"
  "c_close_timeout (fold (\<lambda>h. set_handler h (f h)) hs c) = c_close_timeout c"
  "c_pong_timeout (fold (\<lambda>h. set_handler h (f h)) hs c) = c_pong_timeout c"
  "c_max_message_size (fold (\<lambda>h. set_handler h (f h)) hs c) = c_max_message_size c"
  "c_is_server (fold (\<lambda>h. set_handler h (f h)) hs c) = c_is_server c"
  "c_user_agent (fold (\<lambda>h. set_handler h (f h)) hs c) = c_user_agent c"
  "c_internal_state (fold (\<lambda>h. set_handler h (f h)) hs c) = c_internal_state c"
  "c_outstanding (fold (\<lambda>h. set_handler h (f h)) hs c) = c_outstanding c"
  "c_state (fold (\<lambda>h. set_handler h (f h)) hs c) = c_state c"
  "c_processor (fold (\<lambda>h. set_handler h (f h)) hs c) = c_processor c"
  by (induction hs arbitrary: c) simp_all

lemma fold_set_handlers:
  "has_handler k (fold (\<lambda>h. set_handler h (f h)) hs c) \<longleftrightarrow> (if k \<in> set hs then f k else has_handler k c)"
proof (induction hs arbitrary: c)
  case (Cons h hs)
  have "has_handler k (set_handler h b c) \<longleftrightarrow> (if k = h then b else has_handler k c)" for b
    by (auto simp: has_handler_def set_handler_def)
  then show ?case using Cons.IH by auto
qed simp

text \<open>A new connection has the settings of the endpoint, whether or not they are those of the configuration.\<close>

lemma new_connection_settings:
  "c_is_server (new_connection g p) = p_is_server p" "c_user_agent (new_connection g p) = p_user_agent p"
  "c_open_timeout (new_connection g p) = p_open_timeout p" "c_close_timeout (new_connection g p) = p_close_timeout p"
  "c_pong_timeout (new_connection g p) = p_pong_timeout p" "c_max_message_size (new_connection g p) = p_max_message_size p"
  "c_internal_state (new_connection g p) = USER_INIT" "c_outstanding (new_connection g p) = []" "c_state (new_connection g p) = Connecting"
  "has_handler h (new_connection g p) \<longleftrightarrow> h \<noteq> Termination_handler \<and> h \<in> set (p_handlers p)"
proof -
  let ?c = "make_connection (p_is_server p) (p_user_agent p) (g_open_timeout g) (g_close_timeout g) (g_pong_timeout g) (g_max_message_size g)"
  note setters = new_connection_def Let_def set_open_handshake_timeout_def set_close_handshake_timeout_def set_pong_timeout_def set_max_message_size_def
  show "c_is_server (new_connection g p) = p_is_server p" "c_user_agent (new_connection g p) = p_user_agent p"
    "c_open_timeout (new_connection g p) = p_open_timeout p" "c_close_timeout (new_connection g p) = p_close_timeout p"
    "c_pong_timeout (new_connection g p) = p_pong_timeout p" "c_max_message_size (new_connection g p) = p_max_message_size p"
    "c_internal_state (new_connection g p) = USER_INIT" "c_outstanding (new_connection g p) = []" "c_state (new_connection g p) = Connecting"
    by (simp_all add: setters) (simp_all add: make_connection_def)
  have all: "h \<in> set endpoint_handlers \<longleftrightarrow> h \<noteq> Termination_handler" by (cases h) (simp_all add: endpoint_handlers_def)
  have "c_handlers (new_connection g p) = c_handlers (fold (\<lambda>h. set_handler h (List.member (p_handlers p) h)) endpoint_handlers ?c)"
    by (simp add: setters)
  then have "has_handler h (new_connection g p) =
      has_handler h (fold (\<lambda>h. set_handler h (List.member (p_handlers p) h)) endpoint_handlers ?c)" by (simp add: has_handler_def)
  then show "has_handler h (new_connection g p) \<longleftrightarrow> h \<noteq> Termination_handler \<and> h \<in> set (p_handlers p)"
    by (simp add: fold_set_handlers all) (simp add: has_handler_def make_connection_def)
qed

lemma new_connection_frame [simp]:
  "new_connection g (p\<lparr>p_accepts := ns\<rparr>) = new_connection g p" "new_connection g (p\<lparr>p_connections := cs\<rparr>) = new_connection g p"
  by (simp_all add: new_connection_def Let_def)

lemma step_done: "con_reachable env c \<Longrightarrow> api_call env a c = Done c' \<Longrightarrow> con_reachable env c'"
  by (rule next_state, assumption) (rule by_call [of env a], simp)

lemma fold_handlers_reachable: "con_reachable env c \<Longrightarrow> con_reachable env (fold (\<lambda>h. set_handler h (f h)) hs c)"
proof (induction hs arbitrary: c)
  case (Cons h hs)
  from step_done [OF Cons.prems, of "Set_handler h (f h)"] Cons.IH show ?case by simp
qed simp

lemma new_connection_reachable: "con_reachable env (new_connection g p)"
proof -
  have settings: "con_reachable env (if b then set_open_handshake_timeout n c else c)"
    "con_reachable env (if b then set_close_handshake_timeout n c else c)"
    "con_reachable env (if b then set_pong_timeout n c else c)" "con_reachable env (if b then set_max_message_size k c else c)"
    if "con_reachable env c" for b n k c
    using step_done [OF that, of "Set_open_timeout n"] step_done [OF that, of "Set_close_timeout n"]
      step_done [OF that, of "Set_pong_timeout n"] step_done [OF that, of "Set_max_message_size k"] that by simp_all
  show ?thesis unfolding new_connection_def Let_def
    by (intro settings fold_handlers_reachable con_reachable.fresh)
qed

subsection \<open>The invariant\<close>

text \<open>Connections are numbered in the order they are made, all of them are reachable ones, and those being accepted are as they were made.\<close>

definition accepting :: "connection \<Rightarrow> bool" where
  "accepting c \<longleftrightarrow> c_internal_state c = USER_INIT \<and> c_state c = Connecting \<and> c_outstanding c = []"

definition endpoint_inv :: "env \<Rightarrow> endpoint \<Rightarrow> bool" where
  "endpoint_inv env p \<longleftrightarrow>
     (\<forall>n \<ge> p_next p. p_connections p n = None) \<and> (\<forall>n c. p_connections p n = Some c \<longrightarrow> con_reachable env c) \<and>
     distinct (p_accepts p) \<and> (\<forall>n \<in> set (p_accepts p). \<exists>c. p_connections p n = Some c \<and> accepting c) \<and>
     (\<forall>n \<in> set (p_connects p). p_connections p n \<noteq> None \<and> n \<notin> set (p_accepts p))"

lemma accepting_known: "endpoint_inv env p \<Longrightarrow> n \<in> set (p_accepts p) \<Longrightarrow> n < p_next p"
  unfolding endpoint_inv_def by (metis linorder_not_le option.distinct(1))

lemma new_accepting: "accepting (new_connection g p)"
  by (simp add: accepting_def new_connection_settings)

lemma endpoint_inv_create:
  assumes "endpoint_inv env p"
  shows "endpoint_inv env (snd (create_connection g ec p))" "endpoint_inv env (snd (get_connection g ec u p))"
proof -
  have fresh: "p_next p \<notin> set (p_accepts p)" using accepting_known [OF assms] by blast
  show c: "endpoint_inv env (snd (create_connection g ec p))"
    using assms fresh by (auto simp: endpoint_inv_def create_connection_def new_connection_reachable)
  have "con_reachable env (con_set_uri u (new_connection g p))"
    by (rule step_done [OF new_connection_reachable, of _ "Set_uri u"]) simp
  then show "endpoint_inv env (snd (get_connection g ec u p))"
    using assms fresh by (auto simp: endpoint_inv_def get_connection_def create_connection_def)
qed

lemma endpoint_inv_put:
  assumes "endpoint_inv env p" "p_connections p n = Some c" "n \<notin> set (p_accepts p)" "con_reachable env c'"
  shows "endpoint_inv env (put_connection n c' p)"
  using assms by (auto simp: endpoint_inv_def put_connection_def)

lemma put_outcome_inv:
  assumes "endpoint_inv env p" "p_connections p n = Some c" "n \<notin> set (p_accepts p)"
    "put_outcome n (if ec \<noteq> None then Done (terminate ec c) else start c) p = Some (x, p')"
  shows "endpoint_inv env p'" "p_accepts p' = p_accepts p" "p_connects p' = p_connects p"
proof -
  have c: "con_reachable env c" using assms(1,2) by (simp add: endpoint_inv_def)
  obtain c' where c': "p' = put_connection n c' p" "leaves (api_call env (if ec \<noteq> None then Terminate ec else Start) c) c'"
    using assms(4) by (cases "start c") (auto split: if_splits)
  have "con_reachable env c'" by (rule next_state [OF c], rule by_call, rule c'(2))
  then show "endpoint_inv env p'" "p_accepts p' = p_accepts p" "p_connects p' = p_connects p"
    using c'(1) endpoint_inv_put [OF assms(1-3)] by (simp_all add: put_connection_def)
qed

lemma endpoint_inv_start_accept:
  assumes "endpoint_inv env p" "start_accept g init_ec accept_ec p = Some (ec, p')"
  shows "endpoint_inv env p'"
proof -
  have fresh: "p_next p \<notin> set (p_accepts p)" using accepting_known [OF assms(1)] by blast
  have "con_reachable env (terminate None (new_connection g p))"
    by (rule step_done [OF new_connection_reachable, of _ "Terminate None"]) simp
  moreover have "p_next p \<notin> set (p_connects p)" using assms(1) by (auto simp: endpoint_inv_def)
  ultimately show ?thesis using assms fresh new_accepting [of g p]
    by (auto simp: endpoint_inv_def start_accept_def create_connection_def new_connection_reachable split: if_splits)
qed

lemma endpoint_inv_step:
  assumes "endpoint_step g env p p'" "endpoint_inv env p"
  shows "endpoint_inv env p'"
  using assms(1)
proof cases
  case (ep_connection n c c')
  have "con_reachable env c" using assms(2) ep_connection(2) by (simp add: endpoint_inv_def)
  then have "con_reachable env c'" using ep_connection(5) by (rule next_state)
  then show ?thesis using ep_connection assms(2) endpoint_inv_put by blast
next
  case (ep_connected n ec x)
  let ?p = "p\<lparr>p_connects := remove1 n (p_connects p)\<rparr>"
  have inv: "endpoint_inv env ?p" and free: "n \<notin> set (p_accepts ?p)"
    using assms(2) ep_connected(1) by (auto simp: endpoint_inv_def dest: notin_set_remove1)
  obtain c where c: "p_connections ?p n = Some c" using assms(2) ep_connected(1) by (auto simp: endpoint_inv_def)
  with ep_connected(2) have "put_outcome n (if ec \<noteq> None then Done (terminate ec c) else start c) ?p = Some (x, p')"
    by (simp add: p_handle_connect_def)
  from put_outcome_inv(1) [OF inv c free this] show ?thesis .
next
  case (ep_accepted n init_ec accept_ec ec x)
  let ?p = "p\<lparr>p_accepts := remove1 n (p_accepts p)\<rparr>"
  have inv: "endpoint_inv env ?p" and free: "n \<notin> set (p_accepts ?p)"
    using assms(2) by (auto simp: endpoint_inv_def dest: notin_set_remove1)
  obtain c where c: "p_connections ?p n = Some c" using assms(2) ep_accepted(1) by (auto simp: endpoint_inv_def)
  obtain y q where q: "put_outcome n (if ec \<noteq> None then Done (terminate ec c) else start c) ?p = Some (y, q)"
    using ep_accepted(2) c
    by (cases "put_outcome n (if ec \<noteq> None then Done (terminate ec c) else start c) ?p") (auto simp: p_handle_accept_def)
  from put_outcome_inv(1) [OF inv c free q] show ?thesis
    using ep_accepted(2) c q by (cases y) (auto simp: p_handle_accept_def dest: endpoint_inv_start_accept)
next
  case ep_start_accept
  then show ?thesis using assms(2) endpoint_inv_start_accept by blast
next
  case ep_get
  then show ?thesis using endpoint_inv_create(2) [OF assms(2)] by simp
next
  case ep_create
  then show ?thesis using endpoint_inv_create(1) [OF assms(2)] by simp
qed (use assms(2) in \<open>auto simp: endpoint_inv_def connect_def\<close>)

lemma endpoint_reachable_inv: "endpoint_reachable g env p \<Longrightarrow> endpoint_inv env p"
proof (induction rule: endpoint_reachable.induct)
  case (ep_fresh is_server)
  show ?case by (simp add: endpoint_inv_def make_endpoint_def)
qed (rule endpoint_inv_step)

subsection \<open>Properties\<close>



definition listening_server :: "endpoint_config \<Rightarrow> endpoint" where
  "listening_server g = snd (the (start_accept g None None ((make_server g)\<lparr>p_listening := True\<rparr>)))"

lemma listening_server_reachable: "endpoint_reachable g env (listening_server g)"
proof -
  have "endpoint_reachable g env ((make_server g)\<lparr>p_listening := True\<rparr>)"
    unfolding make_server_def by (rule endpoint_reachable.ep_next [OF endpoint_reachable.ep_fresh ep_listening])
  moreover have "start_accept g None None ((make_server g)\<lparr>p_listening := True\<rparr>) = Some (None, listening_server g)"
    by (simp add: listening_server_def start_accept_def create_connection_def)
  ultimately show ?thesis using endpoint_reachable.ep_next ep_start_accept by blast
qed

definition sample_endpoint_config :: endpoint_config where
  "sample_endpoint_config = \<lparr>g_open_timeout = 5000, g_close_timeout = 5000, g_pong_timeout = 5000, g_max_message_size = 32000000,
     g_user_agent = ''WebSocket++/0.4.0'', g_secure = False\<rparr>"



text \<open>
  A code the caller passes in from an earlier call is taken for a failure to find the connection: the call does nothing and leaves the code. And a
  handle whose connection is gone is answered as such.
\<close>

lemma stale_code_drops_call: "p_connections p n = Some c \<Longrightarrow> by_handle f n (Some e) p = Some (Some e, p)"
  by (simp add: by_handle_def get_con_from_hdl_def)

lemma gone_connection: "p_connections p n = None \<Longrightarrow> by_handle f n ec p = Some (Some (Lib E_bad_connection), p)"
  by (simp add: by_handle_def get_con_from_hdl_def)

lemma handle_is_local:
  assumes "by_handle f n ec p = Some (ec', p')" "m \<noteq> n"
  shows "p_connections p' m = p_connections p m"
  using assms by (auto simp: by_handle_def get_con_from_hdl_def put_connection_def split: option.splits if_splits)

text \<open>A server whose transport cannot make a connection goes through a null pointer.\<close>

lemma accept_without_connection: "p_listening p \<Longrightarrow> start_accept g (Some e) accept_ec p = None"
  by (simp add: start_accept_def create_connection_def)

end
