(* ===== verification/Utilities.thy ===== *)
theory Utilities
  imports Prelude "HOL-Library.Sublist"
begin

text \<open>
  Text utilities (\<^verbatim>\<open>impl/utilities_impl.hpp\<close>) that nothing else here uses: octets in hexadecimal, and the replacement of all occurrences of
  a text, which must not be empty.
\<close>

subsection \<open>Hexadecimal\<close>

definition hex_digits :: string where "hex_digits = ''0123456789ABCDEF''"

definition to_hex :: "bytes \<Rightarrow> string" where
  "to_hex input =
     concat (List.map (\<lambda>b. [hex_digits ! unat (drop_bit 4 (b AND 0xF0)), hex_digits ! unat (b AND 0x0F), CHR '' '']) input)"

lemma to_hex_length: "length (to_hex input) = 3 * length input"
  by (induction input) (simp_all add: to_hex_def)

subsection \<open>Replacement\<close>

text \<open>\<^verbatim>\<open>std::string::find\<close>: the first occurrence at a position or behind it.\<close>

fun find_first :: "string \<Rightarrow> string \<Rightarrow> nat option" where
  "find_first search [] = (if search = [] then Some 0 else None)"
| "find_first search (c # s) = (if prefix search (c # s) then Some 0 else map_option Suc (find_first search s))"

definition find_from :: "string \<Rightarrow> nat \<Rightarrow> string \<Rightarrow> nat option" where
  "find_from search pos s = (if pos > length s then None else map_option ((+) pos) (find_first search (drop pos s)))"

partial_function (option) replace_loop :: "string \<Rightarrow> string \<Rightarrow> string \<Rightarrow> nat \<Rightarrow> string option" where
  [code]: "replace_loop search rep subject pos =
     (case find_from search pos subject of
        None \<Rightarrow> Some subject
      | Some p \<Rightarrow> replace_loop search rep (take p subject @ rep @ drop (p + length search) subject) (p + length rep))"

definition string_replace_all :: "string \<Rightarrow> string \<Rightarrow> string \<Rightarrow> string option" where
  "string_replace_all subject search rep = replace_loop search rep subject 0"

subsection \<open>Properties\<close>

text \<open>What is meant: from the front, every occurrence that does not overlap one already replaced; what was put in is not searched.\<close>

function replaced :: "string \<Rightarrow> string \<Rightarrow> string \<Rightarrow> string" where
  "replaced search rep [] = []"
| "replaced search rep (c # s) =
     (if search \<noteq> [] \<and> prefix search (c # s) then rep @ replaced search rep (drop (length search) (c # s))
      else c # replaced search rep s)"
  by pat_completeness auto
termination
proof (relation "measure (\<lambda>(search, rep, s). length s)", goal_cases)
  case (2 search rep c s)
  then show ?case by (cases search) auto
qed auto

lemma find_first_None: "search \<noteq> [] \<Longrightarrow> find_first search s = None \<Longrightarrow> replaced search rep s = s"
  by (induction search s rule: find_first.induct) (auto split: if_splits)

lemma find_first_Some:
  "search \<noteq> [] \<Longrightarrow> find_first search s = Some k \<Longrightarrow>
    k + length search \<le> length s \<and> replaced search rep s = take k s @ rep @ replaced search rep (drop (k + length search) s)"
proof (induction search s arbitrary: k rule: find_first.induct)
  case (2 search c s)
  show ?case
  proof (cases "prefix search (c # s)")
    case True
    then show ?thesis using 2(2,3) prefix_length_le [OF True] by auto
  next
    case False
    then show ?thesis using 2 by auto
  qed
qed auto

lemma replace_loop_replaced:
  assumes "search \<noteq> []"
  shows "replace_loop search rep (front @ s) (length front) = Some (front @ replaced search rep s)"
proof (induction "length s" arbitrary: front s rule: less_induct)
  case less
  show ?case
  proof (cases "find_first search s")
    case None
    then show ?thesis using find_first_None [OF assms None] by (simp add: replace_loop.simps find_from_def)
  next
    case (Some k)
    note f = find_first_Some [OF assms Some, of rep]
    let ?front = "front @ take k s @ rep"
    have l: "length ?front = length front + k + length rep" using f by simp
    have "length (drop (k + length search) s) < length s" using f assms by (cases search) auto
    from less [OF this, of ?front] have
      "replace_loop search rep (front @ take k s @ rep @ drop (k + length search) s) (length front + k + length rep) =
        Some (front @ take k s @ rep @ replaced search rep (drop (k + length search) s))"
      unfolding l by simp
    then show ?thesis using Some f by (subst replace_loop.simps) (simp add: find_from_def add.assoc)
  qed
qed

text \<open>
  The loop returns, with every occurrence replaced, for a text to search that is not empty; for the empty one it never returns,
  whatever it is replaced by, the empty text included.
\<close>

theorem replace_all_returns:
  "string_replace_all subject search rep = (if search = [] then None else Some (replaced search rep subject))"
proof (cases "search = []")
  case False
  then show ?thesis using replace_loop_replaced [OF False, of rep "[]" subject] by (simp add: string_replace_all_def)
next
  case True
  have "replace_loop [] rep s pos = None" if "pos \<le> length s" for s pos
  proof (rule ccontr)
    assume "replace_loop [] rep s pos \<noteq> None"
    then obtain r where r: "replace_loop [] rep s pos = Some r" by blast
    have "\<not> ([] = ([] :: string) \<and> pos \<le> length s)"
    proof (rule replace_loop.raw_induct [where P = "\<lambda>search rep s pos r. \<not> (search = [] \<and> pos \<le> length s)", OF _ r])
      fix loop :: "string \<Rightarrow> string \<Rightarrow> string \<Rightarrow> nat \<Rightarrow> string option" and search rep s pos r
      assume ih: "\<And>search rep s pos r. loop search rep s pos = Some r \<Longrightarrow> \<not> (search = [] \<and> pos \<le> length s)"
        and run: "(case find_from search pos s of None \<Rightarrow> Some s
          | Some p \<Rightarrow> loop search rep (take p s @ rep @ drop (p + length search) s) (p + length rep)) = Some r"
      show "\<not> (search = [] \<and> pos \<le> length s)"
      proof
        assume e: "search = [] \<and> pos \<le> length s"
        have "find_first [] t = Some 0" for t by (cases t) simp_all
        then have "find_from search pos s = Some pos" using e by (simp add: find_from_def)
        with run have "loop search rep (take pos s @ rep @ drop (pos + length search) s) (pos + length rep) = Some r" by simp
        from ih [OF this] e show False by simp
      qed
    qed
    then show False using that by simp
  qed
  then show ?thesis using True by (simp add: string_replace_all_def)
qed

lemma replace_all_sample: "string_replace_all ''a--b---'' ''--'' ''+'' = Some ''a+b+-''"
  by (simp add: replace_all_returns)

end
