(* ===== verification/Logger.thy ===== *)
theory Logger
  imports Prelude
begin

text \<open>
  The loggers (\<^verbatim>\<open>logger/levels.hpp\<close>, \<^verbatim>\<open>logger/basic.hpp\<close>): channels are bits; those compiled in are fixed, those of them that are enabled can
  be changed, and a message goes out when one of its channels is enabled. Locks are left out; the time stamp is an argument.
\<close>

subsection \<open>Channels\<close>

definition elevel_name :: "u32 \<Rightarrow> string" where
  "elevel_name ch =
     (if ch = 0x1 then ''devel'' else if ch = 0x2 then ''library'' else if ch = 0x4 then ''info'' else if ch = 0x8 then ''warning''
      else if ch = 0x10 then ''error'' else if ch = 0x20 then ''fatal'' else ''unknown'')"

definition alevel_name :: "u32 \<Rightarrow> string" where
  "alevel_name ch =
     (if ch = 0x1 then ''connect'' else if ch = 0x2 then ''disconnect'' else if ch = 0x4 then ''control''
      else if ch = 0x8 then ''frame_header'' else if ch = 0x10 then ''frame_payload'' else if ch = 0x20 then ''message_header''
      else if ch = 0x40 then ''message_payload'' else if ch = 0x80 then ''endpoint'' else if ch = 0x100 then ''debug_handshake''
      else if ch = 0x200 then ''debug_close'' else if ch = 0x400 then ''devel'' else if ch = 0x800 then ''application'' else ''unknown'')"

definition all_channels :: u32 where "all_channels = 0xffffffff"

subsection \<open>The logger\<close>

record logger =
  lg_static :: u32
  lg_dynamic :: u32
  lg_out :: string

definition make_logger :: "u32 \<Rightarrow> logger" where "make_logger c = \<lparr>lg_static = c, lg_dynamic = 0, lg_out = []\<rparr>"

definition clear_channels :: "u32 \<Rightarrow> logger \<Rightarrow> logger" where
  "clear_channels ch l = l\<lparr>lg_dynamic := lg_dynamic l AND NOT ch\<rparr>"

definition set_channels :: "u32 \<Rightarrow> logger \<Rightarrow> logger" where
  "set_channels ch l =
     (if ch = 0 then clear_channels all_channels l
      else l\<lparr>lg_dynamic := lg_dynamic l OR (ch AND lg_static l)\<rparr>)"

definition static_test :: "u32 \<Rightarrow> logger \<Rightarrow> bool" where "static_test ch l \<longleftrightarrow> ch AND lg_static l \<noteq> 0"
definition dynamic_test :: "u32 \<Rightarrow> logger \<Rightarrow> bool" where "dynamic_test ch l \<longleftrightarrow> ch AND lg_dynamic l \<noteq> 0"

definition write_log :: "(u32 \<Rightarrow> string) \<Rightarrow> string \<Rightarrow> u32 \<Rightarrow> string \<Rightarrow> logger \<Rightarrow> logger" where
  "write_log channel_name stamp ch msg l =
     (if \<not> dynamic_test ch l then l
      else l\<lparr>lg_out := lg_out l @ ''['' @ stamp @ ''] '' @ ''['' @ channel_name ch @ ''] '' @ msg @ [CHR 0x0A]\<rparr>)"

subsection \<open>Properties\<close>

datatype log_call = Set_channels u32 | Clear_channels u32 | Write_log string u32 string

fun do_log :: "(u32 \<Rightarrow> string) \<Rightarrow> log_call \<Rightarrow> logger \<Rightarrow> logger" where
  "do_log names (Set_channels ch) l = set_channels ch l"
| "do_log names (Clear_channels ch) l = clear_channels ch l"
| "do_log names (Write_log stamp ch msg) l = write_log names stamp ch msg l"

text \<open>What a call says about a channel: on, off, or nothing. Setting no channel turns all of them off.\<close>

fun decides :: "nat \<Rightarrow> log_call \<Rightarrow> bool option" where
  "decides i (Set_channels ch) = (if ch = 0 then Some False else if bit ch i then Some True else None)"
| "decides i (Clear_channels ch) = (if bit ch i then Some False else None)"
| "decides i (Write_log stamp ch msg) = None"

lemma bit_all_channels:
  assumes "i < 32"
  shows "bit all_channels i"
proof -
  have "all_channels = mask 32" by (simp add: all_channels_def mask_eq_exp_minus_1)
  moreover have "bit (mask 32 :: u32) i" by (simp only: bit_mask_iff) (use assms in simp)
  ultimately show ?thesis by metis
qed

lemma do_log_bit:
  assumes "i < 32"
  shows "bit (lg_dynamic (do_log names c l)) i =
      (case decides i c of None \<Rightarrow> bit (lg_dynamic l) i | Some on \<Rightarrow> on \<and> bit (lg_static l) i \<or> on \<and> bit (lg_dynamic l) i)"
    "lg_static (do_log names c l) = lg_static l"
  using assms bit_all_channels [OF assms]
  by (cases c; auto simp: set_channels_def clear_channels_def write_log_def bit_and_iff bit_or_iff bit_not_iff)+

text \<open>
  A channel is enabled exactly when it was compiled in and the last call that says something about it turned it on, whatever else was set, cleared and
  written.
\<close>

definition turned_on :: "nat \<Rightarrow> log_call list \<Rightarrow> bool" where
  "turned_on i cs \<longleftrightarrow>
     (\<exists>before call behind. cs = before @ call # behind \<and> decides i call = Some True \<and> (\<forall>d \<in> set behind. decides i d \<noteq> Some False))"

lemma turned_on_snoc: "turned_on i (cs @ [d]) \<longleftrightarrow> decides i d = Some True \<or> decides i d \<noteq> Some False \<and> turned_on i cs"
proof
  assume "turned_on i (cs @ [d])"
  then obtain before call behind where "cs @ [d] = before @ call # behind" "decides i call = Some True"
    "\<forall>d \<in> set behind. decides i d \<noteq> Some False" by (auto simp: turned_on_def)
  then show "decides i d = Some True \<or> decides i d \<noteq> Some False \<and> turned_on i cs"
    by (cases behind rule: rev_cases) (auto simp: turned_on_def)
next
  assume "decides i d = Some True \<or> decides i d \<noteq> Some False \<and> turned_on i cs"
  then show "turned_on i (cs @ [d])"
  proof
    assume "decides i d \<noteq> Some False \<and> turned_on i cs"
    then obtain before call behind where "cs = before @ call # behind" "decides i call = Some True"
      "\<forall>d \<in> set (behind @ [d]). decides i d \<noteq> Some False" by (auto simp: turned_on_def)
    then show ?thesis unfolding turned_on_def
      by (intro exI [of _ before] exI [of _ call] exI [of _ "behind @ [d]"]) simp
  next
    assume "decides i d = Some True"
    then show ?thesis unfolding turned_on_def by (intro exI [of _ cs] exI [of _ d] exI [of _ "[]"]) simp
  qed
qed

theorem channel_enabled:
  assumes "i < 32"
  shows "bit (lg_dynamic (fold (do_log names) cs (make_logger c))) i \<longleftrightarrow> bit c i \<and> turned_on i cs"
proof (induction cs rule: rev_induct)
  case Nil
  show ?case by (simp add: make_logger_def turned_on_def)
next
  case (snoc d cs)
  define l where "l = fold (do_log names) cs (make_logger c)"
  have "lg_static l = c" unfolding l_def
    by (induction cs rule: rev_induct) (simp_all add: make_logger_def do_log_bit(2) [OF assms])
  then have "bit (lg_dynamic (do_log names d l)) i =
      (case decides i d of None \<Rightarrow> bit (lg_dynamic l) i | Some on \<Rightarrow> on \<and> bit c i \<or> on \<and> bit (lg_dynamic l) i)"
    using do_log_bit(1) [OF assms, of names d l] by (simp split: option.split)
  then show ?case using snoc.IH turned_on_snoc [of i cs d] by (auto simp flip: l_def split: option.splits)
qed

text \<open>So a message is printed only when one of its channels was compiled in.\<close>

lemma written_compiled_in:
  assumes "do_log names (Write_log stamp ch msg) l \<noteq> l" "lg_dynamic l AND NOT (lg_static l) = 0"
  shows "static_test ch l"
proof -
  from assms(1) obtain i where "i < 32" "bit ch i" "bit (lg_dynamic l) i"
    by (auto simp: write_log_def dynamic_test_def bit_eq_iff bit_and_iff dest: bit_imp_le_length split: if_splits)
  moreover have "bit (lg_static l) i" using assms(2) calculation by (auto simp: bit_eq_iff bit_and_iff bit_not_iff)
  ultimately show ?thesis by (auto simp: static_test_def bit_eq_iff bit_and_iff)
qed

end
