(* ===== verification/Connection_Log.thy ===== *)
theory Connection_Log
  imports Connection Utilities Logger
begin

text \<open>
  What a connection writes to its access log (\<^verbatim>\<open>impl/connection_impl.hpp\<close>), and the calls that throw the code the
  others return. The line of an opened connection can be taken apart again; but all that the peer sends is written as it is, line
  breaks included.
\<close>

subsection \<open>Lines\<close>

definition quote_agent :: "string \<Rightarrow> string option" where
  "quote_agent ua =
     (if ua = [] then Some [CHR 0x22, CHR 0x22, CHR '' '']
      else map_option (\<lambda>t. [CHR 0x22] @ t @ [CHR 0x22, CHR '' '']) (string_replace_all ua [CHR 0x22] [CHR 0x5C, CHR 0x22]))"

text \<open>The address of the peer is what the transport says.\<close>

definition log_open_result :: "string \<Rightarrow> connection \<Rightarrow> string option" where
  "log_open_result remote c =
     (let version = if \<not> is_websocket_handshake (c_request c) then - 1 else get_websocket_version (c_request c) in
      map_option (\<lambda>agent.
        (if version = - 1 then ''HTTP'' else ''WebSocket'') @ '' Connection '' @ remote @ '' '' @
        (if version \<noteq> - 1 then ''v'' @ decimal_int version @ '' '' else []) @ agent @
        (case c_uri c of Some u \<Rightarrow> m_resource u | None \<Rightarrow> ''NULL'') @ '' '' @ decimal_int (m_status_code (c_response c)))
        (quote_agent (get_header ''User-Agent'' (c_request c))))"

definition close_part :: "u16 \<Rightarrow> bytes \<Rightarrow> string" where
  "close_part code reason = decimal (unat code) @ (if reason = [] then [] else '','' @ octets_text reason)"

definition log_close_result :: "connection \<Rightarrow> string" where
  "log_close_result c =
     ''Disconnect '' @ ''close local:['' @ close_part (c_local_close_code c) (c_local_close_reason c) @
     ''] remote:['' @ close_part (c_remote_close_code c) (c_remote_close_reason c) @ '']''"

text \<open>What the default code says is up to the library of the language.\<close>

definition log_fail_result :: "string \<Rightarrow> connection \<Rightarrow> string" where
  "log_fail_result ok c = ''Failed: '' @ (case c_ec c of None \<Rightarrow> ok | Some e \<Rightarrow> error_message e)"

subsection \<open>Calls that throw\<close>

definition throw_ec :: "ec \<Rightarrow> connection \<Rightarrow> outcome" where
  "throw_ec ec c = (case ec of None \<Rightarrow> Done c | Some e \<Rightarrow> Throws (Error_code e) c)"

definition ping_throws :: "env \<Rightarrow> bytes \<Rightarrow> connection \<Rightarrow> outcome option" where
  "ping_throws env payload c = map_option (case_prod throw_ec) (ping env payload c)"

definition pong_throws :: "env \<Rightarrow> bytes \<Rightarrow> connection \<Rightarrow> outcome option" where
  "pong_throws env payload c = map_option (case_prod throw_ec) (pong env payload c)"

definition close_throws :: "env \<Rightarrow> u16 \<Rightarrow> bytes \<Rightarrow> connection \<Rightarrow> outcome option" where
  "close_throws env code reason c = map_option (case_prod throw_ec) (close env code reason c)"

definition add_subprotocol_throws :: "string \<Rightarrow> connection \<Rightarrow> outcome" where
  "add_subprotocol_throws name c = case_prod throw_ec (add_subprotocol name None c)"

definition select_subprotocol_throws :: "string \<Rightarrow> connection \<Rightarrow> outcome" where
  "select_subprotocol_throws name c = case_prod throw_ec (select_subprotocol name None c)"

subsection \<open>Properties\<close>

definition quoted :: "string \<Rightarrow> string" where
  "quoted s = concat (List.map (\<lambda>c. if c = CHR 0x22 then [CHR 0x5C, CHR 0x22] else [c]) s)"

lemma replaced_quotes: "replaced [CHR 0x22] [CHR 0x5C, CHR 0x22] s = quoted s"
  by (induction s) (auto simp: quoted_def)

lemma quote_agent_quoted: "quote_agent ua = Some ([CHR 0x22] @ quoted ua @ [CHR 0x22, CHR '' ''])"
  by (simp add: quote_agent_def replace_all_returns replaced_quotes) (simp add: quoted_def)

text \<open>
  Taking the quotes back: a backslash goes when a quote follows. So nothing is lost, although a backslash is not escaped itself.
\<close>

fun unquoted :: "string \<Rightarrow> string" where
  "unquoted (c # d # s) = (if c = CHR 0x5C \<and> d = CHR 0x22 then d # unquoted s else c # unquoted (d # s))"
| "unquoted s = s"

lemma quoted_Nil [simp]: "quoted [] = []" by (simp add: quoted_def)
lemma quoted_Cons: "quoted (c # s) = (if c = CHR 0x22 then CHR 0x5C # CHR 0x22 # quoted s else c # quoted s)"
  by (simp add: quoted_def)

lemma quoted_front: "quoted s = d # t \<Longrightarrow> d \<noteq> CHR 0x22"
  by (cases s) (auto simp: quoted_Cons split: if_splits)

lemma unquoted_quoted [simp]: "unquoted (quoted s) = s"
proof (induction s)
  case (Cons c s)
  show ?case
  proof (cases "c = CHR 0x22")
    case True
    then show ?thesis using Cons by (simp add: quoted_Cons)
  next
    case False
    then show ?thesis using Cons quoted_front [of s] by (cases "quoted s") (auto simp: quoted_Cons)
  qed
qed simp

lemma decimal_int_inject: "decimal_int i = decimal_int j \<longleftrightarrow> i = j"
proof
  assume eq: "decimal_int i = decimal_int j"
  have sign: "decimal n \<noteq> CHR ''-'' # t" for n t
  proof
    assume "decimal n = CHR ''-'' # t"
    then have "is_digit CHR ''-''" using decimal_digits [of n] by simp
    then show False by (simp add: is_digit_def)
  qed
  have inj: "decimal m = decimal n \<Longrightarrow> m = n" for m n using decimal_digits by metis
  show "i = j"
    using eq sign sign [symmetric] by (auto simp: decimal_int_def dest!: inj split: if_splits)
qed simp

text \<open>A text without blanks ends where the first one is, read from either side.\<close>

lemma blank_split_front:
  assumes "CHR '' '' \<notin> set a" "CHR '' '' \<notin> set b"
  shows "a @ CHR '' '' # x = b @ CHR '' '' # y \<longleftrightarrow> a = b \<and> x = y"
  using assms by (auto simp: append_eq_append_conv2 Cons_eq_append_conv append_eq_Cons_conv)

lemma blank_split_back:
  assumes "CHR '' '' \<notin> set a" "CHR '' '' \<notin> set b"
  shows "x @ CHR '' '' # a = y @ CHR '' '' # b \<longleftrightarrow> x = y \<and> a = b"
proof -
  have "x @ CHR '' '' # a = y @ CHR '' '' # b \<longleftrightarrow> rev (x @ CHR '' '' # a) = rev (y @ CHR '' '' # b)" by (simp only: rev_is_rev_conv)
  then show ?thesis using blank_split_front [of "rev a" "rev b" "rev x" "rev y"] assms by auto
qed

definition logged_version :: "connection \<Rightarrow> int" where
  "logged_version c = (if \<not> is_websocket_handshake (c_request c) then - 1 else get_websocket_version (c_request c))"

definition logged_resource :: "connection \<Rightarrow> string" where
  "logged_resource c = (case c_uri c of Some u \<Rightarrow> m_resource u | None \<Rightarrow> ''NULL'')"

lemma log_open_line:
  "log_open_result remote c = Some
     ((if logged_version c = - 1 then ''HTTP'' else ''WebSocket'') @ '' Connection '' @ remote @ CHR '' '' #
      (if logged_version c = - 1 then [] else ''v'' @ decimal_int (logged_version c) @ '' '') @
      (CHR 0x22 # quoted (get_header ''User-Agent'' (c_request c)) @ [CHR 0x22] @ CHR '' '' # logged_resource c) @ CHR '' '' #
      decimal_int (m_status_code (c_response c)))"
  by (auto simp: log_open_result_def quote_agent_quoted logged_version_def logged_resource_def Let_def)

text \<open>
  The line of an opened connection keeps apart what it is made of. Two connections that leave the same line had peers of the same
  address and agree on the version, the user agent, whatever quotes, backslashes and blanks are in it, the resource and the status.
\<close>

theorem open_line_injective:
  assumes "log_open_result remote c = log_open_result remote' c'"
    and blanks: "CHR '' '' \<notin> set remote" "CHR '' '' \<notin> set remote'" "CHR '' '' \<notin> set (logged_resource c)"
      "CHR '' '' \<notin> set (logged_resource c')"
  shows "remote = remote'" "logged_version c = logged_version c'"
    "get_header ''User-Agent'' (c_request c) = get_header ''User-Agent'' (c_request c')"
    "logged_resource c = logged_resource c'" "m_status_code (c_response c) = m_status_code (c_response c')"
proof -
  let ?tail = "\<lambda>c. (CHR 0x22 # quoted (get_header ''User-Agent'' (c_request c)) @ [CHR 0x22] @ CHR '' '' # logged_resource c)
    @ CHR '' '' # decimal_int (m_status_code (c_response c))"
  have no_blank: "CHR '' '' \<notin> set (decimal_int i)" for i using decimal_int_line by blast
  have http: "logged_version c = - 1 \<longleftrightarrow> logged_version c' = - 1" using assms(1) unfolding log_open_line by (auto split: if_splits)
  have line: "remote = remote' \<and> (if logged_version c = - 1 then [] else ''v'' @ decimal_int (logged_version c) @ '' '') @ ?tail c =
      (if logged_version c' = - 1 then [] else ''v'' @ decimal_int (logged_version c') @ '' '') @ ?tail c'"
    using assms(1) http blank_split_front [OF blanks(1,2)] unfolding log_open_line by (simp split: if_splits)
  have "logged_version c = logged_version c' \<and> ?tail c = ?tail c'"
  proof (cases "logged_version c = - 1")
    case False
    then have "decimal_int (logged_version c) @ CHR '' '' # ?tail c = decimal_int (logged_version c') @ CHR '' '' # ?tail c'"
      using line http by simp
    then show ?thesis unfolding blank_split_front [OF no_blank no_blank] decimal_int_inject .
  qed (use line http in simp)
  then have v: "logged_version c = logged_version c'"
    and e: "CHR 0x22 # quoted (get_header ''User-Agent'' (c_request c)) @ [CHR 0x22] @ CHR '' '' # logged_resource c =
      CHR 0x22 # quoted (get_header ''User-Agent'' (c_request c')) @ [CHR 0x22] @ CHR '' '' # logged_resource c'"
    and s: "m_status_code (c_response c) = m_status_code (c_response c')"
    unfolding blank_split_back [OF no_blank no_blank] decimal_int_inject by blast+
  have "(quoted (get_header ''User-Agent'' (c_request c)) @ [CHR 0x22]) @ CHR '' '' # logged_resource c =
      (quoted (get_header ''User-Agent'' (c_request c')) @ [CHR 0x22]) @ CHR '' '' # logged_resource c'"
    using e by simp
  then have q: "quoted (get_header ''User-Agent'' (c_request c)) = quoted (get_header ''User-Agent'' (c_request c'))"
    and r: "logged_resource c = logged_resource c'"
    unfolding blank_split_back [OF blanks(3,4)] by simp_all
  show "get_header ''User-Agent'' (c_request c) = get_header ''User-Agent'' (c_request c')"
    using arg_cong [OF q, of unquoted] by simp
  show "remote = remote'" "logged_version c = logged_version c'" "logged_resource c = logged_resource c'"
    "m_status_code (c_response c) = m_status_code (c_response c')"
    using line v r s by simp_all
qed

text \<open>
  The line of a closed connection holds the reason the peer gave as it came. One with line breaks in it, which is valid text, puts a
  line of the peer's own making into the log, stamp and channel included.
\<close>

lemma octets_text_append [simp]: "octets_text (xs @ ys) = octets_text xs @ octets_text ys" by (simp add: octets_text_def)

lemma octets_text_line_feed: "octets_text (0x0A # bs) = CHR 0x0A # octets_text bs"
proof -
  have "octets_text [0x0A] = [CHR 0x0A]" by code_simp
  then show ?thesis using octets_text_append [of "[0x0A]" bs] by simp
qed

theorem close_line_forged:
  assumes "c_remote_close_reason c = front @ [0x0A] @ forged @ [0x0A] @ rest" "dynamic_test channel l"
  shows "\<exists>before behind. lg_out (write_log names stamp channel (log_close_result c) l) =
    lg_out l @ before @ [CHR 0x0A] @ octets_text forged @ [CHR 0x0A] @ behind"
proof -
  have "lg_out (write_log names stamp channel (log_close_result c) l) =
      lg_out l @ (''['' @ stamp @ ''] '' @ ''['' @ names channel @ ''] '' @ ''Disconnect '' @ ''close local:['' @
        close_part (c_local_close_code c) (c_local_close_reason c) @ ''] remote:['' @ decimal (unat (c_remote_close_code c)) @ '','' @
        octets_text front) @ [CHR 0x0A] @ octets_text forged @ [CHR 0x0A] @ (octets_text rest @ '']'' @ [CHR 0x0A])"
    using assms by (simp add: write_log_def log_close_result_def close_part_def octets_text_line_feed)
  then show ?thesis by blast
qed

end
